(* ===== verification/Iot_Prelude.thy ===== *)
theory Iot_Prelude
  imports Main "HOL-Library.Word"
begin

text \<open>
  Shared vocabulary of the development: the machine integers of the 64-bit little-endian targets the
  program is built for, the errors a C++ operation can end in, the sum-typed results that carry them,
  and byte buffers with the pointer accesses the sources make on them.  The lemmas are the generic
  facts about results, little-endian encodings, pointer accesses and list slices that every component
  uses.
\<close>

section \<open>Machine types\<close>

type_synonym byte = "8 word"
type_synonym uint32_t = "32 word"
type_synonym uint64_t = "64 word"
type_synonym size_t = "64 word"

text \<open>A \<open>std::shared_ptr<char[]>\<close>: null, or the bytes of the array it owns.\<close>

type_synonym char_array = "byte list option"

section \<open>Errors and results\<close>

text \<open>The exception classes the sources throw; each carries its \<open>what()\<close> text.\<close>

datatype exn = runtime_error string | out_of_range string | invalid_argument string | bad_alloc
  | bad_optional_access

primrec what :: "exn \<Rightarrow> string" where
  "what (runtime_error s) = s"
| "what (out_of_range s) = s"
| "what (invalid_argument s) = s"
| "what bad_alloc = ''std::bad_alloc''"
| "what bad_optional_access = ''bad optional access''"

text \<open>Undefined behaviour the model makes visible instead of choosing a value.\<close>

datatype fault = DivisionByZero | OutOfBoundsRead | OutOfBoundsWrite | NullPointer | VectorIndex | BadHandle
  | SemaphoreOverflow | UnmappedCode

datatype error = Throw exn | UB fault

type_synonym 'a res = "error + 'a"

definition rbind :: "'e + 'a \<Rightarrow> ('a \<Rightarrow> 'e + 'b) \<Rightarrow> 'e + 'b" where
  "rbind m f = (case m of Inl e \<Rightarrow> Inl e | Inr a \<Rightarrow> f a)"

text \<open>
  \<open>try { ... } catch(const std::exception& e) { handler }\<close>: an exception is handled, undefined behaviour
  is not.
\<close>

definition try_catch :: "'a res \<Rightarrow> (exn \<Rightarrow> 'a res) \<Rightarrow> 'a res" where
  "try_catch m handler =
     (case m of Inr a \<Rightarrow> Inr a | Inl (Throw e) \<Rightarrow> handler e | Inl (UB f) \<Rightarrow> Inl (UB f))"

definition guard :: "bool \<Rightarrow> 'e \<Rightarrow> 'e + unit" where
  "guard b e = (if b then Inr () else Inl e)"

section \<open>Bytes and pointers\<close>

text \<open>The \<open>n\<close> low bytes of a number in memory order (least significant first).\<close>

primrec le_bytes :: "nat \<Rightarrow> nat \<Rightarrow> byte list" where
  "le_bytes 0 k = []"
| "le_bytes (Suc n) k = word_of_nat (k mod 256) # le_bytes n (k div 256)"

primrec le_value :: "byte list \<Rightarrow> nat" where
  "le_value [] = 0"
| "le_value (b # bs) = unat b + 256 * le_value bs"

text \<open>A read pointer is the part of its array from the pointer to the end.\<close>

definition fetch :: "nat \<Rightarrow> byte list \<Rightarrow> (byte list \<times> byte list) res" where
  "fetch n p = (if n \<le> length p then Inr (take n p, drop n p) else Inl (UB OutOfBoundsRead))"

text \<open>A write pointer is its array and a position in it.\<close>

type_synonym wptr = "byte list \<times> nat"

definition put_bytes :: "byte list \<Rightarrow> wptr \<Rightarrow> wptr res" where
  "put_bytes bs c =
     (if snd c + length bs \<le> length (fst c)
      then Inr (take (snd c) (fst c) @ bs @ drop (snd c + length bs) (fst c), snd c + length bs)
      else Inl (UB OutOfBoundsWrite))"

text \<open>\<open>*(uint32_t*)p = w\<close>, \<open>*(size_t*)p = w\<close>, \<open>*(uint8_t*)p = w\<close> and the matching reads.\<close>

definition put_u32 :: "uint32_t \<Rightarrow> wptr \<Rightarrow> wptr res" where
  "put_u32 w = put_bytes (le_bytes 4 (unat w))"

definition put_u64 :: "size_t \<Rightarrow> wptr \<Rightarrow> wptr res" where
  "put_u64 w = put_bytes (le_bytes 8 (unat w))"

definition put_u8 :: "byte \<Rightarrow> wptr \<Rightarrow> wptr res" where
  "put_u8 b = put_bytes [b]"

definition fetch_u32 :: "byte list \<Rightarrow> (uint32_t \<times> byte list) res" where
  "fetch_u32 p = rbind (fetch 4 p) (\<lambda>(bs, q). Inr (word_of_nat (le_value bs), q))"

definition fetch_u64 :: "byte list \<Rightarrow> (size_t \<times> byte list) res" where
  "fetch_u64 p = rbind (fetch 8 p) (\<lambda>(bs, q). Inr (word_of_nat (le_value bs), q))"

definition fetch_u8 :: "byte list \<Rightarrow> (byte \<times> byte list) res" where
  "fetch_u8 p = rbind (fetch 1 p) (\<lambda>(bs, q). Inr (hd bs, q))"

text \<open>\<open>new char[n]\<close>: \<open>g\<close> gives the indeterminate contents of the fresh block.\<close>

definition new_char :: "(nat \<Rightarrow> byte) \<Rightarrow> nat \<Rightarrow> byte list" where
  "new_char g n = map g [0..<n]"

text \<open>\<open>memcpy(dst + off, src, n)\<close>, both blocks checked.\<close>

definition memcpy :: "byte list \<Rightarrow> nat \<Rightarrow> byte list \<Rightarrow> nat \<Rightarrow> byte list res" where
  "memcpy dst off src n =
     (if n > length src then Inl (UB OutOfBoundsRead)
      else if off + n > length dst then Inl (UB OutOfBoundsWrite)
      else Inr (take off dst @ take n src @ drop (off + n) dst))"

text \<open>Overwriting the part of a list from \<open>off\<close> on, inside its length.\<close>

text \<open>\<open>std::to_string\<close> on an unsigned number, for the messages of the log.\<close>

fun digits :: "nat \<Rightarrow> string" where
  "digits n = (if n < 10 then [char_of (48 + n)] else digits (n div 10) @ [char_of (48 + n mod 10)])"

declare digits.simps [simp del]

definition to_string :: "size_t \<Rightarrow> string" where
  "to_string w = digits (unat w)"

definition splice :: "byte list \<Rightarrow> nat \<Rightarrow> byte list \<Rightarrow> byte list" where
  "splice xs off d = take off xs @ d @ drop (off + length d) xs"

section \<open>Results\<close>

named_theorems res_simps "rewriting of results"

lemma rbind_Inl [simp]: "rbind (Inl e) f = Inl e"
  by (simp add: rbind_def)

lemma rbind_Inr [simp]: "rbind (Inr a) f = f a"
  by (simp add: rbind_def)

lemma rbind_eq_Inr [res_simps]: "rbind m f = Inr b \<longleftrightarrow> (\<exists>a. m = Inr a \<and> f a = Inr b)"
  by (cases m) auto

lemma rbind_eq_Inl [res_simps]:
  "rbind m f = Inl e \<longleftrightarrow> m = Inl e \<or> (\<exists>a. m = Inr a \<and> f a = Inl e)"
  by (cases m) auto

lemma rbind_assoc: "rbind (rbind m f) g = rbind m (\<lambda>a. rbind (f a) g)"
  by (cases m) auto

lemma rbind_cong [fundef_cong]:
  "m = m' \<Longrightarrow> (\<And>a. m' = Inr a \<Longrightarrow> f a = f' a) \<Longrightarrow> rbind m f = rbind m' f'"
  by (cases m') auto

lemma try_catch_simps [simp]:
  "try_catch (Inr a) h = Inr a" "try_catch (Inl (Throw e)) h = h e"
  "try_catch (Inl (UB f)) h = Inl (UB f)"
  by (simp_all add: try_catch_def)

lemma guard_eq_Inr [simp]: "guard b e = Inr u \<longleftrightarrow> b"
  by (simp add: guard_def)

lemma guard_True [simp]: "guard True e = Inr ()"
  by (simp add: guard_def)

lemma guard_False [simp]: "guard False e = Inl e"
  by (simp add: guard_def)

section \<open>Little-endian encodings\<close>

lemma length_le_bytes [simp]: "length (le_bytes n k) = n"
  by (induction n arbitrary: k) auto

lemma le_value_le_bytes: "le_value (le_bytes n k) = k mod 256 ^ n"
proof (induction n arbitrary: k)
  case 0
  then show ?case by simp
next
  case (Suc n)
  have "unat (word_of_nat (k mod 256) :: byte) = k mod 256"
    by (simp add: unat_of_nat)
  moreover have "k mod 256 + 256 * (k div 256 mod 256 ^ n) = k mod (256 * 256 ^ n)"
    by (simp add: mod_mult2_eq)
  ultimately show ?case
    by (simp add: Suc.IH)
qed

lemma le_value_append: "le_value (a @ b) = le_value a + 256 ^ length a * le_value b"
  by (induction a) (auto simp: algebra_simps)

lemma le_value_less: "le_value bs < 256 ^ length bs"
proof (induction bs)
  case (Cons b bs)
  have "unat b < 256" using unsigned_less [of b] by simp
  with Cons show ?case by simp
qed simp

lemma le_bytes_le_value: "length bs = n \<Longrightarrow> le_bytes n (le_value bs) = bs"
proof (induction bs arbitrary: n)
  case (Cons b bs)
  have "unat b < 256" using unsigned_less [of b] by simp
  with Cons show ?case by auto
qed simp

lemma le_value_u32 [simp]: "word_of_nat (le_value (le_bytes 4 (unat w))) = (w :: uint32_t)"
proof -
  have "unat w < 256 ^ 4"
    using unsigned_less [of w] by simp
  then show ?thesis by (simp add: le_value_le_bytes)
qed

lemma le_value_u64 [simp]: "word_of_nat (le_value (le_bytes 8 (unat w))) = (w :: size_t)"
proof -
  have "unat w < 256 ^ 8"
    using unsigned_less [of w] by simp
  then show ?thesis by (simp add: le_value_le_bytes)
qed

section \<open>Pointer accesses\<close>

lemma fetch_append [simp]: "length bs = n \<Longrightarrow> fetch n (bs @ rest) = Inr (bs, rest)"
  by (simp add: fetch_def)

lemma fetch_eq_Inr: "fetch n p = Inr (a, q) \<longleftrightarrow> n \<le> length p \<and> a = take n p \<and> q = drop n p"
  by (auto simp: fetch_def)

lemma fetch_u32_append [simp]: "fetch_u32 (le_bytes 4 (unat w) @ rest) = Inr (w, rest)"
  by (simp add: fetch_u32_def)

lemma fetch_u64_append [simp]: "fetch_u64 (le_bytes 8 (unat w) @ rest) = Inr (w, rest)"
  by (simp add: fetch_u64_def)

lemma fetch_u8_Cons [simp]: "fetch_u8 (b # rest) = Inr (b, rest)"
  by (simp add: fetch_u8_def fetch_def)

text \<open>Two writes in a row are one write of the concatenation: the law every encoder rests on.\<close>

lemma put_bytes_append: "rbind (put_bytes a c) (put_bytes b) = put_bytes (a @ b) c"
proof (cases "snd c + length a \<le> length (fst c)")
  case True
  then have "length (take (snd c) (fst c)) = snd c" by simp
  then obtain x y where c: "fst c = x @ y" "snd c = length x"
    by (metis append_take_drop_id)
  with True show ?thesis
    by (auto simp: put_bytes_def add.commute)
next
  case False
  then show ?thesis by (simp add: put_bytes_def)
qed

lemma put_bytes_fill: "length buf = length bs \<Longrightarrow> put_bytes bs (buf, 0) = Inr (bs, length bs)"
  by (simp add: put_bytes_def)

lemma length_put_bytes: "put_bytes bs c = Inr d \<Longrightarrow> length (fst d) = length (fst c)"
  by (auto simp: put_bytes_def split: if_splits)

lemma length_new_char [simp]: "length (new_char g n) = n"
  by (simp add: new_char_def)

lemma memcpy_eq_Inr:
  "memcpy dst off src n = Inr d \<longleftrightarrow>
     n \<le> length src \<and> off + n \<le> length dst \<and> d = take off dst @ take n src @ drop (off + n) dst"
  by (auto simp: memcpy_def not_less not_le)

lemma length_memcpy: "memcpy dst off src n = Inr d \<Longrightarrow> length d = length dst"
  by (auto simp: memcpy_eq_Inr)

section \<open>Lists and words\<close>

lemma upt_split: "i \<le> j \<Longrightarrow> j \<le> k \<Longrightarrow> [i..<k] = [i..<j] @ [j..<k]"
  by (metis le_add_diff_inverse upt_add_eq_append)

lemma div_mod_shift:
  assumes "off mod c + i < (c::nat)"
  shows "(off + i) div c = off div c" and "(off + i) mod c = off mod c + i"
proof -
  have "(m + c * q) div c = q" "(m + c * q) mod c = m" if "m < c" for m q
    using that by simp_all
  from this [OF assms, of "off div c"]
  show "(off + i) div c = off div c" "(off + i) mod c = off mod c + i"
    by (simp_all add: add.commute [of _ i] add.assoc)
qed

lemma unat_injD: "unat a = unat b \<Longrightarrow> a = b"
  by (rule unsigned_word_eqI)

lemma unat_bound64 [simp]: "unat (w :: size_t) < 18446744073709551616"
  using unsigned_less [of w] by simp

lemma unat_add_64: "unat (a :: size_t) + unat b < 2 ^ 64 \<Longrightarrow> unat (a + b) = unat a + unat b"
  by (simp add: unat_word_ariths)

lemma unat_ucast_32_64 [simp]: "unat (ucast (w :: uint32_t) :: size_t) = unat w"
proof -
  have "unat w < 2 ^ 64" using unsigned_less [of w] by (rule less_trans) simp
  then show ?thesis by (simp add: unsigned_ucast_eq take_bit_nat_eq_self)
qed

lemma unat_ucast_8 [simp]:
  "unat (ucast (b :: byte) :: uint32_t) = unat b" "unat (ucast b :: size_t) = unat b"
proof -
  have "unat b < 256" using unsigned_less [of b] by simp
  then have "unat b < 2 ^ 32" "unat b < 2 ^ 64" by simp_all
  then show "unat (ucast b :: uint32_t) = unat b" "unat (ucast b :: size_t) = unat b"
    by (simp_all add: unsigned_ucast_eq take_bit_nat_eq_self)
qed

section \<open>Overwritten lists\<close>

lemma length_splice [simp]: "off + length d \<le> length xs \<Longrightarrow> length (splice xs off d) = length xs"
  by (simp add: splice_def)

lemma nth_splice:
  assumes "off + length d \<le> length xs" and "k < length xs"
  shows "splice xs off d ! k = (if off \<le> k \<and> k < off + length d then d ! (k - off) else xs ! k)"
  using assms by (auto simp: splice_def nth_append min_def)

lemma slice_splice_same:
  assumes "off + length d \<le> length xs"
  shows "take (length d) (drop off (splice xs off d)) = d"
  using assms by (simp add: splice_def)

text \<open>A slice that an overwrite does not touch.\<close>

lemma slice_splice_other:
  assumes "off + length d \<le> length xs" "o' + l \<le> length xs" "o' + l \<le> off \<or> off + length d \<le> o'"
  shows "take l (drop o' (splice xs off d)) = take l (drop o' xs)"
proof (rule nth_equalityI)
  show "length (take l (drop o' (splice xs off d))) = length (take l (drop o' xs))"
    using assms by simp
next
  fix i assume "i < length (take l (drop o' (splice xs off d)))"
  then have i: "i < l" by simp
  with assms have "splice xs off d ! (o' + i) = xs ! (o' + i)"
    by (subst nth_splice) auto
  with assms i show "take l (drop o' (splice xs off d)) ! i = take l (drop o' xs) ! i" by simp
qed

end
