(* ===== verification/Cpp_Monad.thy ===== *)
theory Cpp_Monad
  imports Iot_Prelude
begin

text \<open>
  Stateful C++ code as functions on a state.  A run ends in undefined behaviour, or in a state together
  with a value or an exception: what was changed before a \<open>throw\<close> stays changed, which the handlers of
  \<open>Commands.cpp\<close> rely on.  \<open>keeps\<close> is the rule for invariants: an operation that is put together from
  parts that keep a predicate keeps it, whatever exceptions are thrown and caught on the way.
\<close>

section \<open>Operations\<close>

type_synonym ('s, 'a) cpp = "'s \<Rightarrow> fault + ((exn + 'a) \<times> 's)"

definition cret :: "'a \<Rightarrow> ('s, 'a) cpp" where
  "cret a = (\<lambda>s. Inr (Inr a, s))"

definition cthrow :: "exn \<Rightarrow> ('s, 'a) cpp" where
  "cthrow e = (\<lambda>s. Inr (Inl e, s))"

definition cbind :: "('s, 'a) cpp \<Rightarrow> ('a \<Rightarrow> ('s, 'b) cpp) \<Rightarrow> ('s, 'b) cpp" where
  "cbind m f = (\<lambda>s. case m s of
     Inl u \<Rightarrow> Inl u
   | Inr (Inl e, s') \<Rightarrow> Inr (Inl e, s')
   | Inr (Inr a, s') \<Rightarrow> f a s')"

definition cget :: "('s \<Rightarrow> 'a) \<Rightarrow> ('s, 'a) cpp" where
  "cget f = (\<lambda>s. Inr (Inr (f s), s))"

definition cmodify :: "('s \<Rightarrow> 's) \<Rightarrow> ('s, unit) cpp" where
  "cmodify f = (\<lambda>s. Inr (Inr (), f s))"

text \<open>An operation that does not touch the state.\<close>

definition clift :: "'a res \<Rightarrow> ('s, 'a) cpp" where
  "clift r = (\<lambda>s. case r of
     Inl (Throw e) \<Rightarrow> Inr (Inl e, s) | Inl (UB u) \<Rightarrow> Inl u | Inr a \<Rightarrow> Inr (Inr a, s))"

definition ctry :: "('s, 'a) cpp \<Rightarrow> (exn \<Rightarrow> ('s, 'a) cpp) \<Rightarrow> ('s, 'a) cpp" where
  "ctry m h = (\<lambda>s. case m s of
     Inl u \<Rightarrow> Inl u
   | Inr (Inl e, s') \<Rightarrow> h e s'
   | Inr (Inr a, s') \<Rightarrow> Inr (Inr a, s'))"

text \<open>A method of a member object: \<open>get\<close> and \<open>put\<close> say where the object is in the state.\<close>

definition zoom :: "('s \<Rightarrow> 't) \<Rightarrow> ('t \<Rightarrow> 's \<Rightarrow> 's) \<Rightarrow> ('t, 'a) cpp \<Rightarrow> ('s, 'a) cpp" where
  "zoom get put m = (\<lambda>s. case m (get s) of Inl u \<Rightarrow> Inl u | Inr (r, t) \<Rightarrow> Inr (r, put t s))"

text \<open>A range-based \<open>for\<close> loop.\<close>

fun cforeach :: "('x \<Rightarrow> ('s, unit) cpp) \<Rightarrow> 'x list \<Rightarrow> ('s, unit) cpp" where
  "cforeach f [] = cret ()"
| "cforeach f (x # xs) = cbind (f x) (\<lambda>_. cforeach f xs)"

section \<open>Running an operation\<close>

named_theorems cpp_simps "one step of a run"

lemma cret_run [cpp_simps]: "cret a s = Inr (Inr a, s)"
  by (simp add: cret_def)

lemma cthrow_run [cpp_simps]: "cthrow e s = Inr (Inl e, s)"
  by (simp add: cthrow_def)

lemma cget_run [cpp_simps]: "cget f s = Inr (Inr (f s), s)"
  by (simp add: cget_def)

lemma cmodify_run [cpp_simps]: "cmodify f s = Inr (Inr (), f s)"
  by (simp add: cmodify_def)

lemma clift_run [cpp_simps]:
  "clift (Inr a) s = Inr (Inr a, s)" "clift (Inl (Throw e)) s = Inr (Inl e, s)"
  "clift (Inl (UB u)) s = Inl u"
  by (simp_all add: clift_def)

lemma cbind_run:
  "m s = Inr (Inr a, s') \<Longrightarrow> cbind m f s = f a s'"
  "m s = Inr (Inl e, s') \<Longrightarrow> cbind m f s = Inr (Inl e, s')"
  "m s = Inl u \<Longrightarrow> cbind m f s = Inl u"
  by (simp_all add: cbind_def)

lemma cbind_steps [cpp_simps]:
  "cbind (cret a) f s = f a s"
  "cbind (cget h) f s = f (h s) s"
  "cbind (cmodify k) fu s = fu () (k s)"
  "cbind (clift (Inr a)) f s = f a s"
  "cbind (clift (Inl (Throw e))) f s = Inr (Inl e, s)"
  "cbind (clift (Inl (UB u))) f s = Inl u"
  "cbind (cthrow e) ft s = Inr (Inl e, s)"
  by (simp_all add: cbind_def cpp_simps)

lemma cbind_assoc [cpp_simps]: "cbind (cbind m f) g = cbind m (\<lambda>a. cbind (f a) g)"
  by (rule ext) (simp add: cbind_def split: sum.split prod.split)

lemma ctry_run [cpp_simps]:
  "m s = Inr (Inr a, s') \<Longrightarrow> ctry m h s = Inr (Inr a, s')"
  "m s = Inr (Inl e, s') \<Longrightarrow> ctry m h s = h e s'"
  "m s = Inl u \<Longrightarrow> ctry m h s = Inl u"
  by (simp_all add: ctry_def)

lemma zoom_run [cpp_simps]:
  "zoom get put m s = (case m (get s) of Inl u \<Rightarrow> Inl u | Inr (r, t) \<Rightarrow> Inr (r, put t s))"
  by (simp add: zoom_def)

lemma cbind_zoom_steps [cpp_simps]:
  "cbind (zoom get put (cmodify k)) fu s = fu () (put (k (get s)) s)"
  "cbind (zoom get put (cret a)) f s = f a (put (get s) s)"
  by (simp_all add: cbind_def cpp_simps)

lemma cbind_eq_Inr:
  "cbind m f s = Inr (r, s'') \<longleftrightarrow>
     (\<exists>e. m s = Inr (Inl e, s'') \<and> r = Inl e) \<or>
     (\<exists>a s'. m s = Inr (Inr a, s') \<and> f a s' = Inr (r, s''))"
  by (auto simp: cbind_def split: sum.split prod.split)

section \<open>Conditions before and after\<close>

text \<open>
  \<open>triple P m Q\<close>: from a state with \<open>P\<close>, whenever \<open>m\<close> ends in a state, by returning or by throwing, \<open>Q\<close>
  holds of the outcome and that state.
\<close>

definition triple :: "('s \<Rightarrow> bool) \<Rightarrow> ('s, 'a) cpp \<Rightarrow> (exn + 'a \<Rightarrow> 's \<Rightarrow> bool) \<Rightarrow> bool" where
  "triple P m Q \<longleftrightarrow> (\<forall>s r s'. P s \<longrightarrow> m s = Inr (r, s') \<longrightarrow> Q r s')"

abbreviation keeps :: "('s \<Rightarrow> bool) \<Rightarrow> ('s, 'a) cpp \<Rightarrow> bool" where
  "keeps P m \<equiv> triple P m (\<lambda>_. P)"

named_theorems keeps_intros "operations that keep an invariant"

lemma tripleI: "(\<And>s r s'. P s \<Longrightarrow> m s = Inr (r, s') \<Longrightarrow> Q r s') \<Longrightarrow> triple P m Q"
  by (auto simp: triple_def)

lemma tripleD: "triple P m Q \<Longrightarrow> m s = Inr (r, s') \<Longrightarrow> P s \<Longrightarrow> Q r s'"
  by (auto simp: triple_def)

lemma triple_weaken:
  "triple P m Q \<Longrightarrow> (\<And>s. P' s \<Longrightarrow> P s) \<Longrightarrow> (\<And>r s. Q r s \<Longrightarrow> Q' r s) \<Longrightarrow> triple P' m Q'"
  unfolding triple_def by blast

lemma triple_cbind:
  assumes "triple P m Q" and "\<And>a. triple (Q (Inr a)) (f a) R" and "\<And>e s. Q (Inl e) s \<Longrightarrow> R (Inl e) s"
  shows "triple P (cbind m f) R"
  using assms unfolding triple_def cbind_eq_Inr by metis

lemma keeps_pure [keeps_intros]:
  "keeps P (cret a)" "keeps P (cthrow e)" "keeps P (cget f)" "keeps P (clift r)"
  by (auto simp: triple_def cpp_simps clift_def split: sum.splits error.splits)

lemma keeps_cmodify: "(\<And>s. P s \<Longrightarrow> P (f s)) \<Longrightarrow> keeps P (cmodify f)"
  by (auto simp: triple_def cpp_simps)

lemma keeps_cbind [keeps_intros]:
  assumes "keeps P m" and "\<And>a. keeps P (f a)"
  shows "keeps P (cbind m f)"
  using assms by (intro triple_cbind [of P m "\<lambda>_. P"]) auto

lemma keeps_cget_bind:
  assumes "\<And>s r s'. P s \<Longrightarrow> k (f s) s = Inr (r, s') \<Longrightarrow> P s'"
  shows "keeps P (cbind (cget f) k)"
  using assms by (intro tripleI) (simp add: cpp_simps)

lemma keeps_ctry [keeps_intros]:
  assumes "keeps P m" and "\<And>e. keeps P (h e)"
  shows "keeps P (ctry m h)"
proof (rule tripleI)
  fix s r s' assume "P s" and run: "ctry m h s = Inr (r, s')"
  from run obtain q t where m: "m s = Inr (q, t)"
    by (auto simp: ctry_def split: sum.splits prod.splits)
  with assms(1) \<open>P s\<close> have "P t" by (auto dest: tripleD)
  with run m assms(2) show "P s'"
    by (cases q) (auto simp: ctry_def dest: tripleD)
qed

lemma keeps_cforeach: "(\<And>x. x \<in> set xs \<Longrightarrow> keeps P (f x)) \<Longrightarrow> keeps P (cforeach f xs)"
  by (induction xs) (auto intro: keeps_intros)

lemma keeps_if: "(b \<Longrightarrow> keeps P m) \<Longrightarrow> (\<not> b \<Longrightarrow> keeps P m') \<Longrightarrow> keeps P (if b then m else m')"
  by simp

lemma keeps_option:
  "(x = None \<Longrightarrow> keeps P m) \<Longrightarrow> (\<And>a. x = Some a \<Longrightarrow> keeps P (f a)) \<Longrightarrow>
     keeps P (case x of None \<Rightarrow> m | Some a \<Rightarrow> f a)"
  by (cases x) auto

lemma keeps_zoom:
  assumes "\<And>s r t. P s \<Longrightarrow> m (get s) = Inr (r, t) \<Longrightarrow> P (put t s)"
  shows "keeps P (zoom get put m)"
  using assms unfolding triple_def zoom_def
  by (auto split: sum.splits prod.splits)

end
