(* ===== verification/Uid.thy ===== *)
theory Uid
  imports Iot_Prelude
begin

text \<open>
  Request identifiers, \<open>concrete/src/UID.cpp\<close>: a 64-bit number drawn from a static counter that
  wraps around, ordered by \<open>operator<\<close> so that it can key a \<open>std::map\<close>.
\<close>

section \<open>Model\<close>

datatype UID = UID (GetID: size_t)

text \<open>\<open>UID::UID()\<close>: takes the static counter, returns the identifier and the incremented counter.\<close>

definition UID_next :: "size_t \<Rightarrow> UID \<times> size_t" where
  "UID_next s_counter = (UID s_counter, s_counter + 1)"

definition UID_less :: "UID \<Rightarrow> UID \<Rightarrow> bool" where
  "UID_less a b \<longleftrightarrow> GetID a < GetID b"

text \<open>\<open>n\<close> identifiers in a row.\<close>

primrec UID_draw :: "nat \<Rightarrow> size_t \<Rightarrow> UID list" where
  "UID_draw 0 c = []"
| "UID_draw (Suc n) c = (let (u, c') = UID_next c in u # UID_draw n c')"

instantiation UID :: linorder
begin

definition less_UID :: "UID \<Rightarrow> UID \<Rightarrow> bool" where
  "less_UID = UID_less"

definition less_eq_UID :: "UID \<Rightarrow> UID \<Rightarrow> bool" where
  "less_eq_UID a b \<longleftrightarrow> a = b \<or> UID_less a b"

instance
proof
  fix x y z :: UID
  show "(x < y) = (x \<le> y \<and> \<not> y \<le> x)"
    by (auto simp: less_UID_def less_eq_UID_def UID_less_def)
  show "x \<le> x" by (simp add: less_eq_UID_def)
  show "x \<le> y \<Longrightarrow> y \<le> z \<Longrightarrow> x \<le> z"
    by (auto simp: less_eq_UID_def UID_less_def)
  show "x \<le> y \<Longrightarrow> y \<le> x \<Longrightarrow> x = y"
    by (auto simp: less_eq_UID_def UID_less_def)
  show "x \<le> y \<or> y \<le> x"
    by (cases x; cases y) (auto simp: less_eq_UID_def UID_less_def)
qed

end

section \<open>Lemmas\<close>

text \<open>The keys of a \<open>std::map<UID, _>\<close> are compared by \<open>operator<\<close> alone; that is equality.\<close>

lemma UID_equiv_iff_eq: "\<not> UID_less a b \<and> \<not> UID_less b a \<longleftrightarrow> a = b"
  by (cases a; cases b) (auto simp: UID_less_def)

lemma UID_draw_nth: "i < n \<Longrightarrow> UID_draw n c ! i = UID (c + word_of_nat i)"
proof (induction n arbitrary: c i)
  case 0
  then show ?case by simp
next
  case (Suc n)
  then show ?case
    by (cases i) (auto simp: UID_next_def add.assoc)
qed

lemma length_UID_draw [simp]: "length (UID_draw n c) = n"
  by (induction n arbitrary: c) (auto simp: UID_next_def)

section \<open>Properties\<close>

text \<open>
  Identifiers drawn in a row are pairwise distinct exactly as long as the 64-bit counter has not
  gone all the way round.
\<close>

theorem uids_distinct_until_wrap: "distinct (UID_draw n c) \<longleftrightarrow> n \<le> 2 ^ 64"
proof
  assume "n \<le> 2 ^ 64"
  show "distinct (UID_draw n c)"
    unfolding distinct_conv_nth
  proof (intro allI impI)
    fix i j assume ij: "i < length (UID_draw n c)" "j < length (UID_draw n c)" "i \<noteq> j"
    with \<open>n \<le> 2 ^ 64\<close> have "i < 2 ^ 64" "j < 2 ^ 64" by simp_all
    then have "(word_of_nat i :: size_t) \<noteq> word_of_nat j"
      using ij(3) by (simp add: word_of_nat_eq_iff take_bit_nat_eq_self)
    with ij show "UID_draw n c ! i \<noteq> UID_draw n c ! j"
      by (simp add: UID_draw_nth)
  qed
next
  assume d: "distinct (UID_draw n c)"
  show "n \<le> 2 ^ 64"
  proof (rule ccontr)
    assume "\<not> n \<le> 2 ^ 64"
    then have n: "2 ^ 64 < n" by simp
    then have "UID_draw n c ! (2 ^ 64) = UID_draw n c ! 0"
      by (simp add: UID_draw_nth word_of_nat_eq_iff)
    with d n show False
      by (simp add: distinct_conv_nth)
  qed
qed

end
