(* ===== verification/Messages.thy ===== *)
theory Messages
  imports Uid
begin

text \<open>
  The datagrams of the command channel between the master and the minions: the class \<open>AMessage\<close> and
  its four subclasses (\<open>concrete/src/AMessage.cpp\<close>, \<open>MessageSend.cpp\<close>, \<open>MessageReceive.cpp\<close>).
  \<open>ToBuffer\<close> writes through a raw pointer into a block of \<open>GetSize()\<close> bytes and \<open>FromBuffer\<close> reads
  through one; both are modelled on checked pointers, so leaving a block is a fault.

  \<open>MessageWriteSend::ToBuffer\<close> copies one byte more than its \<open>m_length\<close>.  The parameter \<open>past\<close> is
  the memory that can be read after the sender's block: with \<open>past = []\<close> the model is strict about
  the block, with a longer \<open>past\<close> it says what the copy puts on the wire.  The parameter
  \<open>heap_max\<close> is the largest block that \<open>std::make_shared<char[]>\<close> grants.
\<close>

section \<open>Model\<close>

datatype MESSAGE_TYPE = READ_SEND | WRITE_SEND | READ_RECEIVE | WRITE_RECEIVE

primrec type_code :: "MESSAGE_TYPE \<Rightarrow> uint32_t" where
  "type_code READ_SEND = 0"
| "type_code WRITE_SEND = 1"
| "type_code READ_RECEIVE = 2"
| "type_code WRITE_RECEIVE = 3"

datatype AMessage =
  MessageReadSend (m_uid: size_t) (m_offset: size_t) (m_length: size_t)
| MessageWriteSend (m_uid: size_t) (m_offset: size_t) (m_length: size_t) (m_buffer: char_array)
| MessageReadReceive (m_uid: size_t) (m_result: byte) (m_length: size_t) (m_buffer: char_array)
| MessageWriteReceive (m_uid: size_t) (m_result: byte)

text \<open>The constructors; those that take a \<open>bool\<close> result store it in a \<open>uint8_t\<close>.\<close>

definition new_MessageReadSend :: "size_t \<Rightarrow> size_t \<Rightarrow> size_t \<Rightarrow> AMessage" where
  "new_MessageReadSend uid offset len = MessageReadSend uid offset len"

definition new_MessageWriteSend :: "size_t \<Rightarrow> size_t \<Rightarrow> size_t \<Rightarrow> char_array \<Rightarrow> AMessage" where
  "new_MessageWriteSend uid offset len buffer = MessageWriteSend uid offset len buffer"

definition new_MessageReadReceive :: "size_t \<Rightarrow> bool \<Rightarrow> size_t \<Rightarrow> char_array \<Rightarrow> AMessage" where
  "new_MessageReadReceive uid result len buffer = MessageReadReceive uid (of_bool result) len buffer"

definition new_MessageWriteReceive :: "size_t \<Rightarrow> bool \<Rightarrow> AMessage" where
  "new_MessageWriteReceive uid result = MessageWriteReceive uid (of_bool result)"

definition MessageReadSend_GetMessageType :: "MESSAGE_TYPE" where
  "MessageReadSend_GetMessageType = READ_SEND"

definition MessageWriteSend_GetMessageType :: "MESSAGE_TYPE" where
  "MessageWriteSend_GetMessageType = WRITE_SEND"

definition MessageReadReceive_GetMessageType :: "MESSAGE_TYPE" where
  "MessageReadReceive_GetMessageType = READ_RECEIVE"

definition MessageWriteReceive_GetMessageType :: "MESSAGE_TYPE" where
  "MessageWriteReceive_GetMessageType = WRITE_RECEIVE"

primrec GetMessageType :: "AMessage \<Rightarrow> MESSAGE_TYPE" where
  "GetMessageType (MessageReadSend u off l) = MessageReadSend_GetMessageType"
| "GetMessageType (MessageWriteSend u off l d) = MessageWriteSend_GetMessageType"
| "GetMessageType (MessageReadReceive u r l d) = MessageReadReceive_GetMessageType"
| "GetMessageType (MessageWriteReceive u r) = MessageWriteReceive_GetMessageType"

definition GetUID :: "AMessage \<Rightarrow> size_t" where
  "GetUID msg = m_uid msg"

text \<open>What the base class says where a class overrides nothing.\<close>

definition AMessage_GetOffset :: size_t where
  "AMessage_GetOffset = 0"

definition AMessage_GetLength :: size_t where
  "AMessage_GetLength = 0"

definition AMessage_GetResult :: bool where
  "AMessage_GetResult = True"

definition AMessage_GetData :: char_array where
  "AMessage_GetData = None"

text \<open>The getters of the classes, on the member they return.\<close>

definition MessageReadSend_GetOffset :: "size_t \<Rightarrow> size_t" where
  "MessageReadSend_GetOffset offset = offset"

definition MessageReadSend_GetLength :: "size_t \<Rightarrow> size_t" where
  "MessageReadSend_GetLength len = len"

definition MessageWriteSend_GetOffset :: "size_t \<Rightarrow> size_t" where
  "MessageWriteSend_GetOffset offset = offset"

definition MessageWriteSend_GetLength :: "size_t \<Rightarrow> size_t" where
  "MessageWriteSend_GetLength len = len"

definition MessageWriteSend_GetData :: "char_array \<Rightarrow> char_array" where
  "MessageWriteSend_GetData buffer = buffer"

definition MessageReadReceive_GetResult :: "byte \<Rightarrow> bool" where
  "MessageReadReceive_GetResult result = (result \<noteq> 0)"

definition MessageReadReceive_GetLength :: "size_t \<Rightarrow> size_t" where
  "MessageReadReceive_GetLength len = len"

definition MessageReadReceive_GetData :: "char_array \<Rightarrow> char_array" where
  "MessageReadReceive_GetData buffer = buffer"

definition MessageWriteReceive_GetResult :: "byte \<Rightarrow> bool" where
  "MessageWriteReceive_GetResult result = (result \<noteq> 0)"

text \<open>The virtual calls.\<close>

primrec GetOffset :: "AMessage \<Rightarrow> size_t" where
  "GetOffset (MessageReadSend u off l) = MessageReadSend_GetOffset off"
| "GetOffset (MessageWriteSend u off l d) = MessageWriteSend_GetOffset off"
| "GetOffset (MessageReadReceive u r l d) = AMessage_GetOffset"
| "GetOffset (MessageWriteReceive u r) = AMessage_GetOffset"

primrec GetLength :: "AMessage \<Rightarrow> size_t" where
  "GetLength (MessageReadSend u off l) = MessageReadSend_GetLength l"
| "GetLength (MessageWriteSend u off l d) = MessageWriteSend_GetLength l"
| "GetLength (MessageReadReceive u r l d) = MessageReadReceive_GetLength l"
| "GetLength (MessageWriteReceive u r) = AMessage_GetLength"

primrec GetResult :: "AMessage \<Rightarrow> bool" where
  "GetResult (MessageReadSend u off l) = AMessage_GetResult"
| "GetResult (MessageWriteSend u off l d) = AMessage_GetResult"
| "GetResult (MessageReadReceive u r l d) = MessageReadReceive_GetResult r"
| "GetResult (MessageWriteReceive u r) = MessageWriteReceive_GetResult r"

primrec GetData :: "AMessage \<Rightarrow> char_array" where
  "GetData (MessageReadSend u off l) = AMessage_GetData"
| "GetData (MessageWriteSend u off l d) = MessageWriteSend_GetData d"
| "GetData (MessageReadReceive u r l d) = MessageReadReceive_GetData d"
| "GetData (MessageWriteReceive u r) = AMessage_GetData"

text \<open>The sums are taken in \<open>size_t\<close> and returned as \<open>uint32_t\<close>.\<close>

definition AMessage_GetSize :: uint32_t where
  "AMessage_GetSize = 4 + 4 + 8"

definition MessageReadSend_GetSize :: uint32_t where
  "MessageReadSend_GetSize = ucast (ucast AMessage_GetSize + 8 + 8 :: size_t)"

definition MessageWriteSend_GetSize :: "size_t \<Rightarrow> uint32_t" where
  "MessageWriteSend_GetSize len = ucast (ucast AMessage_GetSize + 8 + 8 + len + 1 :: size_t)"

definition MessageReadReceive_GetSize :: "size_t \<Rightarrow> uint32_t" where
  "MessageReadReceive_GetSize len = ucast (ucast AMessage_GetSize + 1 + 8 + len :: size_t)"

definition MessageWriteReceive_GetSize :: uint32_t where
  "MessageWriteReceive_GetSize = ucast (ucast AMessage_GetSize + 1 :: size_t)"

text \<open>The virtual call.\<close>

primrec GetSize :: "AMessage \<Rightarrow> uint32_t" where
  "GetSize (MessageReadSend u off l) = MessageReadSend_GetSize"
| "GetSize (MessageWriteSend u off l d) = MessageWriteSend_GetSize l"
| "GetSize (MessageReadReceive u r l d) = MessageReadReceive_GetSize l"
| "GetSize (MessageWriteReceive u r) = MessageWriteReceive_GetSize"

lemmas message_methods [simp] = new_MessageReadSend_def new_MessageWriteSend_def AMessage_GetOffset_def
  AMessage_GetLength_def AMessage_GetResult_def AMessage_GetData_def MessageReadSend_GetSize_def
  MessageWriteSend_GetSize_def MessageReadReceive_GetSize_def MessageWriteReceive_GetSize_def
  MessageReadSend_GetMessageType_def MessageWriteSend_GetMessageType_def MessageReadReceive_GetMessageType_def
  MessageWriteReceive_GetMessageType_def MessageReadSend_GetOffset_def MessageReadSend_GetLength_def
  MessageWriteSend_GetOffset_def MessageWriteSend_GetLength_def MessageWriteSend_GetData_def
  MessageReadReceive_GetResult_def MessageReadReceive_GetLength_def MessageReadReceive_GetData_def
  MessageWriteReceive_GetResult_def

text \<open>\<open>std::copy(a.get(), a.get() + n, dst)\<close>: the bytes read from the array \<open>a\<close>.\<close>

definition copy_out :: "byte list \<Rightarrow> char_array \<Rightarrow> nat \<Rightarrow> byte list res" where
  "copy_out past a n =
     (case a of
        None \<Rightarrow> if n = 0 then Inr [] else Inl (UB NullPointer)
      | Some blk \<Rightarrow> if n \<le> length (blk @ past) then Inr (take n (blk @ past))
                    else Inl (UB OutOfBoundsRead))"

definition AMessage_ToBuffer :: "size_t \<Rightarrow> wptr \<Rightarrow> wptr res" where
  "AMessage_ToBuffer uid buffer = put_u64 uid buffer"

text \<open>Size, type and identifier: the first three writes of every subclass.\<close>

definition put_header :: "AMessage \<Rightarrow> wptr \<Rightarrow> wptr res" where
  "put_header msg buffer =
     rbind (put_u32 (GetSize msg) buffer) (\<lambda>buffer.
     rbind (put_u32 (type_code (GetMessageType msg)) buffer) (\<lambda>buffer.
     AMessage_ToBuffer (m_uid msg) buffer))"

definition MessageReadSend_ToBuffer :: "size_t \<Rightarrow> size_t \<Rightarrow> size_t \<Rightarrow> wptr \<Rightarrow> wptr res" where
  "MessageReadSend_ToBuffer uid off len buffer =
     rbind (put_header (MessageReadSend uid off len) buffer) (\<lambda>buffer.
     rbind (put_u64 off buffer) (\<lambda>buffer.
     put_u64 len buffer))"

definition MessageWriteSend_ToBuffer ::
  "byte list \<Rightarrow> size_t \<Rightarrow> size_t \<Rightarrow> size_t \<Rightarrow> char_array \<Rightarrow> wptr \<Rightarrow> wptr res" where
  "MessageWriteSend_ToBuffer past uid off len data buffer =
     rbind (put_header (MessageWriteSend uid off len data) buffer) (\<lambda>buffer.
     rbind (put_u64 off buffer) (\<lambda>buffer.
     rbind (put_u64 len buffer) (\<lambda>buffer.
     rbind (copy_out past data (unat (len + 1))) (\<lambda>bs.
     put_bytes bs buffer))))"

definition MessageReadReceive_ToBuffer ::
  "size_t \<Rightarrow> byte \<Rightarrow> size_t \<Rightarrow> char_array \<Rightarrow> wptr \<Rightarrow> wptr res" where
  "MessageReadReceive_ToBuffer uid result len data buffer =
     rbind (put_header (MessageReadReceive uid result len data) buffer) (\<lambda>buffer.
     rbind (put_u8 result buffer) (\<lambda>buffer.
     rbind (put_u64 len buffer) (\<lambda>buffer.
     rbind (copy_out [] data (unat len)) (\<lambda>bs.
     put_bytes bs buffer))))"

definition MessageWriteReceive_ToBuffer :: "size_t \<Rightarrow> byte \<Rightarrow> wptr \<Rightarrow> wptr res" where
  "MessageWriteReceive_ToBuffer uid result buffer =
     rbind (put_header (MessageWriteReceive uid result) buffer) (\<lambda>buffer.
     put_u8 result buffer)"

text \<open>The virtual call.\<close>

primrec ToBuffer :: "byte list \<Rightarrow> AMessage \<Rightarrow> wptr \<Rightarrow> wptr res" where
  "ToBuffer past (MessageReadSend u off l) = MessageReadSend_ToBuffer u off l"
| "ToBuffer past (MessageWriteSend u off l d) = MessageWriteSend_ToBuffer past u off l d"
| "ToBuffer past (MessageReadReceive u r l d) = MessageReadReceive_ToBuffer u r l d"
| "ToBuffer past (MessageWriteReceive u r) = MessageWriteReceive_ToBuffer u r"

text \<open>\<open>char* buffer = new char[msg.GetSize()]; msg.ToBuffer(buffer);\<close> as every sender writes it.\<close>

definition serialize :: "(nat \<Rightarrow> byte) \<Rightarrow> byte list \<Rightarrow> AMessage \<Rightarrow> byte list res" where
  "serialize g past msg =
     rbind (ToBuffer past msg (new_char g (unat (GetSize msg)), 0)) (\<lambda>(buffer, pos). Inr buffer)"

definition AMessage_FromBuffer :: "byte list \<Rightarrow> (size_t \<times> byte list) res" where
  "AMessage_FromBuffer buffer = fetch_u64 buffer"

text \<open>\<open>std::make_shared<char[]>(n)\<close> followed by a copy of \<open>n\<close> bytes from the pointer.\<close>

definition fetch_array :: "nat \<Rightarrow> nat \<Rightarrow> byte list \<Rightarrow> (byte list \<times> byte list) res" where
  "fetch_array heap_max n buffer =
     rbind (guard (n \<le> heap_max) (Throw bad_alloc)) (\<lambda>_. fetch n buffer)"

definition MessageReadSend_FromBuffer :: "byte list \<Rightarrow> (AMessage \<times> byte list) res" where
  "MessageReadSend_FromBuffer buffer =
     rbind (AMessage_FromBuffer buffer) (\<lambda>(uid, buffer).
     rbind (fetch_u64 buffer) (\<lambda>(off, buffer).
     rbind (fetch_u64 buffer) (\<lambda>(len, buffer).
     Inr (MessageReadSend uid off len, buffer))))"

definition MessageWriteSend_FromBuffer :: "nat \<Rightarrow> byte list \<Rightarrow> (AMessage \<times> byte list) res" where
  "MessageWriteSend_FromBuffer heap_max buffer =
     rbind (AMessage_FromBuffer buffer) (\<lambda>(uid, buffer).
     rbind (fetch_u64 buffer) (\<lambda>(off, buffer).
     rbind (fetch_u64 buffer) (\<lambda>(len, buffer).
     rbind (fetch_array heap_max (unat (len + 1)) buffer) (\<lambda>(data, buffer).
     Inr (MessageWriteSend uid off len (Some data), buffer)))))"

definition MessageReadReceive_FromBuffer :: "nat \<Rightarrow> byte list \<Rightarrow> (AMessage \<times> byte list) res" where
  "MessageReadReceive_FromBuffer heap_max buffer =
     rbind (AMessage_FromBuffer buffer) (\<lambda>(uid, buffer).
     rbind (fetch_u8 buffer) (\<lambda>(result, buffer).
     rbind (fetch_u64 buffer) (\<lambda>(len, buffer).
     rbind (fetch_array heap_max (unat len) buffer) (\<lambda>(data, buffer).
     Inr (MessageReadReceive uid result len (Some data), buffer)))))"

definition MessageWriteReceive_FromBuffer :: "byte list \<Rightarrow> (AMessage \<times> byte list) res" where
  "MessageWriteReceive_FromBuffer buffer =
     rbind (AMessage_FromBuffer buffer) (\<lambda>(uid, buffer).
     rbind (fetch_u8 buffer) (\<lambda>(result, buffer).
     Inr (MessageWriteReceive uid result, buffer)))"

text \<open>The virtual call on a default-constructed message of the given class.\<close>

primrec FromBuffer :: "nat \<Rightarrow> MESSAGE_TYPE \<Rightarrow> byte list \<Rightarrow> (AMessage \<times> byte list) res" where
  "FromBuffer heap_max READ_SEND = MessageReadSend_FromBuffer"
| "FromBuffer heap_max WRITE_SEND = MessageWriteSend_FromBuffer heap_max"
| "FromBuffer heap_max READ_RECEIVE = MessageReadReceive_FromBuffer heap_max"
| "FromBuffer heap_max WRITE_RECEIVE = MessageWriteReceive_FromBuffer"

section \<open>The wire format\<close>

text \<open>The bytes each class puts on the wire, as one list.\<close>

definition wire_header :: "AMessage \<Rightarrow> byte list" where
  "wire_header msg = le_bytes 4 (unat (GetSize msg)) @
     le_bytes 4 (unat (type_code (GetMessageType msg))) @ le_bytes 8 (unat (m_uid msg))"

primrec wire_body :: "byte list \<Rightarrow> AMessage \<Rightarrow> byte list" where
  "wire_body past (MessageReadSend u off l) = le_bytes 8 (unat off) @ le_bytes 8 (unat l)"
| "wire_body past (MessageWriteSend u off l d) = le_bytes 8 (unat off) @ le_bytes 8 (unat l) @
     (case d of None \<Rightarrow> [] | Some blk \<Rightarrow> take (unat (l + 1)) (blk @ past))"
| "wire_body past (MessageReadReceive u r l d) = r # le_bytes 8 (unat l) @
     (case d of None \<Rightarrow> [] | Some blk \<Rightarrow> take (unat l) blk)"
| "wire_body past (MessageWriteReceive u r) = [r]"

definition wire :: "byte list \<Rightarrow> AMessage \<Rightarrow> byte list" where
  "wire past msg = wire_header msg @ wire_body past msg"

text \<open>
  A message that can be sent: its data block has \<open>m_length\<close> bytes, the size fits the 32-bit size
  field, and, for the over-long copy of \<open>MessageWriteSend\<close>, a byte can be read after the block.
\<close>

primrec sendable :: "byte list \<Rightarrow> AMessage \<Rightarrow> bool" where
  "sendable past (MessageReadSend u off l) = True"
| "sendable past (MessageWriteSend u off l d) =
     (unat l + 33 < 2 ^ 32 \<and> past \<noteq> [] \<and> d \<noteq> None \<and> length (the d) = unat l)"
| "sendable past (MessageReadReceive u r l d) =
     (unat l + 25 < 2 ^ 32 \<and> d \<noteq> None \<and> length (the d) = unat l)"
| "sendable past (MessageWriteReceive u r) = True"

text \<open>The message as the receiver rebuilds it.\<close>

primrec as_received :: "byte list \<Rightarrow> AMessage \<Rightarrow> AMessage" where
  "as_received past (MessageReadSend u off l) = MessageReadSend u off l"
| "as_received past (MessageWriteSend u off l d) =
     MessageWriteSend u off l (map_option (\<lambda>blk. blk @ take 1 past) d)"
| "as_received past (MessageReadReceive u r l d) = MessageReadReceive u r l d"
| "as_received past (MessageWriteReceive u r) = MessageWriteReceive u r"

named_theorems wire_defs "the encoders and their parts"

lemmas put_defs [wire_defs] = put_u32_def put_u64_def put_u8_def AMessage_ToBuffer_def put_header_def
  MessageReadSend_ToBuffer_def MessageWriteSend_ToBuffer_def MessageReadReceive_ToBuffer_def
  MessageWriteReceive_ToBuffer_def

lemmas get_defs [wire_defs] = AMessage_FromBuffer_def MessageReadSend_FromBuffer_def
  MessageWriteSend_FromBuffer_def MessageReadReceive_FromBuffer_def
  MessageWriteReceive_FromBuffer_def fetch_array_def

lemma put_bytes_chain:
  "rbind (put_bytes a c) (\<lambda>d. rbind (put_bytes b d) k) = rbind (put_bytes (a @ b) c) k"
  by (simp add: put_bytes_append [symmetric] rbind_assoc)

lemma put_header_wire: "put_header msg = put_bytes (wire_header msg)"
  by (rule ext) (simp add: wire_defs wire_header_def put_bytes_append put_bytes_chain rbind_assoc)

lemma unat_u32_add:
  assumes "unat (l :: size_t) + unat k < 2 ^ 32"
  shows "unat (ucast (l + k) :: uint32_t) = unat l + unat k"
proof -
  have "unat (l + k) = unat l + unat k"
    using assms by (intro unat_add_64) simp
  with assms show ?thesis
    by (simp add: unsigned_ucast_eq take_bit_nat_eq_self)
qed

lemma unat_Suc_u64 [simp]: "unat (l :: size_t) < 4294967271 \<Longrightarrow> unat (l + 1) = Suc (unat l)"
  by (subst unat_add_64) auto

lemma GetSize_sum:
  "GetSize (MessageReadSend u off l) = 32"
  "GetSize (MessageWriteReceive u r) = 17"
  "GetSize (MessageWriteSend u off l d) = ucast (l + 33)"
  "GetSize (MessageReadReceive u r l d) = ucast (l + 25)"
proof -
  have b: "ucast AMessage_GetSize = (16 :: size_t)" by (simp add: AMessage_GetSize_def)
  show "GetSize (MessageReadSend u off l) = 32" "GetSize (MessageWriteReceive u r) = 17"
    by (simp_all add: b)
  have "16 + 8 + 8 + l + 1 = l + 33" "16 + 1 + 8 + l = l + 25" by simp_all
  then show "GetSize (MessageWriteSend u off l d) = ucast (l + 33)"
    "GetSize (MessageReadReceive u r l d) = ucast (l + 25)"
    by (simp_all only: GetSize.simps MessageWriteSend_GetSize_def MessageReadReceive_GetSize_def b)
qed

lemma unat_GetSize:
  "unat (GetSize (MessageReadSend u off l)) = 32"
  "unat (GetSize (MessageWriteReceive u r)) = 17"
  "unat l < 4294967263 \<Longrightarrow> unat (GetSize (MessageWriteSend u off l d)) = unat l + 33"
  "unat l < 4294967271 \<Longrightarrow> unat (GetSize (MessageReadReceive u r l d)) = unat l + 25"
  using unat_u32_add [of l 33] unat_u32_add [of l 25]
  by (simp_all add: GetSize_sum del: GetSize.simps)

declare GetSize.simps [simp del]

lemma length_wire_header [simp]: "length (wire_header msg) = 16"
  by (simp add: wire_header_def)

lemma length_wire: "sendable past msg \<Longrightarrow> length (wire past msg) = unat (GetSize msg)"
  by (cases msg; cases past)
    (auto simp: wire_def unat_GetSize)

lemma sendable_copy_out:
  "sendable past (MessageWriteSend u off l (Some d)) \<Longrightarrow>
     copy_out past (Some d) (Suc (unat l)) = Inr (d @ take 1 past)"
  by (cases past) (auto simp: copy_out_def)

lemma ToBuffer_wire:
  assumes "sendable past msg"
  shows "ToBuffer past msg = put_bytes (wire past msg)"
proof (cases msg)
  case (MessageWriteSend u off l d)
  with assms obtain blk where d: "d = Some blk" by auto
  have "take (unat (l + 1)) (blk @ past) = blk @ take 1 past"
    using assms MessageWriteSend d by auto
  with assms show ?thesis
    unfolding MessageWriteSend d
    by (intro ext) (simp add: wire_def wire_defs put_header_wire [symmetric] sendable_copy_out
        put_bytes_append put_bytes_chain rbind_assoc wire_header_def)
next
  case (MessageReadReceive u r l d)
  with assms show ?thesis
    by (intro ext) (auto simp: wire_def wire_defs copy_out_def put_bytes_append put_bytes_chain
        rbind_assoc wire_header_def)
qed (intro ext; simp add: wire_def wire_defs put_bytes_append put_bytes_chain rbind_assoc
    wire_header_def)+

lemma serialize_wire: "sendable past msg \<Longrightarrow> serialize g past msg = Inr (wire past msg)"
  by (simp add: serialize_def ToBuffer_wire put_bytes_fill length_wire)

text \<open>Encoding throws no exception: it ends in a datagram or in undefined behaviour.\<close>

lemma put_bytes_no_throw: "put_bytes bs c \<noteq> Inl (Throw e)"
  by (simp add: put_bytes_def)

lemma serialize_no_throw: "serialize g past msg \<noteq> Inl (Throw e)"
  by (cases msg) (auto simp: serialize_def put_defs copy_out_def res_simps put_bytes_no_throw
      split: option.splits if_splits)

text \<open>The part of the datagram that \<open>FromBuffer\<close> gets: everything after the two header words.\<close>

lemma drop_wire: "drop 8 (wire past msg) = le_bytes 8 (unat (m_uid msg)) @ wire_body past msg"
  by (simp add: wire_def wire_header_def)

lemma FromBuffer_wire:
  assumes "sendable past msg" and "unat (GetSize msg) \<le> heap_max"
  shows "FromBuffer heap_max (GetMessageType msg)
      (le_bytes 8 (unat (m_uid msg)) @ wire_body past msg @ rest) = Inr (as_received past msg, rest)"
proof (cases msg)
  case (MessageWriteSend u off l d)
  with assms obtain blk where d: "d = Some blk" by auto
  have t: "take (unat (l + 1)) (blk @ past) = blk @ take 1 past"
    and n: "length (blk @ take 1 past) = unat (l + 1)" "unat (l + 1) \<le> heap_max"
    using assms MessageWriteSend d
    by (cases past; auto simp: unat_GetSize)+
  have "fetch (unat (l + 1)) (blk @ take 1 past @ rest) = Inr (blk @ take 1 past, rest)"
    using fetch_append [OF n(1), of rest] by simp
  with n t show ?thesis
    unfolding MessageWriteSend d by (simp add: wire_defs)
next
  case (MessageReadReceive u r l d)
  with assms have "unat l \<le> heap_max"
    by (auto simp: unat_GetSize)
  with assms MessageReadReceive show ?thesis by (auto simp: wire_defs)
qed (simp_all add: wire_defs)

section \<open>What a receiver can rely on\<close>

lemma fetch_array_InrD:
  "fetch_array heap_max n buf = Inr (data, rest) \<Longrightarrow> buf = data @ rest \<and> length data = n \<and> n \<le> heap_max"
  by (auto simp: fetch_array_def guard_def fetch_def res_simps split: if_splits)

lemma fetch_u64_InrD:
  assumes "fetch_u64 buf = Inr (x, rest)"
  shows "buf = le_bytes 8 (unat x) @ rest"
proof -
  have x: "x = word_of_nat (le_value (take 8 buf))" "rest = drop 8 buf" "length (take 8 buf) = 8"
    using assms by (auto simp: fetch_u64_def fetch_def res_simps split: if_splits)
  have "le_value (take 8 buf) < 2 ^ 64" using le_value_less [of "take 8 buf"] x(3) by simp
  then have "unat x = le_value (take 8 buf)" by (simp add: x(1) unsigned_of_nat take_bit_nat_eq_self)
  then show ?thesis using x by (simp add: le_bytes_le_value)
qed

lemma fetch_u8_InrD: "fetch_u8 buf = Inr (x, rest) \<Longrightarrow> buf = [x] @ rest"
  by (cases buf) (auto simp: fetch_u8_def fetch_def res_simps split: if_splits)

lemma FromBuffer_write_send:
  "FromBuffer heap_max WRITE_SEND (le_bytes 8 (unat u) @ le_bytes 8 (unat off) @ le_bytes 8 (unat l) @ bs) =
     rbind (fetch_array heap_max (unat (l + 1)) bs) (\<lambda>(data, rest). Inr (MessageWriteSend u off l (Some data), rest))"
  by (simp add: MessageWriteSend_FromBuffer_def AMessage_FromBuffer_def)

text \<open>The blocks a decoded message owns: one byte more than the length field for \<open>MessageWriteSend\<close>.\<close>

primrec well_typed :: "nat \<Rightarrow> AMessage \<Rightarrow> bool" where
  "well_typed heap_max (MessageReadSend u off l) = True"
| "well_typed heap_max (MessageWriteSend u off l d) =
     (\<exists>blk. d = Some blk \<and> length blk = unat (l + 1) \<and> length blk \<le> heap_max)"
| "well_typed heap_max (MessageReadReceive u r l d) =
     (\<exists>blk. d = Some blk \<and> length blk = unat l \<and> length blk \<le> heap_max)"
| "well_typed heap_max (MessageWriteReceive u r) = True"


text \<open>
  A write whose length field is the largest \<open>size_t\<close>: \<open>m_length + 1\<close> wraps, so the receiver makes an empty block and
  copies nothing, and accepts the message with a length of \<open>2^64 - 1\<close>.
\<close>

theorem write_send_length_wraps:
  "FromBuffer heap_max WRITE_SEND (le_bytes 8 (unat uid) @ le_bytes 8 (unat off) @ le_bytes 8 (2 ^ 64 - 1) @ rest) =
     Inr (MessageWriteSend uid off (- 1) (Some []), rest)"
proof -
  have "unat (- 1 :: size_t) = 2 ^ 64 - 1" by (simp add: unsigned_minus_1_eq_mask mask_eq_exp_minus_1)
  with FromBuffer_write_send [of heap_max uid off "- 1" rest] show ?thesis
    by (simp add: fetch_array_def fetch_def res_simps)
qed


end
