(* ===== verification/Factories.thy ===== *)
theory Factories
  imports Iot_Prelude
begin

text \<open>
  The keyed tables of the program.  \<open>framework/include/factory.hpp\<close> keeps creators by key in an
  \<open>std::unordered_map\<close>, registering over an old entry and throwing on a missing key; the proxies and
  the response manager keep per-request entries in \<open>std::map\<close>s, filled by \<open>m[k] = v\<close> (overwrites) or
  \<open>emplace\<close> (keeps the old entry) and emptied by \<open>erase\<close>.  The locale \<open>pending_table\<close> is the
  contract the request tables share.
\<close>

section \<open>Model\<close>

type_synonym ('k, 'b) Factory = "'k \<rightharpoonup> 'b"

definition Factory_Register :: "'k \<Rightarrow> 'b \<Rightarrow> ('k, 'b) Factory \<Rightarrow> ('k, 'b) Factory" where
  "Factory_Register key creator umap = umap(key \<mapsto> creator)"

definition Factory_Create :: "('k, 'b) Factory \<Rightarrow> 'k \<Rightarrow> 'b res" where
  "Factory_Create umap key =
     (case umap key of
        None \<Rightarrow> Inl (Throw (out_of_range ''Key doesn't exist.''))
      | Some creator \<Rightarrow> Inr creator)"

text \<open>\<open>m[k] = v\<close>, \<open>m.emplace(k, v)\<close> and \<open>m.erase(k)\<close> of \<open>std::map\<close>.\<close>

definition map_assign :: "'k \<Rightarrow> 'v \<Rightarrow> ('k \<rightharpoonup> 'v) \<Rightarrow> ('k \<rightharpoonup> 'v)" where
  "map_assign k v m = m(k \<mapsto> v)"

definition map_emplace :: "'k \<Rightarrow> 'v \<Rightarrow> ('k \<rightharpoonup> 'v) \<Rightarrow> ('k \<rightharpoonup> 'v)" where
  "map_emplace k v m = (if m k = None then m(k \<mapsto> v) else m)"

definition map_erase :: "'k \<Rightarrow> ('k \<rightharpoonup> 'v) \<Rightarrow> ('k \<rightharpoonup> 'v)" where
  "map_erase k m = m(k := None)"

section \<open>The contract of a request table\<close>

locale pending_table =
  fixes add :: "'k \<Rightarrow> 'v \<Rightarrow> ('k \<rightharpoonup> 'v) \<Rightarrow> ('k \<rightharpoonup> 'v)"
    and remove :: "'k \<Rightarrow> ('k \<rightharpoonup> 'v) \<Rightarrow> ('k \<rightharpoonup> 'v)"
  assumes add_fresh: "m k = None \<Longrightarrow> add k v m k = Some v"
    and add_other: "k' \<noteq> k \<Longrightarrow> add k v m k' = m k'"
    and remove_same: "remove k m k = None"
    and remove_other: "k' \<noteq> k \<Longrightarrow> remove k m k' = m k'"
begin

lemma dom_add_fresh: "m k = None \<Longrightarrow> dom (add k v m) = insert k (dom m)"
proof (intro set_eqI)
  fix x assume "m k = None"
  then show "x \<in> dom (add k v m) \<longleftrightarrow> x \<in> insert k (dom m)"
    by (cases "x = k") (auto simp: add_fresh add_other domIff)
qed

lemma dom_remove: "dom (remove k m) = dom m - {k}"
proof (intro set_eqI)
  fix x
  show "x \<in> dom (remove k m) \<longleftrightarrow> x \<in> dom m - {k}"
    by (cases "x = k") (auto simp: remove_same remove_other domIff)
qed

text \<open>A request added and answered leaves the table as it was.\<close>

lemma remove_add_fresh: "m k = None \<Longrightarrow> remove k (add k v m) = m"
proof (intro ext)
  fix x assume "m k = None"
  then show "remove k (add k v m) x = m x"
    by (cases "x = k") (auto simp: remove_same remove_other add_other)
qed

text \<open>Answering one request does not disturb another one that is pending.\<close>

lemma pending_frame: "m k = None \<Longrightarrow> k' \<noteq> k \<Longrightarrow> remove k' (add k v m) k = Some v"
  by (simp add: add_fresh remove_other)

end

interpretation assign: pending_table map_assign map_erase
  by unfold_locales (auto simp: map_assign_def map_erase_def)

interpretation emplace: pending_table map_emplace map_erase
  by unfold_locales (auto simp: map_emplace_def map_erase_def)

section \<open>Lemmas\<close>

lemma Factory_Create_Register [simp]:
  "Factory_Create (Factory_Register k c m) k' = (if k' = k then Inr c else Factory_Create m k')"
  by (simp add: Factory_Create_def Factory_Register_def)

lemma Factory_Create_empty [simp]:
  "Factory_Create Map.empty k = Inl (Throw (out_of_range ''Key doesn't exist.''))"
  by (simp add: Factory_Create_def)

lemma map_assign_apply [simp]: "map_assign k v m k' = (if k' = k then Some v else m k')"
  by (simp add: map_assign_def)

lemma map_erase_apply [simp]: "map_erase k m k' = (if k' = k then None else m k')"
  by (simp add: map_erase_def)

lemma map_emplace_apply [simp]:
  "map_emplace k v m k' = (if k' = k \<and> m k = None then Some v else m k')"
  by (simp add: map_emplace_def)

lemma dom_map_emplace [simp]: "dom (map_emplace k v m) = insert k (dom m)"
  by (auto simp: map_emplace_def)

lemma dom_map_erase [simp]: "dom (map_erase k m) = dom m - {k}"
  by (rule assign.dom_remove)

end
