(* ===== verification/Udp_Channel.thy ===== *)
theory Udp_Channel
  imports Messages Factories
begin

text \<open>
  The UDP command channel: \<open>concrete/src/UdpSocket.cpp\<close> and the datagram intake that
  \<open>MinionProxy::OnMinionFDWakeUp\<close> and \<open>MasterProxy::GetTaskArgs\<close> share, a receive of at most
  \<open>BUFSIZ - 1\<close> bytes into a stack buffer followed by two checks on the header.  The results of the
  socket calls are arguments.  The locale \<open>message_codec\<close> states what the intake needs of the message
  classes; it is interpreted on \<open>serialize\<close> and \<open>FromBuffer\<close>.
\<close>

section \<open>Model\<close>

type_synonym sockaddr = "byte list"
type_synonym datagram = "sockaddr \<times> byte list"

record UDPSocket =
  udp_fd :: int
  m_serveraddr :: sockaddr

definition newline :: string where
  "newline = [CHR 0x0A]"

text \<open>
  \<open>UDPSocket(port, ip_addr)\<close>: the outcome of \<open>getaddrinfo\<close> (\<open>None\<close> on failure), of \<open>socket\<close> (-1 on
  failure) and of \<open>bind\<close> are given; \<open>bind\<close> is called only without an address.
\<close>

definition new_UDPSocket :: "sockaddr option \<Rightarrow> int \<Rightarrow> bool \<Rightarrow> bool \<Rightarrow> UDPSocket res" where
  "new_UDPSocket servinfo fd bind_ok has_ip =
     (case servinfo of
        None \<Rightarrow> Inl (Throw (runtime_error (''failed to getaddrinfo'' @ newline)))
      | Some addr \<Rightarrow>
          rbind (guard (fd \<noteq> -1) (Throw (runtime_error (''failed to socket'' @ newline)))) (\<lambda>_.
          rbind (guard (has_ip \<or> bind_ok) (Throw (runtime_error (''failed to bind'' @ newline)))) (\<lambda>_.
          Inr \<lparr>udp_fd = fd, m_serveraddr = addr\<rparr>)))"

text \<open>
  \<open>ReceiveFrom(buffer, sz)\<close>: \<open>recvfrom\<close> cuts the datagram to \<open>sz\<close> bytes and stores the sender's
  address over the peer address of the socket.
\<close>

definition ReceiveFrom :: "nat \<Rightarrow> datagram option \<Rightarrow> UDPSocket \<Rightarrow> (byte list \<times> UDPSocket) res" where
  "ReceiveFrom sz recvfrom sock =
     (case recvfrom of
        None \<Rightarrow> Inl (Throw (runtime_error (''failed to recvfrom'' @ newline)))
      | Some (addr, data) \<Rightarrow> Inr (take sz data, sock\<lparr>m_serveraddr := addr\<rparr>))"

text \<open>\<open>SendTo\<close>: \<open>sendto\<close> accepts or refuses the datagram for the peer address.\<close>

definition SendTo :: "(datagram \<Rightarrow> bool) \<Rightarrow> byte list \<Rightarrow> UDPSocket \<Rightarrow> datagram res" where
  "SendTo sendto message sock =
     (let dg = (m_serveraddr sock, message)
      in if sendto dg then Inr dg
         else Inl (Throw (runtime_error (''failed to sendto'' @ newline))))"

definition EnableBroadcast :: "bool \<Rightarrow> UDPSocket \<Rightarrow> UDPSocket res" where
  "EnableBroadcast setsockopt_ok sock =
     (if setsockopt_ok then Inr sock else Inl (Throw (runtime_error (''failed to enable broadcast'' @ newline))))"

definition BUFSIZ :: nat where
  "BUFSIZ = 8192"

text \<open>The two header checks; a frame that passes gives its type and the pointer after the header.\<close>

datatype frame = ShortPacket | SizeMismatch | Frame uint32_t "byte list"

definition read_frame :: "byte list \<Rightarrow> byte list \<Rightarrow> frame res" where
  "read_frame stack received =
     (let buffer = received @ drop (length received) stack
      in if length received < 4 * 2 then Inr ShortPacket
         else rbind (fetch_u32 buffer) (\<lambda>(msgSize, runner).
           if unat msgSize > length received then Inr SizeMismatch
           else rbind (fetch_u32 runner) (\<lambda>(messageType, runner).
             Inr (Frame messageType runner))))"

text \<open>The socket takes every datagram shorter than \<open>BUFSIZ\<close>.\<close>

definition accepts :: "(datagram \<Rightarrow> bool) \<Rightarrow> bool" where
  "accepts sendto \<longleftrightarrow> (\<forall>addr bs. length bs < BUFSIZ \<longrightarrow> sendto (addr, bs))"

section \<open>What the intake needs of a message codec\<close>

locale message_codec =
  fixes encode :: "AMessage \<Rightarrow> byte list res"
    and decode :: "MESSAGE_TYPE \<Rightarrow> byte list \<Rightarrow> (AMessage \<times> byte list) res"
    and ok :: "AMessage \<Rightarrow> bool"
    and seen :: "AMessage \<Rightarrow> AMessage"
  assumes encode_total: "ok m \<Longrightarrow> \<exists>bs. encode m = Inr bs"
    and encode_header: "ok m \<Longrightarrow> encode m = Inr bs \<Longrightarrow>
      length bs < 2 ^ 32 \<and> (\<exists>body. bs = le_bytes 4 (length bs) @
        le_bytes 4 (unat (type_code (GetMessageType m))) @ body)"
    and decode_encode: "ok m \<Longrightarrow> encode m = Inr bs \<Longrightarrow>
      decode (GetMessageType m) (drop 8 bs @ rest) = Inr (seen m, rest)"
begin

lemma header_word:
  assumes "ok m" "encode m = Inr bs"
  obtains w :: uint32_t and body where
    "bs = le_bytes 4 (unat w) @ le_bytes 4 (unat (type_code (GetMessageType m))) @ body"
    "unat w = length bs"
proof -
  from encode_header [OF assms] obtain body where l: "length bs < 2 ^ 32"
    and bs: "bs = le_bytes 4 (length bs) @ le_bytes 4 (unat (type_code (GetMessageType m))) @ body"
    by blast
  from l have "unat (word_of_nat (length bs) :: uint32_t) = length bs"
    by (simp add: unat_of_nat)
  with that [of "word_of_nat (length bs)" body] bs show ?thesis by simp
qed

text \<open>A datagram that fits the receive buffer passes both checks and decodes to the message sent.\<close>

lemma delivered:
  assumes m: "ok m" "encode m = Inr bs" and fits: "length bs < BUFSIZ"
  shows "\<exists>runner rest. read_frame stack (take (BUFSIZ - 1) bs) =
      Inr (Frame (type_code (GetMessageType m)) runner) \<and>
    decode (GetMessageType m) runner = Inr (seen m, rest)"
proof -
  obtain w :: uint32_t and body where
    bs: "bs = le_bytes 4 (unat w) @ le_bytes 4 (unat (type_code (GetMessageType m))) @ body"
    and w: "unat w = length bs"
    using header_word [OF m] .
  let ?rest = "drop (length bs) stack"
  have t: "take (BUFSIZ - 1) bs = bs" using fits by simp
  have n: "length bs = 8 + length body" by (subst bs) simp
  have "fetch_u32 (bs @ ?rest) =
      Inr (w, le_bytes 4 (unat (type_code (GetMessageType m))) @ body @ ?rest)"
    by (subst (1) bs) simp
  with n w have "read_frame stack bs = Inr (Frame (type_code (GetMessageType m)) (body @ ?rest))"
    by (simp add: read_frame_def)
  moreover have "drop 8 bs = body" by (subst bs) simp
  ultimately show ?thesis
    unfolding t using decode_encode [OF m, of ?rest] by metis
qed

text \<open>A datagram that does not fit is cut by the receive and then dropped by the size check.\<close>

lemma oversized_dropped:
  assumes m: "ok m" "encode m = Inr bs" and big: "BUFSIZ \<le> length bs"
  shows "read_frame stack (take (BUFSIZ - 1) bs) = Inr SizeMismatch"
proof -
  obtain w :: uint32_t and body where
    bs: "bs = le_bytes 4 (unat w) @ le_bytes 4 (unat (type_code (GetMessageType m))) @ body"
    and w: "unat w = length bs"
    using header_word [OF m] .
  let ?cut = "take (BUFSIZ - 1) bs"
  have n: "length ?cut = BUFSIZ - 1" using big by simp
  have "?cut = le_bytes 4 (unat w) @
      take (BUFSIZ - 1 - 4) (le_bytes 4 (unat (type_code (GetMessageType m))) @ body)"
    by (subst bs) (simp add: BUFSIZ_def)
  then obtain tl where c: "?cut = le_bytes 4 (unat w) @ tl"
    by blast
  have "fetch_u32 (?cut @ drop (length ?cut) stack) = Inr (w, tl @ drop (length ?cut) stack)"
    by (subst c) simp
  then show ?thesis
    unfolding read_frame_def Let_def n using w big by (simp add: BUFSIZ_def)
qed

end

interpretation wire: message_codec "serialize g past" "FromBuffer heap_max"
    "\<lambda>m. sendable past m \<and> unat (GetSize m) \<le> heap_max" "as_received past"
  for g past heap_max
proof (unfold_locales, goal_cases)
  case (1 m)
  then show ?case by (simp add: serialize_wire)
next
  case (2 m bs)
  then have "bs = wire past m" by (simp add: serialize_wire)
  with 2 show ?case
    using unsigned_less [of "GetSize m"] length_wire [of past m]
    by (auto simp: wire_def wire_header_def)
next
  case (3 m bs rest)
  then have "bs = wire past m" by (simp add: serialize_wire)
  with 3 show ?case by (simp add: drop_wire FromBuffer_wire)
qed

section \<open>Properties\<close>

text \<open>
  C11. Datagram round trip: every message whose data block has its \<open>m_length\<close> bytes and whose datagram
  is shorter than \<open>BUFSIZ\<close> is encoded, passes both header checks of the receiver and is rebuilt there
  with the same class and fields.  Only a \<open>MessageWriteSend\<close> arrives with one byte more than it was
  given, the byte that follows the sender's block in memory.
\<close>

theorem datagram_roundtrip:
  assumes "sendable past m" and "unat (GetSize m) \<le> heap_max" and "unat (GetSize m) < BUFSIZ"
  shows "\<exists>bs runner rest. serialize g past m = Inr bs \<and>
    read_frame stack (take (BUFSIZ - 1) bs) = Inr (Frame (type_code (GetMessageType m)) runner) \<and>
    FromBuffer heap_max (GetMessageType m) runner = Inr (as_received past m, rest)"
proof -
  have e: "serialize g past m = Inr (wire past m)" using assms(1) by (rule serialize_wire)
  have "length (wire past m) < BUFSIZ" using assms by (simp add: length_wire)
  from wire.delivered [OF conjI [OF assms(1,2)] e this, of stack] e show ?thesis by blast
qed

text \<open>
  A datagram of \<open>BUFSIZ\<close> bytes or more is dropped by every receiver: the receive cuts it and the
  size check then refuses it, so a request or answer of that size is never acted on.
\<close>

theorem oversized_datagram_dropped:
  assumes "sendable past m" and "BUFSIZ \<le> unat (GetSize m)"
  shows "\<exists>bs. serialize g past m = Inr bs \<and> read_frame stack (take (BUFSIZ - 1) bs) = Inr SizeMismatch"
proof -
  have e: "serialize g past m = Inr (wire past m)" using assms(1) by (rule serialize_wire)
  have "BUFSIZ \<le> length (wire past m)" using assms by (simp add: length_wire)
  from wire.oversized_dropped [OF conjI [OF assms(1) order.refl] e this, of stack] e show ?thesis
    by blast
qed

text \<open>
  \<open>MessageWriteSend::ToBuffer\<close> reads past the block it was given: a write message whose block has
  exactly its \<open>m_length\<close> bytes, as \<open>MinionManager::AddWriteTask\<close> builds it, cannot be encoded within
  that block, and when the byte \<open>p\<close> after the block can be read, \<open>p\<close> is the last byte of the datagram.
\<close>

theorem write_send_reads_past_block:
  assumes "length d = unat l" and "unat l + 33 < 2 ^ 32"
  shows "serialize g [] (MessageWriteSend u off l (Some d)) = Inl (UB OutOfBoundsRead) \<and>
    (\<exists>bs. serialize g (p # ps) (MessageWriteSend u off l (Some d)) = Inr bs \<and> last bs = p)"
proof
  let ?m = "MessageWriteSend u off l (Some d)"
  have n: "unat (GetSize ?m) = unat l + 33" using assms(2) by (simp add: unat_GetSize)
  have fit: "put_bytes (wire_header ?m @ le_bytes 8 (unat off) @ le_bytes 8 (unat l))
      (new_char g (unat (GetSize ?m)), 0) \<noteq> Inl e" for e
    by (simp add: put_bytes_def n)
  have "copy_out [] (Some d) (unat (l + 1)) = Inl (UB OutOfBoundsRead)"
    using assms by (simp add: copy_out_def)
  with fit show "serialize g [] ?m = Inl (UB OutOfBoundsRead)"
    by (cases "put_bytes (wire_header ?m @ le_bytes 8 (unat off) @ le_bytes 8 (unat l))
        (new_char g (unat (GetSize ?m)), 0)")
      (auto simp: serialize_def MessageWriteSend_ToBuffer_def put_header_wire put_u64_def
        put_bytes_chain)
next
  have "sendable (p # ps) (MessageWriteSend u off l (Some d))" using assms by simp
  from serialize_wire [OF this] assms
  show "\<exists>bs. serialize g (p # ps) (MessageWriteSend u off l (Some d)) = Inr bs \<and> last bs = p"
    by (simp add: wire_def)
qed

text \<open>
  The length inside a datagram is not checked: a 25-byte \<open>READ_RECEIVE\<close> datagram that announces
  more data than the receive buffer holds passes both header checks, and \<open>FromBuffer\<close> then reads past
  the end of the stack buffer.
\<close>

theorem announced_length_unchecked:
  fixes u l :: size_t
  assumes "length stack = BUFSIZ" and "BUFSIZ - 25 < unat l" and "unat l \<le> heap_max"
    and "received = le_bytes 4 25 @ le_bytes 4 2 @ le_bytes 8 (unat u) @ [r] @ le_bytes 8 (unat l)"
  shows "\<exists>runner. read_frame stack (take (BUFSIZ - 1) received) =
      Inr (Frame (type_code READ_RECEIVE) runner) \<and>
    FromBuffer heap_max READ_RECEIVE runner = Inl (UB OutOfBoundsRead)"
proof -
  let ?runner = "le_bytes 8 (unat u) @ r # le_bytes 8 (unat l) @ drop 25 stack"
  have n: "length received = 25" using assms(4) by simp
  have h: "fetch_u32 (le_bytes 4 25 @ t) = Inr (25, t)" "fetch_u32 (le_bytes 4 2 @ t) = Inr (2, t)" for t
    using fetch_u32_append [of 25 t] fetch_u32_append [of 2 t] by simp_all
  have "read_frame stack received = Inr (Frame 2 ?runner)"
    unfolding read_frame_def Let_def n by (simp add: assms(4) h)
  moreover have "take (BUFSIZ - 1) received = received" by (simp add: n BUFSIZ_def)
  moreover have "fetch (unat l) (drop 25 stack) = Inl (UB OutOfBoundsRead)"
    using assms(1,2) by (simp add: fetch_def)
  ultimately show ?thesis
    using assms(3) by (intro exI [of _ ?runner]) (simp add: get_defs)
qed

section \<open>Witnesses\<close>

theorem datagram_roundtrip_witness:
  "\<exists>bs runner rest. serialize (\<lambda>_. 0) [7] (MessageWriteSend 5 4096 2 (Some [1, 2])) = Inr bs \<and>
    read_frame [] (take (BUFSIZ - 1) bs) = Inr (Frame 1 runner) \<and>
    FromBuffer 100 WRITE_SEND runner = Inr (MessageWriteSend 5 4096 2 (Some [1, 2, 7]), rest)"
  using datagram_roundtrip [of "[7]" "MessageWriteSend 5 4096 2 (Some [1, 2])" 100 "\<lambda>_. 0" "[]"]
  by (simp add: unat_GetSize BUFSIZ_def)

theorem oversized_datagram_dropped_witness:
  "\<exists>bs. serialize (\<lambda>_. 0) [7] (MessageReadReceive 5 1 8192 (Some (replicate 8192 0))) = Inr bs \<and>
    read_frame [] (take (BUFSIZ - 1) bs) = Inr SizeMismatch"
  using oversized_datagram_dropped [of "[7]" "MessageReadReceive 5 1 8192 (Some (replicate 8192 0))"]
  by (simp add: unat_GetSize BUFSIZ_def)

theorem write_send_reads_past_block_witness:
  "serialize (\<lambda>_. 0) [] (MessageWriteSend 5 0 2 (Some [1, 2])) = Inl (UB OutOfBoundsRead)"
  using write_send_reads_past_block [of "[1, 2]" 2 "\<lambda>_. 0" 5 0] by simp

theorem announced_length_unchecked_witness:
  "\<exists>runner. read_frame (replicate BUFSIZ 0) (take (BUFSIZ - 1)
      (le_bytes 4 25 @ le_bytes 4 2 @ le_bytes 8 5 @ [1] @ le_bytes 8 9000)) =
      Inr (Frame (type_code READ_RECEIVE) runner) \<and>
    FromBuffer 10000 READ_RECEIVE runner = Inl (UB OutOfBoundsRead)"
  using announced_length_unchecked [of "replicate BUFSIZ 0" 9000 10000
    "le_bytes 4 25 @ le_bytes 4 2 @ le_bytes 8 5 @ [1] @ le_bytes 8 9000" 5 1]
  by (simp add: BUFSIZ_def)

end
