(* ===== verification/Task_Args.thy ===== *)
theory Task_Args
  imports Udp_Channel
begin

text \<open>
  The task arguments that an input proxy hands to the framework and a command takes apart
  (\<open>concrete/src/ATaskArgs.cpp\<close>, \<open>MinionArgs.cpp\<close>, \<open>NBDReadArgs.cpp\<close>, \<open>NBDWriteArgs.cpp\<close>), and the log
  entries of \<open>framework/include/logger.hpp\<close>.  \<open>dynamic_cast\<close> to a class is matching on its constructor.
\<close>

section \<open>Model\<close>

record TaskArgs =
  ta_offset :: size_t
  ta_length :: size_t
  ta_buffer :: char_array

definition new_TaskArgs :: "size_t \<Rightarrow> size_t \<Rightarrow> char_array \<Rightarrow> TaskArgs" where
  "new_TaskArgs offset len buffer = \<lparr>ta_offset = offset, ta_length = len, ta_buffer = buffer\<rparr>"

datatype ATaskArgs =
  MinionReadArgs UID TaskArgs
| MinionWriteArgs UID TaskArgs
| NBDReadArgs UID TaskArgs
| NBDWriteArgs UID TaskArgs

text \<open>The constructors of the minion's classes take the identifier from the message.\<close>

definition new_MinionReadArgs :: "size_t \<Rightarrow> TaskArgs \<Rightarrow> ATaskArgs" where
  "new_MinionReadArgs uid args = MinionReadArgs (UID uid) args"

definition new_MinionWriteArgs :: "size_t \<Rightarrow> TaskArgs \<Rightarrow> ATaskArgs" where
  "new_MinionWriteArgs uid args = MinionWriteArgs (UID uid) args"

text \<open>Those of the master's classes draw a new one from the counter.\<close>

definition new_NBDReadArgs :: "TaskArgs \<Rightarrow> size_t \<Rightarrow> ATaskArgs \<times> size_t" where
  "new_NBDReadArgs args s_counter =
     (let (uid, s_counter) = UID_next s_counter in (NBDReadArgs uid args, s_counter))"

definition new_NBDWriteArgs :: "TaskArgs \<Rightarrow> size_t \<Rightarrow> ATaskArgs \<times> size_t" where
  "new_NBDWriteArgs args s_counter =
     (let (uid, s_counter) = UID_next s_counter in (NBDWriteArgs uid args, s_counter))"

primrec args_GetUID :: "ATaskArgs \<Rightarrow> UID" where
  "args_GetUID (MinionReadArgs u a) = u"
| "args_GetUID (MinionWriteArgs u a) = u"
| "args_GetUID (NBDReadArgs u a) = u"
| "args_GetUID (NBDWriteArgs u a) = u"

datatype FDMODE = MODE_WRITE | MODE_READ

primrec mode_code :: "FDMODE \<Rightarrow> int" where
  "mode_code MODE_WRITE = 0"
| "mode_code MODE_READ = 1"

text \<open>The methods of the four classes; an object is given by its \<open>m_args\<close>.\<close>

definition MinionReadArgs_GetKey :: "int" where
  "MinionReadArgs_GetKey = mode_code MODE_READ"

definition MinionReadArgs_GetOffset :: "TaskArgs \<Rightarrow> size_t" where
  "MinionReadArgs_GetOffset args = ta_offset args"

definition MinionReadArgs_GetLength :: "TaskArgs \<Rightarrow> size_t" where
  "MinionReadArgs_GetLength args = ta_length args"

definition MinionWriteArgs_GetKey :: "int" where
  "MinionWriteArgs_GetKey = mode_code MODE_WRITE"

definition MinionWriteArgs_GetOffset :: "TaskArgs \<Rightarrow> size_t" where
  "MinionWriteArgs_GetOffset args = ta_offset args"

definition MinionWriteArgs_GetLength :: "TaskArgs \<Rightarrow> size_t" where
  "MinionWriteArgs_GetLength args = ta_length args"

definition MinionWriteArgs_GetBuffer :: "TaskArgs \<Rightarrow> char_array" where
  "MinionWriteArgs_GetBuffer args = ta_buffer args"

definition NBDReadArgs_GetKey :: "int" where
  "NBDReadArgs_GetKey = mode_code MODE_READ"

definition NBDReadArgs_GetOffset :: "TaskArgs \<Rightarrow> size_t" where
  "NBDReadArgs_GetOffset args = ta_offset args"

definition NBDReadArgs_GetLength :: "TaskArgs \<Rightarrow> size_t" where
  "NBDReadArgs_GetLength args = ta_length args"

definition NBDWriteArgs_GetKey :: "int" where
  "NBDWriteArgs_GetKey = mode_code MODE_WRITE"

definition NBDWriteArgs_GetOffset :: "TaskArgs \<Rightarrow> size_t" where
  "NBDWriteArgs_GetOffset args = ta_offset args"

definition NBDWriteArgs_GetLength :: "TaskArgs \<Rightarrow> size_t" where
  "NBDWriteArgs_GetLength args = ta_length args"

definition NBDWriteArgs_GetBuffer :: "TaskArgs \<Rightarrow> char_array" where
  "NBDWriteArgs_GetBuffer args = ta_buffer args"

lemmas args_methods [simp] = MinionReadArgs_GetKey_def MinionReadArgs_GetOffset_def MinionReadArgs_GetLength_def MinionWriteArgs_GetKey_def
  MinionWriteArgs_GetOffset_def MinionWriteArgs_GetLength_def MinionWriteArgs_GetBuffer_def
  NBDReadArgs_GetKey_def NBDReadArgs_GetOffset_def NBDReadArgs_GetLength_def NBDWriteArgs_GetKey_def
  NBDWriteArgs_GetOffset_def NBDWriteArgs_GetLength_def NBDWriteArgs_GetBuffer_def

text \<open>The virtual call.\<close>

primrec GetKey :: "ATaskArgs \<Rightarrow> int" where
  "GetKey (MinionReadArgs u a) = MinionReadArgs_GetKey"
| "GetKey (MinionWriteArgs u a) = MinionWriteArgs_GetKey"
| "GetKey (NBDReadArgs u a) = NBDReadArgs_GetKey"
| "GetKey (NBDWriteArgs u a) = NBDWriteArgs_GetKey"

datatype Severity = SEV_DEBUG | SEV_WARNING | SEV_ERROR

type_synonym log_entry = "Severity \<times> string"

end
