(* ===== verification/Minion_Proxy.thy ===== *)
theory Minion_Proxy
  imports Cpp_Monad Task_Args
begin

text \<open>
  The master's end of one minion's channel (\<open>concrete/src/MinionProxy.cpp\<close>): requests go out with a
  callback stored under the request's identifier, answers are matched to it.  The type variable
  \<open>'c\<close> is the callback (\<open>std::function\<close>).  \<open>mp_sent\<close> and \<open>mp_log\<close> record what the proxy has sent and
  logged.  The locale \<open>request_link\<close> is the part of \<open>IMinionProxy\<close> that \<open>MinionManager\<close> builds on.
\<close>

section \<open>Model\<close>

record 'c MinionProxy =
  m_socket :: UDPSocket
  m_map :: "UID \<rightharpoonup> 'c"
  mp_sent :: "datagram list"
  mp_log :: "log_entry list"

definition new_MinionProxy :: "UDPSocket res \<Rightarrow> 'c MinionProxy res" where
  "new_MinionProxy socket =
     rbind socket (\<lambda>s. Inr \<lparr>m_socket = s, m_map = Map.empty, mp_sent = [], mp_log = []\<rparr>)"

definition mp_Log :: "string \<Rightarrow> Severity \<Rightarrow> ('c MinionProxy, unit) cpp" where
  "mp_Log text sev = cmodify (\<lambda>p. p\<lparr>mp_log := mp_log p @ [(sev, text)]\<rparr>)"

definition MinionProxy_SendTo :: "(datagram \<Rightarrow> bool) \<Rightarrow> byte list \<Rightarrow> ('c MinionProxy, unit) cpp" where
  "MinionProxy_SendTo sendto buffer =
     cbind (cget m_socket) (\<lambda>sock.
     cbind (clift (SendTo sendto buffer sock)) (\<lambda>dg.
     cmodify (\<lambda>p. p\<lparr>mp_sent := mp_sent p @ [dg]\<rparr>)))"

definition sent_line :: "AMessage \<Rightarrow> string" where
  "sent_line msg = ''Master sent: '' @ to_string (GetUID msg) @ '' '' @ to_string (GetOffset msg) @ '' '' @
     to_string (GetLength msg)"

definition MinionProxy_AddReadTask :: "(datagram \<Rightarrow> bool) \<Rightarrow> (nat \<Rightarrow> byte) \<Rightarrow> UID \<Rightarrow> size_t \<Rightarrow> size_t \<Rightarrow> 'c
    \<Rightarrow> ('c MinionProxy, unit) cpp" where
  "MinionProxy_AddReadTask sendto g uid offset len onDone =
     cbind (clift (serialize g [] (new_MessageReadSend (GetID uid) offset len))) (\<lambda>buffer.
     cbind (cmodify (\<lambda>p. p\<lparr>m_map := map_assign uid onDone (m_map p)\<rparr>)) (\<lambda>_.
     cbind (MinionProxy_SendTo sendto buffer) (\<lambda>_.
     mp_Log (sent_line (new_MessageReadSend (GetID uid) offset len)) SEV_DEBUG)))"

definition MinionProxy_AddWriteTask :: "(datagram \<Rightarrow> bool) \<Rightarrow> (nat \<Rightarrow> byte) \<Rightarrow> byte list \<Rightarrow> UID \<Rightarrow> size_t \<Rightarrow> size_t
    \<Rightarrow> char_array \<Rightarrow> 'c \<Rightarrow> ('c MinionProxy, unit) cpp" where
  "MinionProxy_AddWriteTask sendto g past uid offset len data onDone =
     cbind (clift (serialize g past (new_MessageWriteSend (GetID uid) offset len data))) (\<lambda>buffer.
     cbind (cmodify (\<lambda>p. p\<lparr>m_map := map_assign uid onDone (m_map p)\<rparr>)) (\<lambda>_.
     MinionProxy_SendTo sendto buffer))"

definition GetMinionFD :: "'c MinionProxy \<Rightarrow> int" where
  "GetMinionFD p = udp_fd (m_socket p)"

definition MinionProxy_ReceiveFrom :: "datagram option \<Rightarrow> ('c MinionProxy, byte list) cpp" where
  "MinionProxy_ReceiveFrom recvfrom =
     cbind (cget m_socket) (\<lambda>sock.
     cbind (clift (ReceiveFrom (BUFSIZ - 1) recvfrom sock)) (\<lambda>(received, sock).
     cbind (cmodify (\<lambda>p. p\<lparr>m_socket := sock\<rparr>)) (\<lambda>_. cret received)))"

text \<open>
  \<open>OnMinionFDWakeUp\<close> runs in a state that holds the proxy (\<open>get\<close>, \<open>put\<close>); \<open>call\<close> runs a stored
  callback there.  The entry is erased after the callback.
\<close>

definition OnMinionFDWakeUp :: "('s \<Rightarrow> 'c MinionProxy) \<Rightarrow> ('c MinionProxy \<Rightarrow> 's \<Rightarrow> 's)
    \<Rightarrow> ('c \<Rightarrow> AMessage \<Rightarrow> ('s, unit) cpp) \<Rightarrow> (uint32_t, MESSAGE_TYPE) Factory \<Rightarrow> byte list \<Rightarrow> nat
    \<Rightarrow> datagram option \<Rightarrow> ('s, unit) cpp" where
  "OnMinionFDWakeUp get put call factory stack heap_max recvfrom =
     cbind (zoom get put (MinionProxy_ReceiveFrom recvfrom)) (\<lambda>received.
     cbind (clift (read_frame stack received)) (\<lambda>fr.
     case fr of
       ShortPacket \<Rightarrow> zoom get put (mp_Log ''MinionProxy: short UDP packet'' SEV_WARNING)
     | SizeMismatch \<Rightarrow> zoom get put (mp_Log ''MinionProxy: UDP packet size mismatch'' SEV_WARNING)
     | Frame messageType runner \<Rightarrow>
         cbind (clift (Factory_Create factory messageType)) (\<lambda>cls.
         cbind (clift (FromBuffer heap_max cls runner)) (\<lambda>(receivedMessage, rest).
         cbind (cget (\<lambda>s. m_map (get s) (UID (GetUID receivedMessage)))) (\<lambda>it.
         case it of
           None \<Rightarrow> zoom get put (mp_Log ''MinionProxy: unknown UID response'' SEV_WARNING)
         | Some onDone \<Rightarrow>
             cbind (call onDone receivedMessage) (\<lambda>_.
             zoom get put (cmodify (\<lambda>p.
               p\<lparr>m_map := map_erase (UID (GetUID receivedMessage)) (m_map p)\<rparr>))))))))"

section \<open>The contract of a request link\<close>

text \<open>
  Submitting a request registers its callback whether or not the send succeeds, and sends one datagram
  if it does.
\<close>

locale request_link =
  fixes submit :: "UID \<Rightarrow> 'q \<Rightarrow> 'c \<Rightarrow> ('p, unit) cpp"
    and pending :: "'p \<Rightarrow> (UID \<rightharpoonup> 'c)"
    and sent :: "'p \<Rightarrow> datagram list"
  assumes submit_pending: "submit uid q c p = Inr (r, p') \<Longrightarrow> pending p' = (pending p)(uid \<mapsto> c)"
    and submit_sent: "submit uid q c p = Inr (r, p') \<Longrightarrow>
      (case r of Inr _ \<Rightarrow> \<exists>dg. sent p' = sent p @ [dg] | Inl _ \<Rightarrow> sent p' = sent p)"
begin

text \<open>
  Two requests under one identifier: both are sent, only the second callback is left.
\<close>

lemma submit_twice:
  assumes "submit uid q c p = Inr (Inr (), p1)" and "submit uid q' c' p1 = Inr (Inr (), p2)"
  shows "pending p2 = (pending p)(uid \<mapsto> c') \<and> length (sent p2) = length (sent p) + 2"
  using submit_pending [OF assms(1)] submit_pending [OF assms(2)] submit_sent [OF assms(1)]
    submit_sent [OF assms(2)]
  by auto

text \<open>Requests under different identifiers do not disturb each other.\<close>

lemma submit_other:
  assumes "submit uid q c p = Inr (r, p')" and "uid' \<noteq> uid"
  shows "pending p' uid' = pending p uid'"
  using submit_pending [OF assms(1)] assms(2) by simp

end

lemma SendTo_cases: "SendTo sendto bs sock = (if sendto (m_serveraddr sock, bs)
    then Inr (m_serveraddr sock, bs) else Inl (Throw (runtime_error (''failed to sendto'' @ newline))))"
  by (simp add: SendTo_def Let_def)

interpretation read_link: request_link
  "\<lambda>uid (offset, len). MinionProxy_AddReadTask sendto g uid offset len" m_map mp_sent for sendto g
  by unfold_locales
    (auto simp: MinionProxy_AddReadTask_def MinionProxy_SendTo_def mp_Log_def cbind_eq_Inr cpp_simps clift_def
      SendTo_cases serialize_no_throw map_assign_def split: sum.splits error.splits if_splits)

interpretation write_link: request_link
  "\<lambda>uid (offset, len, data). MinionProxy_AddWriteTask sendto g past uid offset len data" m_map mp_sent
  for sendto g past
  by unfold_locales
    (auto simp: MinionProxy_AddWriteTask_def MinionProxy_SendTo_def cbind_eq_Inr cpp_simps clift_def
      SendTo_cases serialize_no_throw map_assign_def split: sum.splits error.splits if_splits)

section \<open>Lemmas\<close>

lemma AddReadTask_run:
  assumes "sendto (m_serveraddr (m_socket p), wire [] (MessageReadSend (GetID uid) off len))"
  shows "MinionProxy_AddReadTask sendto g uid off len c p =
    Inr (Inr (), p\<lparr>m_map := (m_map p)(uid \<mapsto> c), mp_sent := mp_sent p @
      [(m_serveraddr (m_socket p), wire [] (MessageReadSend (GetID uid) off len))],
      mp_log := mp_log p @ [(SEV_DEBUG, sent_line (MessageReadSend (GetID uid) off len))]\<rparr>)"
  using assms
  by (simp add: MinionProxy_AddReadTask_def MinionProxy_SendTo_def mp_Log_def cpp_simps serialize_wire SendTo_cases
      map_assign_def)

lemma AddWriteTask_run:
  assumes "sendable past (MessageWriteSend (GetID uid) off len data)"
    and "sendto (m_serveraddr (m_socket p), wire past (MessageWriteSend (GetID uid) off len data))"
  shows "MinionProxy_AddWriteTask sendto g past uid off len data c p =
    Inr (Inr (), p\<lparr>m_map := (m_map p)(uid \<mapsto> c), mp_sent := mp_sent p @
      [(m_serveraddr (m_socket p), wire past (MessageWriteSend (GetID uid) off len data))]\<rparr>)"
  using assms serialize_wire [OF assms(1), of g]
  by (simp add: MinionProxy_AddWriteTask_def MinionProxy_SendTo_def cpp_simps SendTo_cases
      map_assign_def)

text \<open>An answer datagram: the intake up to the look-up of the callback.\<close>

definition retarget :: "sockaddr \<Rightarrow> 'c MinionProxy \<Rightarrow> 'c MinionProxy" where
  "retarget addr p = p\<lparr>m_socket := (m_socket p)\<lparr>m_serveraddr := addr\<rparr>\<rparr>"

lemma retarget_simps [simp]:
  "m_map (retarget addr p) = m_map p" "mp_sent (retarget addr p) = mp_sent p"
  "mp_log (retarget addr p) = mp_log p" "udp_fd (m_socket (retarget addr p)) = udp_fd (m_socket p)"
  "m_serveraddr (m_socket (retarget addr p)) = addr"
  "m_serveraddr (m_socket p) = addr \<Longrightarrow> retarget addr p = p"
  by (simp_all add: retarget_def)

lemma wakeup_answer:
  fixes get :: "'s \<Rightarrow> 'c MinionProxy"
  assumes msg: "sendable [] msg" "unat (GetSize msg) \<le> heap_max" "unat (GetSize msg) < BUFSIZ"
    and f: "factory (type_code (GetMessageType msg)) = Some (GetMessageType msg)"
    and put: "get (put (retarget addr (get s)) s) = retarget addr (get s)"
    and past: "as_received [] msg = msg"
  shows "OnMinionFDWakeUp get put call factory stack heap_max (Some (addr, wire [] msg)) s =
    (case m_map (get s) (UID (GetUID msg)) of
       None \<Rightarrow> zoom get put (mp_Log ''MinionProxy: unknown UID response'' SEV_WARNING)
         (put (retarget addr (get s)) s)
     | Some onDone \<Rightarrow> cbind (call onDone msg) (\<lambda>_. zoom get put
         (cmodify (\<lambda>p. p\<lparr>m_map := map_erase (UID (GetUID msg)) (m_map p)\<rparr>)))
         (put (retarget addr (get s)) s))"
proof -
  have e: "serialize (\<lambda>_. 0) [] msg = Inr (wire [] msg)" using msg(1) by (rule serialize_wire)
  have "length (wire [] msg) < BUFSIZ" using msg by (simp add: length_wire)
  from wire.delivered [OF conjI [OF msg(1,2)] e this, of stack] past
  obtain runner rest where
    r: "read_frame stack (take (BUFSIZ - 1) (wire [] msg)) =
       Inr (Frame (type_code (GetMessageType msg)) runner)"
    "FromBuffer heap_max (GetMessageType msg) runner = Inr (msg, rest)"
    by auto
  have "zoom get put (MinionProxy_ReceiveFrom (Some (addr, wire [] msg))) s =
      Inr (Inr (take (BUFSIZ - 1) (wire [] msg)), put (retarget addr (get s)) s)"
    by (simp add: zoom_run MinionProxy_ReceiveFrom_def cpp_simps ReceiveFrom_def retarget_def)
  then show ?thesis
    using r f put
    by (simp add: OnMinionFDWakeUp_def cbind_run cpp_simps Factory_Create_def split: option.split)
qed

end
