(* ===== verification/Tcp_Client.thy ===== *)
theory Tcp_Client
  imports Cpp_Monad Udp_Channel
begin

text \<open>
  \<open>concrete/src/TcpClientSocket.cpp\<close>: the stream socket to the NBD client.  What the kernel does is the
  socket's script: \<open>tcp_in\<close> lists what the coming \<open>recv\<close> calls find, \<open>tcp_sends\<close> how much the coming
  \<open>send\<close> calls take.  A stream that is used up is closed by the peer; a \<open>send\<close> after the end of its script
  takes everything.  \<open>tcp_out\<close> is what the peer gets.
\<close>

section \<open>Model\<close>

text \<open>Some bytes (none: the peer has closed the stream), a signal, another error.\<close>

datatype recv_event = Bytes "byte list" | Interrupted | RecvError

record TCPClient =
  tcp_in :: "recv_event list"
  tcp_sends :: "int list"
  tcp_out :: "byte list"

definition disconnected :: exn where
  "disconnected = runtime_error (''disconnected while receiving'' @ newline)"

definition receive_failed :: exn where
  "receive_failed = runtime_error (''failed to receive'' @ newline)"

definition send_failed :: exn where
  "send_failed = runtime_error (''failed to send'' @ newline)"

text \<open>
  \<open>TCPClient(other_port, other_ip)\<close>: the outcomes of \<open>getaddrinfo\<close>, of \<open>socket\<close> (-1 on failure) and of \<open>connect\<close> are given.
  The result is the descriptor the object owns or the exception; the second component has the calls of \<open>close\<close>, the
  third says whether the address list was freed.
\<close>

definition new_TCPClient :: "bool \<Rightarrow> int \<Rightarrow> bool \<Rightarrow> (exn + int) \<times> int list \<times> bool" where
  "new_TCPClient getaddrinfo_ok fd connect_ok =
     (if \<not> getaddrinfo_ok then (Inl (runtime_error (''failed to getaddrinfo'' @ newline)), [], False)
      else if fd = -1 then (Inl (runtime_error (''failed to socket'' @ newline)), [], False)
      else if \<not> connect_ok then (Inl (runtime_error (''failed to connect'' @ newline)), [fd], False)
      else (Inr fd, [], True))"

text \<open>The two loops: the result and what is left of the script; for \<open>Send\<close> also what was sent.\<close>

fun Receive_loop :: "nat \<Rightarrow> recv_event list \<Rightarrow> (exn + byte list) \<times> recv_event list" where
  "Receive_loop 0 evs = (Inr [], evs)"
| "Receive_loop sz [] = (Inl disconnected, [])"
| "Receive_loop sz (Interrupted # evs) = Receive_loop sz evs"
| "Receive_loop sz (RecvError # evs) = (Inl receive_failed, evs)"
| "Receive_loop sz (Bytes bs # evs) =
     (if bs = [] then (Inl disconnected, evs)
      else if length bs > sz then (Inr (take sz bs), Bytes (drop sz bs) # evs)
      else case Receive_loop (sz - length bs) evs of
             (Inr rest, evs') \<Rightarrow> (Inr (bs @ rest), evs')
           | (Inl e, evs') \<Rightarrow> (Inl e, evs'))"

fun Send_loop :: "byte list \<Rightarrow> int list \<Rightarrow> (exn + unit) \<times> byte list \<times> int list" where
  "Send_loop [] ns = (Inr (), [], ns)"
| "Send_loop bs [] = (Inr (), bs, [])"
| "Send_loop bs (n # ns) =
     (if n \<le> 0 then (Inl send_failed, [], ns)
      else case Send_loop (drop (nat n) bs) ns of
             (r, sent, ns') \<Rightarrow> (r, take (nat n) bs @ sent, ns'))"

definition TCPClient_Receive :: "nat \<Rightarrow> (TCPClient, byte list) cpp" where
  "TCPClient_Receive sz = (\<lambda>c. case Receive_loop sz (tcp_in c) of
     (r, evs) \<Rightarrow> Inr (r, c\<lparr>tcp_in := evs\<rparr>))"

text \<open>\<open>Send(buffer, size)\<close> with a pointer to at least \<open>size\<close> bytes.\<close>

definition TCPClient_Send :: "byte list \<Rightarrow> nat \<Rightarrow> (TCPClient, unit) cpp" where
  "TCPClient_Send buffer sz = (\<lambda>c.
     if sz > length buffer then Inl OutOfBoundsRead
     else case Send_loop (take sz buffer) (tcp_sends c) of
            (r, sent, ns) \<Rightarrow> Inr (r, c\<lparr>tcp_out := tcp_out c @ sent, tcp_sends := ns\<rparr>))"

section \<open>Lemmas\<close>

text \<open>
  A constructor that fails keeps no descriptor: one that was opened has been closed.  The address list is freed by
  the constructor that succeeds only.
\<close>

lemma new_TCPClient_descriptors:
  assumes "new_TCPClient ok fd connected = (r, closed, freed)"
  shows "(case r of Inr fd' \<Rightarrow> fd' = fd \<and> fd \<noteq> -1 \<and> closed = [] | Inl _ \<Rightarrow> ok \<and> fd \<noteq> -1 \<longrightarrow> closed = [fd])"
    and "freed \<longleftrightarrow> (\<exists>fd'. r = Inr fd')"
  using assms by (auto simp: new_TCPClient_def split: if_splits)

text \<open>The bytes a script will give, up to the first end or error.\<close>

fun stream_of :: "recv_event list \<Rightarrow> byte list" where
  "stream_of [] = []"
| "stream_of (Interrupted # evs) = stream_of evs"
| "stream_of (RecvError # evs) = []"
| "stream_of (Bytes bs # evs) = (if bs = [] then [] else bs @ stream_of evs)"

lemma Receive_loop_stream:
  "if sz \<le> length (stream_of evs)
   then \<exists>evs'. Receive_loop sz evs = (Inr (take sz (stream_of evs)), evs') \<and>
     stream_of evs' = drop sz (stream_of evs)
   else \<exists>e evs'. Receive_loop sz evs = (Inl e, evs')"
proof (induction sz evs rule: Receive_loop.induct)
  case (5 n bs evs)
  show ?case
  proof (cases "bs = [] \<or> length bs > Suc n")
    case True
    then show ?thesis by (auto simp: drop_Cons' split: nat.split)
  next
    case False
    with 5 have "if Suc n - length bs \<le> length (stream_of evs)
      then \<exists>evs'. Receive_loop (Suc n - length bs) evs =
          (Inr (take (Suc n - length bs) (stream_of evs)), evs') \<and>
        stream_of evs' = drop (Suc n - length bs) (stream_of evs)
      else \<exists>e evs'. Receive_loop (Suc n - length bs) evs = (Inl e, evs')" by simp
    with False show ?thesis by (auto split: if_splits)
  qed
qed auto

lemma Send_loop_all:
  "\<forall>n \<in> set ns. 0 < n \<Longrightarrow> \<exists>ns'. Send_loop bs ns = (Inr (), bs, ns') \<and> set ns' \<subseteq> set ns"
proof (induction bs ns rule: Send_loop.induct)
  case (3 b bs n ns)
  then obtain ns' where "Send_loop (drop (nat n) (b # bs)) ns = (Inr (), drop (nat n) (b # bs), ns')"
    "set ns' \<subseteq> set ns" by auto
  with 3 show ?case
    by (auto simp del: drop_Cons' take_Cons')
qed auto

text \<open>Whatever \<open>send\<close> takes, the peer gets a prefix of the buffer.\<close>

lemma Send_loop_prefix: "\<exists>r sent ns' rest. Send_loop bs ns = (r, sent, ns') \<and> bs = sent @ rest \<and>
    (r = Inr () \<longrightarrow> rest = [])"
proof (induction bs ns rule: Send_loop.induct)
  case (3 b bs n ns)
  show ?case
  proof (cases "n \<le> 0")
    case False
    with 3 obtain r sent ns' rest where
      i: "Send_loop (drop (nat n) (b # bs)) ns = (r, sent, ns')"
        "drop (nat n) (b # bs) = sent @ rest" "r = Inr () \<longrightarrow> rest = []" by blast
    then have "b # bs = (take (nat n) (b # bs) @ sent) @ rest"
      by (metis append.assoc append_take_drop_id)
    with i False show ?thesis by auto
  qed simp
qed auto

section \<open>Properties\<close>

text \<open>
  However the kernel fragments the stream and interrupts the calls, \<open>Receive\<close> of \<open>n\<close> bytes returns
  exactly the next \<open>n\<close> bytes and leaves the rest of the stream, and throws when the stream ends or fails
  before; it always ends.
\<close>

theorem receive_exact:
  "case TCPClient_Receive n c of
     Inr (Inr bs, c') \<Rightarrow> n \<le> length (stream_of (tcp_in c)) \<and> bs = take n (stream_of (tcp_in c)) \<and>
       stream_of (tcp_in c') = drop n (stream_of (tcp_in c)) \<and> tcp_out c' = tcp_out c
   | Inr (Inl e, c') \<Rightarrow> length (stream_of (tcp_in c)) < n \<and> tcp_out c' = tcp_out c
   | Inl u \<Rightarrow> False"
  using Receive_loop_stream [of n "tcp_in c"]
  by (auto simp: TCPClient_Receive_def split: if_splits)

text \<open>
  \<open>Send\<close> gives the peer exactly the first \<open>sz\<close> bytes of the buffer when every \<open>send\<close> makes progress,
  and never anything but a prefix of them: a failed call ends in an exception.
\<close>

theorem send_exact:
  assumes "sz \<le> length buffer"
  shows "((\<forall>n \<in> set (tcp_sends c). 0 < n) \<longrightarrow>
      (\<exists>c'. TCPClient_Send buffer sz c = Inr (Inr (), c') \<and> tcp_out c' = tcp_out c @ take sz buffer)) \<and>
    (\<exists>r c' sent rest. TCPClient_Send buffer sz c = Inr (r, c') \<and> tcp_out c' = tcp_out c @ sent \<and>
      take sz buffer = sent @ rest \<and> (r = Inr () \<longrightarrow> rest = []))"
  using assms Send_loop_all [of "tcp_sends c" "take sz buffer"]
    Send_loop_prefix [of "take sz buffer" "tcp_sends c"]
  by (auto simp: TCPClient_Send_def)

section \<open>Witnesses\<close>

theorem send_exact_witness:
  "\<exists>c'. TCPClient_Send [1, 2, 3, 4] 3 \<lparr>tcp_in = [], tcp_sends = [1, 1], tcp_out = [9]\<rparr> = Inr (Inr (), c') \<and>
     tcp_out c' = [9, 1, 2, 3]"
  using send_exact [of 3 "[1, 2, 3, 4]" "\<lparr>tcp_in = [], tcp_sends = [1, 1], tcp_out = [9]\<rparr>"] by auto

end
