(* ===== verification/Stripe_Splitter.thy ===== *)
theory Stripe_Splitter
  imports Iot_Prelude
begin

text \<open>
  The striping arithmetic of \<open>concrete/src/StripeSplitter.cpp\<close>: a request on the linear drive is cut
  at chunk boundaries into segments, each with its place in its minion's chunk, its place in the
  request's buffer and the indices of the primary and the backup minion.  All arithmetic is that of
  64-bit \<open>size_t\<close>; a division by zero is a fault.

  The abstract contract is the byte-level placement \<open>stripe_loc\<close>: byte \<open>a\<close> of the drive lives at
  position \<open>a mod chunk\<close> of minion \<open>a div chunk\<close>.
\<close>

section \<open>Model\<close>

record StripeSegment =
  localOffset :: size_t
  segLength :: size_t
  bufferOffset :: size_t
  primaryMinionIndex :: size_t
  backupMinionIndex :: size_t

definition GetPrimaryIndex :: "size_t \<Rightarrow> size_t \<Rightarrow> size_t res" where
  "GetPrimaryIndex offset chunkSize =
     rbind (guard (chunkSize \<noteq> 0) (UB DivisionByZero)) (\<lambda>_. Inr (offset div chunkSize))"

definition GetBackupIndex :: "size_t \<Rightarrow> size_t \<Rightarrow> size_t res" where
  "GetBackupIndex primaryIndex numMinions =
     rbind (guard (numMinions \<noteq> 0) (UB DivisionByZero))
       (\<lambda>_. Inr ((primaryIndex + 1) mod numMinions))"

text \<open>The \<open>while(remaining > 0)\<close> loop, one call per iteration.\<close>

function Split_loop :: "size_t \<Rightarrow> size_t \<Rightarrow> size_t \<Rightarrow> size_t \<Rightarrow> size_t \<Rightarrow> StripeSegment list
    \<Rightarrow> StripeSegment list res" where
  "Split_loop chunkSize numMinions remaining currentOffset bufOffset segments =
     (if remaining > 0 then
        rbind (GetPrimaryIndex currentOffset chunkSize) (\<lambda>primaryIndex.
          let lo = currentOffset mod chunkSize;
              spaceInChunk = chunkSize - lo;
              segLen = min remaining spaceInChunk
          in rbind (GetBackupIndex primaryIndex numMinions) (\<lambda>backupIndex.
               Split_loop chunkSize numMinions (remaining - segLen) (currentOffset + segLen)
                 (bufOffset + segLen)
                 (segments @ [\<lparr>localOffset = lo, segLength = segLen, bufferOffset = bufOffset,
                    primaryMinionIndex = primaryIndex, backupMinionIndex = backupIndex\<rparr>])))
      else Inr segments)"
  by pat_completeness auto

definition seg_step :: "size_t \<Rightarrow> size_t \<Rightarrow> size_t \<Rightarrow> size_t" where
  "seg_step chunkSize remaining currentOffset =
     min remaining (chunkSize - currentOffset mod chunkSize)"

lemma seg_step_unat:
  assumes "chunkSize \<noteq> 0"
  shows "unat (seg_step chunkSize r off) = min (unat r) (unat chunkSize - unat off mod unat chunkSize)"
proof -
  from assms have c: "0 < unat chunkSize" by (simp add: unat_gt_0)
  then have "unat off mod unat chunkSize \<le> unat chunkSize"
    by (simp add: less_imp_le)
  then have "off mod chunkSize \<le> chunkSize"
    by (simp add: word_le_nat_alt unat_mod_distrib)
  then have "unat (chunkSize - off mod chunkSize) = unat chunkSize - unat off mod unat chunkSize"
    by (simp add: unat_sub unat_mod_distrib)
  then show ?thesis
    by (simp add: seg_step_def min_def word_le_nat_alt)
qed

lemma seg_step_progress:
  assumes "chunkSize \<noteq> 0" and "r > 0"
  shows "0 < unat (seg_step chunkSize r off)" "unat (r - seg_step chunkSize r off) < unat r"
    "unat (r - seg_step chunkSize r off) = unat r - unat (seg_step chunkSize r off)"
proof -
  from assms(1) have c: "0 < unat chunkSize" by (simp add: unat_gt_0)
  from assms(2) have r: "0 < unat r" by (simp add: word_less_nat_alt)
  from c r show p: "0 < unat (seg_step chunkSize r off)"
    by (simp add: seg_step_unat [OF assms(1)])
  have "seg_step chunkSize r off \<le> r" by (simp add: seg_step_def)
  then show q: "unat (r - seg_step chunkSize r off) = unat r - unat (seg_step chunkSize r off)"
    by (rule unat_sub)
  from p q r show "unat (r - seg_step chunkSize r off) < unat r" by simp
qed

termination Split_loop
proof (relation "measure (\<lambda>(c, n, r, off, b, acc). unat r)")
  fix chunkSize numMinions remaining currentOffset bufOffset :: size_t
    and segments :: "StripeSegment list" and p lo space segLen bi
  assume r: "0 < remaining" and p: "GetPrimaryIndex currentOffset chunkSize = Inr p"
    and "lo = currentOffset mod chunkSize" "space = chunkSize - lo"
    and sl: "segLen = min remaining space"
  then have "segLen = seg_step chunkSize remaining currentOffset"
    by (simp add: seg_step_def)
  moreover from p have "chunkSize \<noteq> 0"
    by (auto simp: GetPrimaryIndex_def guard_def)
  ultimately show "((chunkSize, numMinions, remaining - segLen, currentOffset + segLen,
      bufOffset + segLen, segments @ [\<lparr>localOffset = lo, segLength = segLen,
        bufferOffset = bufOffset, primaryMinionIndex = p, backupMinionIndex = bi\<rparr>]),
      chunkSize, numMinions, remaining, currentOffset, bufOffset, segments)
    \<in> measure (\<lambda>(c, n, r, off, b, acc). unat r)"
    using seg_step_progress(2) r by simp
qed simp

definition Split :: "size_t \<Rightarrow> size_t \<Rightarrow> size_t \<Rightarrow> size_t \<Rightarrow> StripeSegment list res" where
  "Split offset len chunkSize numMinions = Split_loop chunkSize numMinions len offset 0 []"

declare Split_loop.simps [simp del]


section \<open>The contract of a splitter\<close>

text \<open>The byte-level placement a splitter implements.\<close>

definition stripe_loc :: "nat \<Rightarrow> nat \<Rightarrow> nat \<times> nat" where
  "stripe_loc c a = (a div c, a mod c)"

text \<open>The minion positions and the buffer positions that a segment covers, in order.\<close>

definition seg_locs :: "StripeSegment \<Rightarrow> (nat \<times> nat) list" where
  "seg_locs s = map (\<lambda>k. (unat (primaryMinionIndex s), unat (localOffset s) + k))
     [0..<unat (segLength s)]"

definition seg_slots :: "StripeSegment \<Rightarrow> nat list" where
  "seg_slots s = [unat (bufferOffset s)..<unat (bufferOffset s) + unat (segLength s)]"

text \<open>
  \<open>segs_chain c n off b r ss\<close>: the segments \<open>ss\<close> walk the \<open>r\<close> bytes from drive offset \<open>off\<close> and
  buffer position \<open>b\<close>, each reaching to the end of its chunk or of the request.
\<close>

fun segs_chain :: "nat \<Rightarrow> nat \<Rightarrow> nat \<Rightarrow> nat \<Rightarrow> nat \<Rightarrow> StripeSegment list \<Rightarrow> bool" where
  "segs_chain c n off b r [] = (r = 0)"
| "segs_chain c n off b r (s # ss) =
     (0 < r \<and> unat (localOffset s) = off mod c \<and> unat (segLength s) = min r (c - off mod c) \<and>
      unat (bufferOffset s) = b \<and> unat (primaryMinionIndex s) = off div c \<and>
      unat (backupMinionIndex s) = (off div c + 1) mod n \<and>
      segs_chain c n (off + min r (c - off mod c)) (b + min r (c - off mod c))
        (r - min r (c - off mod c)) ss)"

lemma chunk_span:
  assumes "0 < (c::nat)" and "l \<le> c - off mod c"
  shows "map (\<lambda>k. (off div c, off mod c + k)) [0..<l] = map (stripe_loc c) [off..<off + l]"
proof (rule nth_equalityI)
  show "length (map (\<lambda>k. (off div c, off mod c + k)) [0..<l])
      = length (map (stripe_loc c) [off..<off + l])" by simp
next
  fix i assume "i < length (map (\<lambda>k. (off div c, off mod c + k)) [0..<l])"
  then have i: "i < l" by simp
  with assms have m: "off mod c + i < c" by simp
  with i show "map (\<lambda>k. (off div c, off mod c + k)) [0..<l] ! i
      = map (stripe_loc c) [off..<off + l] ! i"
    by (simp add: stripe_loc_def div_mod_shift [OF m])
qed

lemma segs_chain_locs:
  "0 < c \<Longrightarrow> segs_chain c n off b r ss \<Longrightarrow>
     concat (map seg_locs ss) = map (stripe_loc c) [off..<off + r]"
proof (induction ss arbitrary: off b r)
  case Nil
  then show ?case by simp
next
  case (Cons s ss)
  let ?l = "min r (c - off mod c)"
  from Cons.prems have ch: "segs_chain c n (off + ?l) (b + ?l) (r - ?l) ss" by simp
  have "[off..<off + r] = [off..<off + ?l] @ [off + ?l..<off + r]"
    by (rule upt_split) auto
  moreover have "seg_locs s = map (stripe_loc c) [off..<off + ?l]"
    using Cons.prems chunk_span [of c ?l off] by (simp add: seg_locs_def)
  moreover have "concat (map seg_locs ss) = map (stripe_loc c) [off + ?l..<off + r]"
    using Cons.IH [OF Cons.prems(1) ch] by (simp add: min_def)
  ultimately show ?case by simp
qed

lemma segs_chain_slots:
  "segs_chain c n off b r ss \<Longrightarrow> concat (map seg_slots ss) = [b..<b + r]"
proof (induction ss arbitrary: off b r)
  case Nil
  then show ?case by simp
next
  case (Cons s ss)
  let ?l = "min r (c - off mod c)"
  from Cons.prems have ch: "segs_chain c n (off + ?l) (b + ?l) (r - ?l) ss" by simp
  have "[b..<b + r] = [b..<b + ?l] @ [b + ?l..<b + r]"
    by (rule upt_split) auto
  then show ?case
    using Cons.prems Cons.IH [OF ch] by (simp add: seg_slots_def min_def)
qed

lemma segs_chain_bounds:
  assumes "0 < c" and "0 < n" and "segs_chain c n off b r ss" and "off + r \<le> c * n"
    and "s \<in> set ss"
  shows "0 < unat (segLength s) \<and> unat (localOffset s) + unat (segLength s) \<le> c \<and>
    unat (bufferOffset s) + unat (segLength s) \<le> b + r \<and>
    unat (primaryMinionIndex s) < n \<and>
    unat (backupMinionIndex s) = (unat (primaryMinionIndex s) + 1) mod n"
  using assms(3-5)
proof (induction ss arbitrary: off b r)
  case Nil
  then show ?case by simp
next
  case (Cons a ss)
  let ?l = "min r (c - off mod c)"
  from Cons.prems(1) have ch: "segs_chain c n (off + ?l) (b + ?l) (r - ?l) ss" by simp
  show ?case
  proof (cases "s = a")
    case True
    have "off div c < n"
      using Cons.prems(1,2) assms(1) by (simp add: less_mult_imp_div_less mult.commute)
    with True Cons.prems(1) assms(1) show ?thesis by (auto simp: min_def)
  next
    case False
    with Cons.prems(3) have s: "s \<in> set ss" by simp
    have "off + ?l + (r - ?l) \<le> c * n" using Cons.prems(2) by simp
    from Cons.IH [OF ch this s] show ?thesis by auto
  qed
qed

lemma segs_chain_buffer:
  assumes "0 < c" and "segs_chain c n off b r ss" and "s \<in> set ss"
  shows "0 < unat (segLength s) \<and> unat (bufferOffset s) + unat (segLength s) \<le> b + r"
  using assms(2,3)
proof (induction ss arbitrary: off b r)
  case (Cons a ss)
  let ?l = "min r (c - off mod c)"
  from Cons.prems(1) have ch: "segs_chain c n (off + ?l) (b + ?l) (r - ?l) ss" by simp
  show ?case
  proof (cases "s = a")
    case True
    with Cons.prems(1) assms(1) show ?thesis by (auto simp: min_def)
  next
    case False
    with Cons.prems(2) Cons.IH [OF ch] show ?thesis by auto
  qed
qed simp

lemma segs_chain_single:
  assumes "0 < r" and "off mod c + r \<le> c" and "segs_chain c n off b r ss"
  shows "\<exists>s. ss = [s]"
proof (cases ss)
  case Nil
  with assms show ?thesis by simp
next
  case (Cons s ts)
  have "min r (c - off mod c) = r" using assms(2) by simp
  with Cons assms(3) have "segs_chain c n (off + r) (b + r) 0 ts" by simp
  then have "ts = []" by (cases ts) auto
  with Cons show ?thesis by simp
qed

text \<open>
  What the manager relies on: a splitter answers every in-range request with a chain of segments.
\<close>

locale stripe_map =
  fixes split :: "size_t \<Rightarrow> size_t \<Rightarrow> size_t \<Rightarrow> size_t \<Rightarrow> StripeSegment list res"
  assumes split_chain: "c \<noteq> 0 \<Longrightarrow> n \<noteq> 0 \<Longrightarrow> unat off + unat len < 2 ^ 64 \<Longrightarrow>
    \<exists>ss. split off len c n = Inr ss \<and> segs_chain (unat c) (unat n) (unat off) 0 (unat len) ss"
begin

lemma chain_of:
  assumes "c \<noteq> 0" "n \<noteq> 0" "unat off + unat len < 2 ^ 64" "split off len c n = Inr ss"
  shows "segs_chain (unat c) (unat n) (unat off) 0 (unat len) ss"
  using split_chain [OF assms(1-3)] assms(4) by auto

lemma placement:
  assumes "c \<noteq> 0" "n \<noteq> 0" "unat off + unat len < 2 ^ 64" "split off len c n = Inr ss"
  shows "concat (map seg_locs ss) = map (stripe_loc (unat c)) [unat off..<unat off + unat len]"
    and "concat (map seg_slots ss) = [0..<unat len]"
  using segs_chain_locs [OF _ chain_of [OF assms]] segs_chain_slots [OF chain_of [OF assms]] assms(1)
  by (simp_all add: unat_gt_0)

lemma buffer_range:
  assumes "c \<noteq> 0" "n \<noteq> 0" "unat off + unat len < 2 ^ 64" "split off len c n = Inr ss" "s \<in> set ss"
  shows "0 < unat (segLength s) \<and> unat (bufferOffset s) + unat (segLength s) \<le> unat len"
  using segs_chain_buffer [OF _ chain_of [OF assms(1-4)] assms(5)] assms(1)
  by (simp add: unat_gt_0)

lemma nonempty:
  assumes "c \<noteq> 0" "n \<noteq> 0" "unat off + unat len < 2 ^ 64" "split off len c n = Inr ss" "len \<noteq> 0"
  shows "ss \<noteq> []"
  using chain_of [OF assms(1-4)] assms(5) by (auto simp: unsigned_eq_0_iff)

lemma bounds:
  assumes "c \<noteq> 0" "n \<noteq> 0" "unat off + unat len < 2 ^ 64" "split off len c n = Inr ss"
    and "unat off + unat len \<le> unat c * unat n" "s \<in> set ss"
  shows "0 < unat (segLength s) \<and> unat (localOffset s) + unat (segLength s) \<le> unat c \<and>
    unat (bufferOffset s) + unat (segLength s) \<le> unat len \<and>
    unat (primaryMinionIndex s) < unat n \<and>
    unat (backupMinionIndex s) = (unat (primaryMinionIndex s) + 1) mod unat n"
  using segs_chain_bounds [OF _ _ chain_of [OF assms(1-4)] assms(5,6)] assms(1,2)
  by (simp add: unat_gt_0)

lemma within_chunk:
  assumes "c \<noteq> 0" "n \<noteq> 0" "unat off + unat len < 2 ^ 64" "len \<noteq> 0"
    and "unat off mod unat c + unat len \<le> unat c"
  obtains s where "split off len c n = Inr [s]" "unat (localOffset s) = unat off mod unat c"
    "segLength s = len" "bufferOffset s = 0" "unat (primaryMinionIndex s) = unat off div unat c"
    "unat (backupMinionIndex s) = (unat off div unat c + 1) mod unat n"
proof -
  from split_chain [OF assms(1-3)] obtain ss where ss: "split off len c n = Inr ss"
    and ch: "segs_chain (unat c) (unat n) (unat off) 0 (unat len) ss" by blast
  from segs_chain_single [OF _ assms(5) ch] assms(4) obtain s where s: "ss = [s]"
    by (auto simp: unat_gt_0)
  have "min (unat len) (unat c - unat off mod unat c) = unat len" using assms(5) by simp
  with ch s have "segLength s = len" "bufferOffset s = 0"
    by (simp_all add: unat_injD)
  with that ss ch s show ?thesis by simp
qed

end

section \<open>\<open>Split\<close> meets the contract\<close>

lemma Split_loop_unfold:
  assumes "chunkSize \<noteq> 0" "numMinions \<noteq> 0" "r > 0"
  shows "Split_loop chunkSize numMinions r off b acc =
    Split_loop chunkSize numMinions (r - seg_step chunkSize r off) (off + seg_step chunkSize r off)
      (b + seg_step chunkSize r off)
      (acc @ [\<lparr>localOffset = off mod chunkSize, segLength = seg_step chunkSize r off,
        bufferOffset = b, primaryMinionIndex = off div chunkSize,
        backupMinionIndex = (off div chunkSize + 1) mod numMinions\<rparr>])"
  using assms
  by (subst Split_loop.simps)
    (simp add: GetPrimaryIndex_def GetBackupIndex_def seg_step_def Let_def)

lemma backup_no_wrap:
  assumes "unat off + unat r < 2 ^ 64" and "0 < unat r"
  shows "unat ((off div c + 1) mod n) = (unat off div unat c + 1) mod unat (n :: size_t)"
proof -
  have "unat (off div c) \<le> unat off" by (simp add: unat_div_distrib)
  with assms have "unat (off div c) + unat (1 :: size_t) < 2 ^ 64" by simp
  from unat_add_64 [OF this] show ?thesis
    by (simp add: unat_mod_distrib unat_div_distrib)
qed

lemma Split_loop_chain:
  assumes "chunkSize \<noteq> 0" "numMinions \<noteq> 0"
    and "unat off + unat r < 2 ^ 64" "unat b + unat r < 2 ^ 64"
  shows "\<exists>ss. Split_loop chunkSize numMinions r off b acc = Inr (acc @ ss) \<and>
    segs_chain (unat chunkSize) (unat numMinions) (unat off) (unat b) (unat r) ss"
  using assms(3,4)
proof (induction "unat r" arbitrary: r off b acc rule: less_induct)
  case less
  show ?case
  proof (cases "r > 0")
    case False
    then have "r = 0" by (simp add: word_gt_0)
    then show ?thesis by (simp add: Split_loop.simps)
  next
    case True
    let ?l = "seg_step chunkSize r off"
    let ?s = "\<lparr>localOffset = off mod chunkSize, segLength = ?l, bufferOffset = b,
      primaryMinionIndex = off div chunkSize,
      backupMinionIndex = (off div chunkSize + 1) mod numMinions\<rparr>"
    note prog = seg_step_progress [OF assms(1) True, of off]
    have r: "0 < unat r" using prog(2) by simp
    have le: "unat ?l \<le> unat r" using seg_step_unat [OF assms(1)] by simp
    have off: "unat (off + ?l) = unat off + unat ?l" and b: "unat (b + ?l) = unat b + unat ?l"
      using less.prems le by (auto intro!: unat_add_64)
    from less.hyps [OF prog(2), of "off + ?l" "b + ?l" "acc @ [?s]"] less.prems le
    obtain ss where ss: "Split_loop chunkSize numMinions (r - ?l) (off + ?l) (b + ?l) (acc @ [?s])
        = Inr ((acc @ [?s]) @ ss)"
      and ch: "segs_chain (unat chunkSize) (unat numMinions) (unat off + unat ?l)
        (unat b + unat ?l) (unat r - unat ?l) ss"
      unfolding off b prog(3) by auto
    have "segs_chain (unat chunkSize) (unat numMinions) (unat off) (unat b) (unat r) (?s # ss)"
      using ch r backup_no_wrap [OF less.prems(1) r]
      by (simp add: seg_step_unat [OF assms(1)] unat_mod_distrib unat_div_distrib)
    with ss show ?thesis
      unfolding Split_loop_unfold [OF assms(1,2) True] by (intro exI [of _ "?s # ss"]) simp
  qed
qed

interpretation stripe: stripe_map Split
proof
  fix c n off len :: size_t
  assume "c \<noteq> 0" "n \<noteq> 0" "unat off + unat len < 2 ^ 64"
  with Split_loop_chain [of c n off len 0 "[]"]
  show "\<exists>ss. Split off len c n = Inr ss \<and>
      segs_chain (unat c) (unat n) (unat off) 0 (unat len) ss"
    by (simp add: Split_def)
qed

lemma Split_loop_returns:
  assumes "chunkSize \<noteq> 0" "numMinions \<noteq> 0"
  shows "\<exists>ss. Split_loop chunkSize numMinions r off b acc = Inr ss"
proof (induction "unat r" arbitrary: r off b acc rule: less_induct)
  case less
  show ?case
  proof (cases "r > 0")
    case True
    then show ?thesis
      unfolding Split_loop_unfold [OF assms True]
      by (intro less.hyps seg_step_progress(2) assms)
  qed (simp add: Split_loop.simps)
qed

section \<open>Properties\<close>

text \<open>
  C4. Striping refines the byte-level placement: for a request that does not run past the 64-bit
  address space, the segments \<open>Split\<close> returns list, in order, exactly the places of the request's
  bytes (byte \<open>a\<close> at position \<open>a mod chunk\<close> of minion \<open>a div chunk\<close>), and their buffer ranges tile
  the request's buffer without gap or overlap.
\<close>

theorem split_refines_placement:
  assumes "chunkSize \<noteq> 0" and "numMinions \<noteq> 0" and "unat offset + unat len < 2 ^ 64"
    and "Split offset len chunkSize numMinions = Inr segs"
  shows "concat (map seg_locs segs) =
      map (stripe_loc (unat chunkSize)) [unat offset..<unat offset + unat len] \<and>
    concat (map seg_slots segs) = [0..<unat len]"
  using stripe.placement [OF assms] by simp


text \<open>
  C22. \<open>Split\<close> always ends, for every 64-bit input: it divides by zero exactly when a non-empty
  request meets a zero chunk size or an empty minion list, and returns its segments otherwise.
\<close>

theorem split_terminates_or_faults:
  "(Split offset len chunkSize numMinions = Inl (UB DivisionByZero) \<longleftrightarrow>
      len \<noteq> 0 \<and> (chunkSize = 0 \<or> numMinions = 0)) \<and>
   ((len = 0 \<or> chunkSize \<noteq> 0 \<and> numMinions \<noteq> 0) \<longleftrightarrow>
      (\<exists>segs. Split offset len chunkSize numMinions = Inr segs))"
proof (cases "len = 0 \<or> chunkSize \<noteq> 0 \<and> numMinions \<noteq> 0")
  case True
  then have "\<exists>segs. Split offset len chunkSize numMinions = Inr segs"
    using Split_loop_returns by (auto simp: Split_def Split_loop.simps [of _ _ 0])
  with True show ?thesis by auto
next
  case False
  then have "len > 0" by (simp add: word_gt_0)
  with False have "Split offset len chunkSize numMinions = Inl (UB DivisionByZero)"
    unfolding Split_def
    by (subst Split_loop.simps) (auto simp: GetPrimaryIndex_def GetBackupIndex_def guard_def
        rbind_def Let_def)
  with False show ?thesis by auto
qed

section \<open>Witnesses\<close>

text \<open>The boundary-crossing request of \<open>test_stripe_splitter.cpp\<close>: 20 bytes, 10 before a boundary.\<close>

lemma split_example:
  "Split 4194294 20 4194304 3 =
     Inr [\<lparr>localOffset = 4194294, segLength = 10, bufferOffset = 0, primaryMinionIndex = 0,
            backupMinionIndex = 1\<rparr>,
          \<lparr>localOffset = 0, segLength = 10, bufferOffset = 10, primaryMinionIndex = 1,
            backupMinionIndex = 2\<rparr>]"
  by (simp add: Split_def Split_loop_unfold Split_loop.simps [of _ _ 0] seg_step_def)

theorem split_refines_placement_witness:
  "concat (map seg_slots [\<lparr>localOffset = 4194294, segLength = 10, bufferOffset = 0,
       primaryMinionIndex = 0, backupMinionIndex = 1\<rparr>,
     \<lparr>localOffset = 0, segLength = 10, bufferOffset = 10, primaryMinionIndex = 1,
       backupMinionIndex = 2\<rparr>]) = [0..<20]"
  using split_refines_placement [OF _ _ _ split_example] by simp


end
