(* ===== verification/Tickets.thy ===== *)
theory Tickets
  imports Messages Stripe_Splitter
begin

text \<open>
  \<open>concrete/src/Ticket.cpp\<close>: the per-request state machine that collects the responses of the two
  mirrors of every segment and notifies one result.  A response carries a \<open>std::shared_ptr<AMessage>\<close>
  (\<open>None\<close> for null).  \<open>t_dispatcher\<close> is the registration list of the ticket's result dispatcher; the
  output of an operation is the list of calls its \<open>Notify\<close> makes.  The parameter \<open>g\<close> gives the
  indeterminate contents of \<open>new char[m_totalLength]\<close>.
\<close>

section \<open>Model\<close>

record TaskResult =
  res_uid :: UID
  res_result :: bool
  res_length :: size_t
  res_buffer :: char_array

datatype TicketOp = OP_READ | OP_WRITE

datatype MirrorRole = PRIMARY | BACKUP

record SegmentState =
  st_length :: size_t
  st_bufferOffset :: size_t
  primaryDone :: bool
  backupDone :: bool
  primaryMsg :: "AMessage option"
  backupMsg :: "AMessage option"

record Ticket =
  t_uid :: UID
  t_op :: TicketOp
  t_totalLength :: size_t
  t_segments :: "SegmentState list"
  t_completed :: bool
  t_dispatcher :: "nat list"

definition new_Ticket :: "UID \<Rightarrow> TicketOp \<Rightarrow> size_t \<Rightarrow> StripeSegment list \<Rightarrow> Ticket" where
  "new_Ticket uid opr totalLength segments =
     \<lparr>t_uid = uid, t_op = opr, t_totalLength = totalLength,
      t_segments = map (\<lambda>seg. \<lparr>st_length = segLength seg, st_bufferOffset = bufferOffset seg,
        primaryDone = False, backupDone = False, primaryMsg = None, backupMsg = None\<rparr>) segments,
      t_completed = False, t_dispatcher = []\<rparr>"

definition RegisterToResultDispatcher :: "nat \<Rightarrow> Ticket \<Rightarrow> Ticket" where
  "RegisterToResultDispatcher callback t = t\<lparr>t_dispatcher := t_dispatcher t @ [callback]\<rparr>"

text \<open>\<open>msg && msg->GetResult()\<close>\<close>

definition msg_ok :: "AMessage option \<Rightarrow> bool" where
  "msg_ok msg = (case msg of None \<Rightarrow> False | Some m \<Rightarrow> GetResult m)"

definition IsSegmentResolved :: "TicketOp \<Rightarrow> SegmentState \<Rightarrow> bool" where
  "IsSegmentResolved opr seg =
     (if opr = OP_WRITE then primaryDone seg \<and> backupDone seg
      else if primaryDone seg \<and> msg_ok (primaryMsg seg) then True
      else backupDone seg)"

definition SelectSegmentMessage :: "SegmentState \<Rightarrow> AMessage option" where
  "SelectSegmentMessage seg =
     (if primaryDone seg \<and> msg_ok (primaryMsg seg) then primaryMsg seg
      else if backupDone seg then backupMsg seg
      else primaryMsg seg)"

definition IsSegmentSuccessful :: "TicketOp \<Rightarrow> SegmentState \<Rightarrow> bool" where
  "IsSegmentSuccessful opr seg =
     (if opr = OP_WRITE then msg_ok (primaryMsg seg) \<and> msg_ok (backupMsg seg)
      else msg_ok (SelectSegmentMessage seg))"

text \<open>The loop that copies the chosen data of every segment into the result buffer.\<close>

fun fill_segments :: "SegmentState list \<Rightarrow> byte list \<Rightarrow> byte list res" where
  "fill_segments [] buffer = Inr buffer"
| "fill_segments (seg # segs) buffer =
     rbind (case SelectSegmentMessage seg of
              None \<Rightarrow> Inr buffer
            | Some msg \<Rightarrow>
                (case GetData msg of
                   None \<Rightarrow> Inr buffer
                 | Some data \<Rightarrow>
                     memcpy buffer (unat (st_bufferOffset seg)) data (unat (st_length seg))))
       (fill_segments segs)"

definition TryComplete :: "(nat \<Rightarrow> byte) \<Rightarrow> Ticket \<Rightarrow> (Ticket \<times> (nat \<times> TaskResult) list) res" where
  "TryComplete g t =
     (if \<not> list_all (IsSegmentResolved (t_op t)) (t_segments t) then Inr (t, [])
      else
        let success = list_all (IsSegmentSuccessful (t_op t)) (t_segments t)
        in rbind
             (if success \<and> t_op t = OP_READ
              then rbind (fill_segments (t_segments t) (new_char g (unat (t_totalLength t))))
                     (\<lambda>b. Inr (Some b))
              else Inr None)
             (\<lambda>buffer.
               let result = \<lparr>res_uid = t_uid t, res_result = success, res_length = t_totalLength t,
                     res_buffer = buffer\<rparr>
               in Inr (t\<lparr>t_completed := True\<rparr>, map (\<lambda>cb. (cb, result)) (t_dispatcher t))))"

definition set_response :: "MirrorRole \<Rightarrow> AMessage option \<Rightarrow> SegmentState \<Rightarrow> SegmentState" where
  "set_response role msg seg =
     (case role of
        PRIMARY \<Rightarrow> seg\<lparr>primaryDone := True, primaryMsg := msg\<rparr>
      | BACKUP \<Rightarrow> seg\<lparr>backupDone := True, backupMsg := msg\<rparr>)"

definition OnMirrorResponse :: "(nat \<Rightarrow> byte) \<Rightarrow> nat \<Rightarrow> MirrorRole \<Rightarrow> AMessage option \<Rightarrow> Ticket
    \<Rightarrow> (Ticket \<times> (nat \<times> TaskResult) list) res" where
  "OnMirrorResponse g segmentIdx role message t =
     (if t_completed t \<or> segmentIdx \<ge> length (t_segments t) then Inr (t, [])
      else TryComplete g (t\<lparr>t_segments :=
             (t_segments t)[segmentIdx := set_response role message (t_segments t ! segmentIdx)]\<rparr>))"

text \<open>The responses that reach a ticket, in the order of arrival.\<close>

type_synonym response = "nat \<times> MirrorRole \<times> AMessage option"

fun run_responses :: "(nat \<Rightarrow> byte) \<Rightarrow> Ticket \<Rightarrow> response list
    \<Rightarrow> (Ticket \<times> (nat \<times> TaskResult) list) res" where
  "run_responses g t [] = Inr (t, [])"
| "run_responses g t ((i, role, msg) # rs) =
     rbind (OnMirrorResponse g i role msg t) (\<lambda>(t, out).
     rbind (run_responses g t rs) (\<lambda>(t, out'). Inr (t, out @ out')))"

section \<open>Lemmas\<close>

lemma TryComplete_cases:
  assumes "TryComplete g t = Inr (t', out)"
  shows "(\<not> list_all (IsSegmentResolved (t_op t)) (t_segments t) \<and> t' = t \<and> out = []) \<or>
    (list_all (IsSegmentResolved (t_op t)) (t_segments t) \<and> t' = t\<lparr>t_completed := True\<rparr> \<and>
     (\<exists>r. out = map (\<lambda>cb. (cb, r)) (t_dispatcher t) \<and> res_uid r = t_uid t \<and>
        res_length r = t_totalLength t \<and>
        res_result r = list_all (IsSegmentSuccessful (t_op t)) (t_segments t) \<and>
        (if res_result r \<and> t_op t = OP_READ
         then \<exists>b. res_buffer r = Some b \<and>
           fill_segments (t_segments t) (new_char g (unat (t_totalLength t))) = Inr b
         else res_buffer r = None)))"
  using assms
  by (auto simp: TryComplete_def Let_def res_simps split: if_splits)

text \<open>The fields that no response changes.\<close>

lemma OnMirrorResponse_frame:
  assumes "OnMirrorResponse g i role msg t = Inr (t', out)"
  shows "t_uid t' = t_uid t \<and> t_op t' = t_op t \<and> t_totalLength t' = t_totalLength t \<and>
    t_dispatcher t' = t_dispatcher t \<and> length (t_segments t') = length (t_segments t)"
  using assms by (auto simp: OnMirrorResponse_def dest!: TryComplete_cases split: if_splits)

lemma OnMirrorResponse_completed:
  "t_completed t \<Longrightarrow> OnMirrorResponse g i role msg t = Inr (t, [])"
  by (simp add: OnMirrorResponse_def)

lemma run_responses_completed: "t_completed t \<Longrightarrow> run_responses g t rs = Inr (t, [])"
  by (induction g t rs rule: run_responses.induct) (simp_all add: OnMirrorResponse_completed)

lemma run_responses_Cons:
  "run_responses g t ((i, role, msg) # rs) = Inr (t', out) \<longleftrightarrow>
     (\<exists>t1 o1 o2. OnMirrorResponse g i role msg t = Inr (t1, o1) \<and>
        run_responses g t1 rs = Inr (t', o2) \<and> out = o1 @ o2)"
  by (auto simp: res_simps)

text \<open>One step either leaves the ticket open and silent, or completes it with one notification.\<close>

lemma OnMirrorResponse_notifies:
  assumes "OnMirrorResponse g i role msg t = Inr (t', out)" and "\<not> t_completed t"
  shows "(\<not> t_completed t' \<and> out = []) \<or>
    (t_completed t' \<and> (\<exists>r. out = map (\<lambda>cb. (cb, r)) (t_dispatcher t) \<and> res_uid r = t_uid t))"
  using assms by (auto simp: OnMirrorResponse_def dest!: TryComplete_cases split: if_splits)

lemma run_responses_notifies:
  assumes "run_responses g t rs = Inr (t', out)" and "\<not> t_completed t"
  shows "(\<not> t_completed t' \<and> out = []) \<or>
    (t_completed t' \<and> (\<exists>r. out = map (\<lambda>cb. (cb, r)) (t_dispatcher t) \<and> res_uid r = t_uid t))"
  using assms
proof (induction rs arbitrary: t out)
  case Nil
  then show ?case by simp
next
  case (Cons x rs)
  obtain i role msg where x: "x = (i, role, msg)" by (cases x)
  from Cons.prems(1) obtain t1 o1 o2 where s: "OnMirrorResponse g i role msg t = Inr (t1, o1)"
    and r: "run_responses g t1 rs = Inr (t', o2)" and out: "out = o1 @ o2"
    unfolding x run_responses_Cons by blast
  note fr = OnMirrorResponse_frame [OF s]
  show ?case
  proof (cases "t_completed t1")
    case True
    with r have "t' = t1" "o2 = []" by (auto simp: run_responses_completed)
    with True OnMirrorResponse_notifies [OF s Cons.prems(2)] out show ?thesis by auto
  next
    case False
    with OnMirrorResponse_notifies [OF s Cons.prems(2)] have "o1 = []" by auto
    with Cons.IH [OF r False] fr out show ?thesis by auto
  qed
qed


subsection \<open>The stored responses\<close>

text \<open>The segment states after a list of responses, completion apart.\<close>

fun store_responses :: "SegmentState list \<Rightarrow> response list \<Rightarrow> SegmentState list" where
  "store_responses segs [] = segs"
| "store_responses segs ((i, role, msg) # rs) =
     store_responses (if i < length segs then segs[i := set_response role msg (segs ! i)] else segs) rs"

definition done_of :: "MirrorRole \<Rightarrow> SegmentState \<Rightarrow> bool" where
  "done_of role seg = (case role of PRIMARY \<Rightarrow> primaryDone seg | BACKUP \<Rightarrow> backupDone seg)"

definition msg_of :: "MirrorRole \<Rightarrow> SegmentState \<Rightarrow> AMessage option" where
  "msg_of role seg = (case role of PRIMARY \<Rightarrow> primaryMsg seg | BACKUP \<Rightarrow> backupMsg seg)"

text \<open>A fresh segment has no response; afterwards what is stored came from the list.\<close>

definition seg_from :: "response list \<Rightarrow> nat \<Rightarrow> SegmentState \<Rightarrow> bool" where
  "seg_from rs i seg \<longleftrightarrow> (\<forall>role.
     (done_of role seg \<longleftrightarrow> (\<exists>msg. (i, role, msg) \<in> set rs)) \<and>
     (done_of role seg \<longrightarrow> (i, role, msg_of role seg) \<in> set rs) \<and>
     (\<not> done_of role seg \<longrightarrow> msg_of role seg = None))"

lemma length_store_responses [simp]: "length (store_responses segs rs) = length segs"
  by (induction segs rs rule: store_responses.induct) auto

lemma store_responses_append:
  "store_responses segs (rs @ rs') = store_responses (store_responses segs rs) rs'"
  by (induction segs rs rule: store_responses.induct) auto

lemma set_response_fields [simp]:
  "done_of role' (set_response role msg seg) = (role' = role \<or> done_of role' seg)"
  "msg_of role' (set_response role msg seg) = (if role' = role then msg else msg_of role' seg)"
  "st_length (set_response role msg seg) = st_length seg"
  "st_bufferOffset (set_response role msg seg) = st_bufferOffset seg"
  by (cases role; cases role'; simp add: done_of_def msg_of_def set_response_def)+

lemma seg_from_snoc:
  "seg_from rs i seg \<Longrightarrow> seg_from (rs @ [(i, role, msg)]) i (set_response role msg seg)"
  by (auto simp: seg_from_def)

lemma seg_from_other: "seg_from rs i seg \<Longrightarrow> j \<noteq> i \<Longrightarrow> seg_from (rs @ [(j, role, msg)]) i seg"
  by (auto simp: seg_from_def)

lemma store_responses_from:
  assumes "\<And>i. i < length segs \<Longrightarrow> seg_from [] i (segs ! i)" and "i < length segs"
  shows "seg_from rs i (store_responses segs rs ! i)"
proof (induction rs rule: rev_induct)
  case Nil
  then show ?case using assms by simp
next
  case (snoc x rs)
  obtain j role msg where x: "x = (j, role, msg)" by (cases x)
  show ?case
    using snoc.IH assms(2)
    by (cases "j = i") (auto simp: x store_responses_append seg_from_snoc seg_from_other)
qed

lemma store_responses_static:
  "i < length segs \<Longrightarrow> st_length (store_responses segs rs ! i) = st_length (segs ! i) \<and>
     st_bufferOffset (store_responses segs rs ! i) = st_bufferOffset (segs ! i)"
proof (induction segs rs rule: store_responses.induct)
  case (2 segs j role msg rs)
  then show ?case by (cases "j = i") (auto split: if_splits)
qed simp

lemma new_Ticket_segs:
  "i < length (t_segments (new_Ticket u opr l ss)) \<Longrightarrow> seg_from [] i (t_segments (new_Ticket u opr l ss) ! i)"
  by (auto simp: new_Ticket_def seg_from_def done_of_def msg_of_def split: MirrorRole.splits)

lemma OnMirrorResponse_open:
  assumes "\<not> t_completed t" and "i < length (t_segments t)"
  shows "OnMirrorResponse g i role msg t =
    TryComplete g (t\<lparr>t_segments := store_responses (t_segments t) [(i, role, msg)]\<rparr>)"
  using assms by (simp add: OnMirrorResponse_def)

text \<open>
  A run over in-range responses either stays open, having stored them all without resolving every
  segment, or completes at some prefix that resolves every segment.
\<close>

lemma run_responses_split:
  assumes "run_responses g t rs = Inr (t', out)" and "\<not> t_completed t"
    and "\<forall>(i, role, msg) \<in> set rs. i < length (t_segments t)"
  shows "(\<not> t_completed t' \<and> out = [] \<and> t_segments t' = store_responses (t_segments t) rs \<and>
      (rs \<noteq> [] \<longrightarrow> \<not> list_all (IsSegmentResolved (t_op t)) (t_segments t'))) \<or>
    (t_completed t' \<and> (\<exists>p q t1. rs = p @ q \<and> p \<noteq> [] \<and>
      t1 = t\<lparr>t_segments := store_responses (t_segments t) p\<rparr> \<and>
      list_all (IsSegmentResolved (t_op t)) (t_segments t1) \<and>
      TryComplete g t1 = Inr (t', out)))"
  using assms
proof (induction rs arbitrary: t out)
  case Nil
  then show ?case by simp
next
  case (Cons x rs)
  obtain i role msg where x: "x = (i, role, msg)" by (cases x)
  from Cons.prems(1) obtain t1 o1 o2 where s: "OnMirrorResponse g i role msg t = Inr (t1, o1)"
    and r: "run_responses g t1 rs = Inr (t', o2)" and out: "out = o1 @ o2"
    unfolding x run_responses_Cons by blast
  let ?t = "t\<lparr>t_segments := store_responses (t_segments t) [x]\<rparr>"
  from Cons.prems(2,3) s x have c: "TryComplete g ?t = Inr (t1, o1)"
    by (simp add: OnMirrorResponse_open)
  show ?case
  proof (cases "list_all (IsSegmentResolved (t_op t)) (t_segments ?t)")
    case True
    with TryComplete_cases [OF c] have "t_completed t1" by auto
    with r have "t' = t1" "o2 = []" by (auto simp: run_responses_completed)
    with \<open>t_completed t1\<close> True c out show ?thesis
      by (intro disjI2 conjI exI [of _ "[x]"] exI [of _ rs] exI [of _ ?t]) auto
  next
    case False
    with TryComplete_cases [OF c] have t1: "t1 = ?t" and o1: "o1 = []" by auto
    from Cons.prems(2,3) t1 have "\<not> t_completed t1"
      "\<forall>(i, role, msg) \<in> set rs. i < length (t_segments t1)" by auto
    from Cons.IH [OF r this] show ?thesis
    proof
      assume "\<not> t_completed t' \<and> o2 = [] \<and> t_segments t' = store_responses (t_segments t1) rs \<and>
        (rs \<noteq> [] \<longrightarrow> \<not> list_all (IsSegmentResolved (t_op t1)) (t_segments t'))"
      with False t1 o1 out show ?thesis
        by (intro disjI1) (use store_responses_append [of "t_segments t" "[x]" rs] in auto)
    next
      assume "t_completed t' \<and> (\<exists>p q t2. rs = p @ q \<and> p \<noteq> [] \<and>
        t2 = t1\<lparr>t_segments := store_responses (t_segments t1) p\<rparr> \<and>
        list_all (IsSegmentResolved (t_op t1)) (t_segments t2) \<and>
        TryComplete g t2 = Inr (t', o2))"
      then obtain p q where "t_completed t'" and pq: "rs = p @ q" "p \<noteq> []"
        "list_all (IsSegmentResolved (t_op t1)) (store_responses (t_segments t1) p)"
        "TryComplete g (t1\<lparr>t_segments := store_responses (t_segments t1) p\<rparr>) = Inr (t', o2)"
        by auto
      with t1 o1 out show ?thesis
        by (intro disjI2 conjI exI [of _ "x # p"] exI [of _ q])
          (use store_responses_append [of "t_segments t" "[x]" p] in auto)
    qed
  qed
qed

subsection \<open>Assembling the data of a read\<close>

text \<open>\<open>carries want bo l m\<close>: the message holds the \<open>l\<close> bytes of \<open>want\<close> from position \<open>bo\<close> on.\<close>

definition carries :: "byte list \<Rightarrow> size_t \<Rightarrow> size_t \<Rightarrow> AMessage \<Rightarrow> bool" where
  "carries want bo l m \<longleftrightarrow> (\<exists>d. GetData m = Some d \<and> unat l \<le> length d \<and>
     take (unat l) d = take (unat l) (drop (unat bo) want))"

text \<open>Every successful response stored for the segment carries the wanted bytes.\<close>

definition seg_sound :: "byte list \<Rightarrow> SegmentState \<Rightarrow> bool" where
  "seg_sound want seg \<longleftrightarrow>
     unat (st_bufferOffset seg) + unat (st_length seg) \<le> length want \<and>
     (\<forall>role m. msg_of role seg = Some m \<longrightarrow> GetResult m \<longrightarrow>
        carries want (st_bufferOffset seg) (st_length seg) m)"

definition seg_slot :: "SegmentState \<Rightarrow> nat set" where
  "seg_slot seg = {unat (st_bufferOffset seg)..<unat (st_bufferOffset seg) + unat (st_length seg)}"

lemma select_cases: "SelectSegmentMessage seg = primaryMsg seg \<or> SelectSegmentMessage seg = backupMsg seg"
  by (simp add: SelectSegmentMessage_def)

lemma selected_carries:
  assumes "seg_sound want seg" and "IsSegmentSuccessful OP_READ seg"
  obtains m d where "SelectSegmentMessage seg = Some m" "GetData m = Some d"
    "unat (st_length seg) \<le> length d"
    "take (unat (st_length seg)) d =
      take (unat (st_length seg)) (drop (unat (st_bufferOffset seg)) want)"
proof -
  from assms(2) obtain m where m: "SelectSegmentMessage seg = Some m" "GetResult m"
    by (auto simp: IsSegmentSuccessful_def msg_ok_def split: option.splits)
  then have "msg_of PRIMARY seg = Some m \<or> msg_of BACKUP seg = Some m"
    using select_cases [of seg] by (auto simp: msg_of_def)
  with m assms(1) have "carries want (st_bufferOffset seg) (st_length seg) m"
    unfolding seg_sound_def by blast
  with m that show ?thesis unfolding carries_def by blast
qed

lemma nth_memcpy:
  assumes "memcpy dst off src n = Inr d" and "k < length dst"
  shows "d ! k = (if off \<le> k \<and> k < off + n then src ! (k - off) else dst ! k)"
  using assms by (auto simp: memcpy_eq_Inr nth_append min_def)

lemma fill_segments_sound:
  assumes "\<forall>seg \<in> set segs. seg_sound want seg \<and> IsSegmentSuccessful OP_READ seg"
    and "length buffer = length want"
  shows "\<exists>b. fill_segments segs buffer = Inr b \<and> length b = length want \<and>
    (\<forall>k < length want. b ! k = (if \<exists>seg \<in> set segs. k \<in> seg_slot seg then want ! k else buffer ! k))"
  using assms
proof (induction segs arbitrary: buffer)
  case Nil
  then show ?case by simp
next
  case (Cons seg segs)
  let ?off = "unat (st_bufferOffset seg)" and ?n = "unat (st_length seg)"
  from Cons.prems(1) have snd: "seg_sound want seg" and suc: "IsSegmentSuccessful OP_READ seg" by auto
  obtain m d where sel: "SelectSegmentMessage seg = Some m" "GetData m = Some d"
    and n: "?n \<le> length d" and eq: "take ?n d = take ?n (drop ?off want)"
    using selected_carries [OF snd suc] .
  from snd Cons.prems(2) n obtain b1 where b1: "memcpy buffer ?off d ?n = Inr b1"
    by (auto simp: seg_sound_def memcpy_def)
  have step: "b1 ! k = (if k \<in> seg_slot seg then want ! k else buffer ! k)"
    if k: "k < length want" for k
  proof (cases "k \<in> seg_slot seg")
    case True
    then have "k - ?off < ?n" by (auto simp: seg_slot_def)
    then have "d ! (k - ?off) = take ?n (drop ?off want) ! (k - ?off)"
      unfolding eq [symmetric] by simp
    also have "\<dots> = want ! k"
      using True snd by (auto simp: seg_slot_def seg_sound_def)
    finally show ?thesis
      using True k Cons.prems(2)
      by (simp add: nth_memcpy [OF b1] seg_slot_def)
  next
    case False
    with k Cons.prems(2) show ?thesis
      by (auto simp: nth_memcpy [OF b1] seg_slot_def)
  qed
  have "length b1 = length want" using length_memcpy [OF b1] Cons.prems(2) by simp
  with Cons.IH [of b1] Cons.prems(1) obtain b where b: "fill_segments segs b1 = Inr b"
    "length b = length want" "\<forall>k < length want.
      b ! k = (if \<exists>seg \<in> set segs. k \<in> seg_slot seg then want ! k else b1 ! k)" by auto
  then show ?case using sel b1 step by auto
qed

lemma fill_segments_whole:
  assumes "\<forall>seg \<in> set segs. seg_sound want seg \<and> IsSegmentSuccessful OP_READ seg"
    and "length buffer = length want" and "(\<Union>seg \<in> set segs. seg_slot seg) = {0..<length want}"
  shows "fill_segments segs buffer = Inr want"
proof -
  obtain b where b: "fill_segments segs buffer = Inr b" "length b = length want" and
    nth: "\<forall>k < length want. b ! k = (if \<exists>seg \<in> set segs. k \<in> seg_slot seg then want ! k else buffer ! k)"
    using fill_segments_sound [OF assms(1,2)] by blast
  have "b ! k = want ! k" if "k < length want" for k
  proof -
    have "k \<in> (\<Union>seg \<in> set segs. seg_slot seg)" unfolding assms(3) using that by simp
    then have "\<exists>seg \<in> set segs. k \<in> seg_slot seg" by simp
    with nth that show ?thesis by simp
  qed
  with b(2) have "b = want" by (simp add: nth_equalityI)
  with b show ?thesis by simp
qed

text \<open>A ticket all of whose segments are sound completes without fault, and with the wanted bytes.\<close>

definition ticket_sound :: "byte list \<Rightarrow> Ticket \<Rightarrow> bool" where
  "ticket_sound want t \<longleftrightarrow> t_op t = OP_READ \<and> unat (t_totalLength t) = length want \<and>
     (\<Union>seg \<in> set (t_segments t). seg_slot seg) = {0..<length want} \<and>
     (\<forall>seg \<in> set (t_segments t). seg_sound want seg)"

lemma TryComplete_sound:
  assumes "ticket_sound want t"
  shows "TryComplete g t =
    (if \<not> list_all (IsSegmentResolved OP_READ) (t_segments t) then Inr (t, [])
     else let ok = list_all (IsSegmentSuccessful OP_READ) (t_segments t)
       in Inr (t\<lparr>t_completed := True\<rparr>, map (\<lambda>cb. (cb, \<lparr>res_uid = t_uid t, res_result = ok,
            res_length = t_totalLength t, res_buffer = (if ok then Some want else None)\<rparr>))
            (t_dispatcher t)))"
proof (cases "list_all (IsSegmentSuccessful OP_READ) (t_segments t)")
  case True
  then have "fill_segments (t_segments t) (new_char g (unat (t_totalLength t))) = Inr want"
    using assms by (intro fill_segments_whole) (auto simp: ticket_sound_def list_all_iff)
  with True assms show ?thesis by (simp add: TryComplete_def ticket_sound_def Let_def)
next
  case False
  with assms show ?thesis by (simp add: TryComplete_def ticket_sound_def Let_def)
qed

text \<open>A response for segment \<open>i\<close> that, if successful, carries the bytes of that segment.\<close>

definition sound_response :: "byte list \<Rightarrow> SegmentState list \<Rightarrow> response \<Rightarrow> bool" where
  "sound_response want segs r = (case r of (i, role, msg) \<Rightarrow> i < length segs \<and>
     (\<forall>m. msg = Some m \<longrightarrow> GetResult m \<longrightarrow>
        carries want (st_bufferOffset (segs ! i)) (st_length (segs ! i)) m))"

lemma seg_sound_set_response:
  assumes "seg_sound want seg"
    and "\<forall>m. msg = Some m \<longrightarrow> GetResult m \<longrightarrow> carries want (st_bufferOffset seg) (st_length seg) m"
  shows "seg_sound want (set_response role msg seg)"
  using assms by (auto simp: seg_sound_def)

lemma seg_slot_set_response [simp]: "seg_slot (set_response role msg seg) = seg_slot seg"
  by (simp add: seg_slot_def)

lemma Union_slots_update:
  assumes "i < length segs" and "seg_slot s' = seg_slot (segs ! i)"
  shows "(\<Union>seg \<in> set (segs[i := s']). seg_slot seg) = (\<Union>seg \<in> set segs. seg_slot seg)"
proof -
  have "map seg_slot (segs[i := s']) = map seg_slot segs"
    using assms by (simp add: map_update list_update_same_conv)
  then have "set (map seg_slot (segs[i := s'])) = set (map seg_slot segs)" by (rule arg_cong)
  then show ?thesis by (metis set_map)
qed

lemma ticket_sound_store:
  assumes "ticket_sound want t" and "sound_response want (t_segments t) (i, role, msg)"
  shows "ticket_sound want
    (t\<lparr>t_segments := (t_segments t)[i := set_response role msg (t_segments t ! i)]\<rparr>)"
proof -
  from assms have i: "i < length (t_segments t)" by (simp add: sound_response_def)
  with assms have s: "seg_sound want (set_response role msg (t_segments t ! i))"
    by (intro seg_sound_set_response) (auto simp: ticket_sound_def sound_response_def)
  have "(\<Union>seg \<in> set ((t_segments t)[i := set_response role msg (t_segments t ! i)]). seg_slot seg)
      = (\<Union>seg \<in> set (t_segments t). seg_slot seg)"
    using i by (intro Union_slots_update) simp_all
  with assms(1) s show ?thesis
    unfolding ticket_sound_def
    using set_update_subset_insert [of "t_segments t" i "set_response role msg (t_segments t ! i)"]
    by auto
qed

lemma OnMirrorResponse_sound:
  assumes "ticket_sound want t" and "sound_response want (t_segments t) (i, role, msg)"
  shows "\<exists>t' out. OnMirrorResponse g i role msg t = Inr (t', out) \<and> ticket_sound want t' \<and>
    map st_bufferOffset (t_segments t') = map st_bufferOffset (t_segments t) \<and>
    map st_length (t_segments t') = map st_length (t_segments t) \<and>
    (\<forall>(cb, r) \<in> set out. res_length r = t_totalLength t \<and>
      res_buffer r = (if res_result r then Some want else None))"
proof (cases "t_completed t")
  case True
  with assms show ?thesis by (simp add: OnMirrorResponse_completed)
next
  case False
  let ?t = "t\<lparr>t_segments := (t_segments t)[i := set_response role msg (t_segments t ! i)]\<rparr>"
  have i: "i < length (t_segments t)" using assms(2) by (simp add: sound_response_def)
  note sound = ticket_sound_store [OF assms]
  have "ticket_sound want (?t\<lparr>t_completed := True\<rparr>)"
    using sound by (simp add: ticket_sound_def)
  with False i sound TryComplete_sound [OF sound, of g] show ?thesis
    by (auto simp: OnMirrorResponse_def Let_def map_update list_update_same_conv)
qed

subsection \<open>Tickets made from a split request\<close>

lemma t_segments_Register [simp]:
  "t_segments (RegisterToResultDispatcher cb t) = t_segments t"
  "t_op (RegisterToResultDispatcher cb t) = t_op t"
  "t_totalLength (RegisterToResultDispatcher cb t) = t_totalLength t"
  "t_uid (RegisterToResultDispatcher cb t) = t_uid t"
  "t_completed (RegisterToResultDispatcher cb t) = t_completed t"
  "t_dispatcher (RegisterToResultDispatcher cb t) = t_dispatcher t @ [cb]"
  by (simp_all add: RegisterToResultDispatcher_def)

lemma new_Ticket_fields [simp]:
  "t_op (new_Ticket uid opr len segs) = opr"
  "t_totalLength (new_Ticket uid opr len segs) = len"
  "t_uid (new_Ticket uid opr len segs) = uid"
  "\<not> t_completed (new_Ticket uid opr len segs)"
  "t_dispatcher (new_Ticket uid opr len segs) = []"
  "length (t_segments (new_Ticket uid opr len segs)) = length segs"
  by (simp_all add: new_Ticket_def)

lemma new_Ticket_segment:
  "i < length segs \<Longrightarrow> st_length (t_segments (new_Ticket uid opr len segs) ! i) = segLength (segs ! i)"
  "i < length segs \<Longrightarrow> st_bufferOffset (t_segments (new_Ticket uid opr len segs) ! i) = bufferOffset (segs ! i)"
  by (simp_all add: new_Ticket_def)

lemma ticket_sound_Register [simp]:
  "ticket_sound want (RegisterToResultDispatcher cb t) \<longleftrightarrow> ticket_sound want t"
  by (simp add: ticket_sound_def)

lemma new_Ticket_sound:
  assumes "c \<noteq> 0" "n \<noteq> 0" "unat off + unat len < 2 ^ 64" "Split off len c n = Inr segs"
    and "length want = unat len"
  shows "ticket_sound want (new_Ticket uid OP_READ len segs)"
proof -
  let ?S = "t_segments (new_Ticket uid OP_READ len segs)"
  have "(\<Union>seg \<in> set ?S. seg_slot seg) = set (concat (map seg_slots segs))"
    by (auto simp: new_Ticket_def seg_slot_def seg_slots_def)
  then have "(\<Union>seg \<in> set ?S. seg_slot seg) = {0..<length want}"
    using stripe.placement(2) [OF assms(1-4)] assms(5) by simp
  moreover have "seg_sound want seg" if "seg \<in> set ?S" for seg
    using that stripe.buffer_range [OF assms(1-4)] assms(5)
    by (auto simp: new_Ticket_def seg_sound_def msg_of_def split: MirrorRole.splits)
  ultimately show ?thesis using assms(5) by (simp add: ticket_sound_def)
qed

lemma sound_response_cong:
  assumes "map st_bufferOffset segs' = map st_bufferOffset segs" "map st_length segs' = map st_length segs"
  shows "sound_response want segs' r = sound_response want segs r"
proof -
  have l: "length segs' = length segs" using assms(1) by (rule map_eq_imp_length_eq)
  have "i < length segs \<Longrightarrow> st_bufferOffset (segs' ! i) = st_bufferOffset (segs ! i) \<and>
      st_length (segs' ! i) = st_length (segs ! i)" for i
    using assms l by (metis nth_map)
  with l show ?thesis by (auto simp: sound_response_def)
qed

lemma run_responses_sound:
  assumes "ticket_sound want t" and "\<forall>r \<in> set rs. sound_response want (t_segments t) r"
  shows "\<exists>t' out. run_responses g t rs = Inr (t', out) \<and> ticket_sound want t' \<and>
    (\<forall>(cb, r) \<in> set out. res_length r = t_totalLength t \<and>
      res_buffer r = (if res_result r then Some want else None))"
  using assms
proof (induction rs arbitrary: t)
  case Nil
  then show ?case by simp
next
  case (Cons x rs)
  obtain i role msg where x: "x = (i, role, msg)" by (cases x)
  from OnMirrorResponse_sound [OF Cons.prems(1), of i role msg g] Cons.prems(2) x
  obtain t1 o1 where s: "OnMirrorResponse g i role msg t = Inr (t1, o1)" and t1: "ticket_sound want t1"
    and m: "map st_bufferOffset (t_segments t1) = map st_bufferOffset (t_segments t)"
      "map st_length (t_segments t1) = map st_length (t_segments t)"
    and o1: "\<forall>(cb, r) \<in> set o1. res_length r = t_totalLength t \<and>
      res_buffer r = (if res_result r then Some want else None)"
    by auto
  have "\<forall>r \<in> set rs. sound_response want (t_segments t1) r"
    using Cons.prems(2) sound_response_cong [OF m] by auto
  from Cons.IH [OF t1 this] obtain t2 o2 where r: "run_responses g t1 rs = Inr (t2, o2)"
    and t2: "ticket_sound want t2" and o2: "\<forall>(cb, r) \<in> set o2. res_length r = t_totalLength t1 \<and>
      res_buffer r = (if res_result r then Some want else None)"
    by blast
  have "run_responses g t (x # rs) = Inr (t2, o1 @ o2)"
    unfolding x run_responses_Cons using s r by blast
  with t2 o1 o2 OnMirrorResponse_frame [OF s] show ?case by auto
qed

section \<open>Properties\<close>

text \<open>
  C13. A ticket notifies at most once: whatever responses arrive, in whatever order and number, the
  calls made are none, or one call per registered callback, all with one and the same result for the
  ticket's identifier; and a result has been notified exactly when the ticket is completed.
\<close>

theorem ticket_notifies_once:
  assumes "run_responses g t rs = Inr (t', out)" and "\<not> t_completed t"
  shows "(\<not> t_completed t' \<and> out = []) \<or>
    (t_completed t' \<and> (\<exists>r. out = map (\<lambda>cb. (cb, r)) (t_dispatcher t) \<and> res_uid r = t_uid t))"
  using run_responses_notifies [OF assms] .

lemma read_ticket_integrity_base:
  assumes "chunkSize \<noteq> 0" and "numMinions \<noteq> 0" and "unat offset + unat len < 2 ^ 64"
    and "Split offset len chunkSize numMinions = Inr segs" and "length want = unat len"
    and "t = RegisterToResultDispatcher cb (new_Ticket uid OP_READ len segs)"
    and "\<forall>r \<in> set rs. sound_response want (t_segments t) r"
  shows "\<exists>t' out. run_responses g t rs = Inr (t', out) \<and>
    (out = [] \<or> (\<exists>ok. out = [(cb, \<lparr>res_uid = uid, res_result = ok, res_length = len,
       res_buffer = (if ok then Some want else None)\<rparr>)]))"
proof -
  have "ticket_sound want t" using new_Ticket_sound [OF assms(1-5)] assms(6) by simp
  from run_responses_sound [OF this assms(7), of g] obtain t' out where
    r: "run_responses g t rs = Inr (t', out)" and out: "\<forall>(cb, r) \<in> set out. res_length r = len \<and>
      res_buffer r = (if res_result r then Some want else None)"
    using assms(6) by auto
  have "\<not> t_completed t" using assms(6) by simp
  from run_responses_notifies [OF r this] have "out = [] \<or> (\<exists>x. out = [(cb, x)] \<and> res_uid x = uid)"
    using assms(6) by auto
  then show ?thesis
  proof
    assume "\<exists>x. out = [(cb, x)] \<and> res_uid x = uid"
    then obtain x where x: "out = [(cb, x)]" "res_uid x = uid" by blast
    with out have "x = \<lparr>res_uid = uid, res_result = res_result x, res_length = len,
        res_buffer = (if res_result x then Some want else None)\<rparr>"
      by (intro TaskResult.equality) auto
    with r x show ?thesis by metis
  qed (use r in blast)
qed

text \<open>
  C5. Read integrity: take any request cut by \<open>Split\<close> and any sequence of responses in which every
  successful one carries the bytes of its segment.  The ticket never faults, and the result it notifies
  carries the request's length and, when it reports success, exactly the wanted bytes; a failed result
  carries no data.
\<close>

theorem read_ticket_integrity:
  assumes "chunkSize \<noteq> 0" and "numMinions \<noteq> 0" and "unat offset + unat len < 2 ^ 64"
    and "Split offset len chunkSize numMinions = Inr segs" and "length want = unat len"
    and "t = RegisterToResultDispatcher cb (new_Ticket uid OP_READ len segs)"
    and "\<forall>r \<in> set rs. sound_response want (t_segments t) r"
  shows "\<exists>t' out. run_responses g t rs = Inr (t', out) \<and>
    (out = [] \<or> (\<exists>ok. out = [(cb, \<lparr>res_uid = uid, res_result = ok, res_length = len,
       res_buffer = (if ok then Some want else None)\<rparr>)]))"
  using read_ticket_integrity_base [OF assms] .

text \<open>One response per mirror of a segment, as the proxies deliver them.\<close>

definition keys_distinct :: "response list \<Rightarrow> bool" where
  "keys_distinct rs = distinct (map (\<lambda>(i, role, msg). (i, role)) rs)"

lemma keys_distinctD:
  assumes "keys_distinct rs" "(i, role, m) \<in> set rs" "(i, role, m') \<in> set rs"
  shows "m = m'"
  using assms unfolding keys_distinct_def
  by (metis (mono_tags, lifting) case_prod_conv distinct_map inj_onD prod.inject)

lemma keys_distinct_prefix:
  assumes "keys_distinct (p @ q)" "(i, role, m) \<in> set p" "(i, role, m') \<in> set q"
  shows False
  using assms unfolding keys_distinct_def by (auto simp: image_iff disjoint_iff split: prod.splits)
    fastforce

text \<open>What the stored responses of a fresh ticket look like after a list of responses.\<close>

lemma stored_response:
  assumes "i < length segs"
  shows "seg_from rs i (store_responses (t_segments (new_Ticket uid opr len segs)) rs ! i)"
  using assms by (intro store_responses_from new_Ticket_segs) simp_all

lemma resolved_read:
  assumes "seg_from rs i seg" "keys_distinct rs"
    and "(\<exists>msg. (i, BACKUP, msg) \<in> set rs) \<or> (\<exists>msg. (i, PRIMARY, msg) \<in> set rs \<and> msg_ok msg)"
  shows "IsSegmentResolved OP_READ seg"
  using assms(3)
proof
  assume "\<exists>msg. (i, BACKUP, msg) \<in> set rs"
  with assms(1) have "done_of BACKUP seg" by (simp add: seg_from_def)
  then show ?thesis by (simp add: IsSegmentResolved_def done_of_def)
next
  assume "\<exists>msg. (i, PRIMARY, msg) \<in> set rs \<and> msg_ok msg"
  then obtain msg where m: "(i, PRIMARY, msg) \<in> set rs" "msg_ok msg" by blast
  with assms(1) have d: "done_of PRIMARY seg" and s: "(i, PRIMARY, msg_of PRIMARY seg) \<in> set rs"
    by (auto simp: seg_from_def)
  with keys_distinctD [OF assms(2) s m(1)] m(2) show ?thesis
    by (simp add: IsSegmentResolved_def done_of_def msg_of_def)
qed

lemma successful_read:
  assumes "seg_from rs i seg" "IsSegmentResolved OP_READ seg"
    and "\<And>msg. (i, BACKUP, msg) \<in> set rs \<Longrightarrow> msg_ok msg"
  shows "IsSegmentSuccessful OP_READ seg"
proof (cases "primaryDone seg \<and> msg_ok (primaryMsg seg)")
  case True
  then show ?thesis by (simp add: IsSegmentSuccessful_def SelectSegmentMessage_def)
next
  case False
  with assms(2) have "done_of BACKUP seg" by (auto simp: IsSegmentResolved_def done_of_def)
  with assms(1,3) have "msg_ok (msg_of BACKUP seg)" by (auto simp: seg_from_def)
  with False \<open>done_of BACKUP seg\<close> show ?thesis
    by (simp add: IsSegmentSuccessful_def SelectSegmentMessage_def done_of_def msg_of_def)
qed

lemma resolved_write:
  "seg_from rs i seg \<Longrightarrow>
     IsSegmentResolved OP_WRITE seg \<longleftrightarrow> (\<forall>role. \<exists>msg. (i, role, msg) \<in> set rs)"
  unfolding seg_from_def IsSegmentResolved_def
  by (metis MirrorRole.exhaust MirrorRole.simps(3,4) done_of_def)

lemma successful_write:
  assumes "seg_from rs i seg" "keys_distinct rs" "IsSegmentResolved OP_WRITE seg"
  shows "IsSegmentSuccessful OP_WRITE seg \<longleftrightarrow> (\<forall>role msg. (i, role, msg) \<in> set rs \<longrightarrow> msg_ok msg)"
proof -
  have d: "done_of role seg" for role
    using assms(3) by (cases role) (auto simp: IsSegmentResolved_def done_of_def)
  then have m: "(i, role, msg) \<in> set rs \<longleftrightarrow> msg = msg_of role seg" for role msg
    using assms(1) keys_distinctD [OF assms(2)] unfolding seg_from_def by metis
  have "IsSegmentSuccessful OP_WRITE seg \<longleftrightarrow> (\<forall>role. msg_ok (msg_of role seg))"
    unfolding IsSegmentSuccessful_def msg_of_def by (auto split: MirrorRole.split)
  with m show ?thesis by simp
qed

text \<open>
  C7. Read failover: take a non-empty request cut by \<open>Split\<close>, sound responses with at most one per
  mirror, and suppose that no backup reports failure.  As soon as every segment has an answer from its
  backup or a successful one from its primary, in whatever order they came, the ticket has completed
  with success and exactly the wanted bytes: primaries may fail or never answer.
\<close>

theorem read_failover:
  assumes "chunkSize \<noteq> 0" and "numMinions \<noteq> 0" and "unat offset + unat len < 2 ^ 64"
    and "Split offset len chunkSize numMinions = Inr segs" and "length want = unat len"
    and "t = RegisterToResultDispatcher cb (new_Ticket uid OP_READ len segs)"
    and "\<forall>r \<in> set rs. sound_response want (t_segments t) r"
    and "len \<noteq> 0" and "keys_distinct rs" and "\<forall>i msg. (i, BACKUP, msg) \<in> set rs \<longrightarrow> msg_ok msg"
    and "\<forall>i < length segs. (\<exists>msg. (i, BACKUP, msg) \<in> set rs) \<or>
      (\<exists>msg. (i, PRIMARY, msg) \<in> set rs \<and> msg_ok msg)"
  shows "\<exists>t'. run_responses g t rs = Inr (t', [(cb, \<lparr>res_uid = uid, res_result = True,
    res_length = len, res_buffer = Some want\<rparr>)])"
proof -
  let ?T = "new_Ticket uid OP_READ len segs"
  from read_ticket_integrity_base [OF assms(1-7), of g] obtain t' out where
    r: "run_responses g t rs = Inr (t', out)" and out: "out = [] \<or> (\<exists>ok. out = [(cb, \<lparr>res_uid = uid,
      res_result = ok, res_length = len, res_buffer = (if ok then Some want else None)\<rparr>)])" by blast
  have ne: "0 < length segs" using stripe.nonempty [OF assms(1-4,8)] by simp
  with assms(11) have rs: "rs \<noteq> []" by fastforce
  have st: "t_segments t = t_segments ?T" "\<not> t_completed t" "t_op t = OP_READ" "t_dispatcher t = [cb]"
    using assms(6) by simp_all
  have range: "\<forall>(i, role, msg) \<in> set rs. i < length (t_segments t)"
    using assms(7) by (auto simp: sound_response_def)
  have "list_all (IsSegmentResolved OP_READ) (store_responses (t_segments t) rs)"
    using resolved_read [OF stored_response assms(9)] assms(11) st
    by (auto simp: list_all_length)
  with run_responses_split [OF r st(2) range] rs st obtain p q where pq: "rs = p @ q"
    and res: "list_all (IsSegmentResolved OP_READ) (store_responses (t_segments t) p)"
    and c: "TryComplete g (t\<lparr>t_segments := store_responses (t_segments t) p\<rparr>) = Inr (t', out)"
    by auto
  have "list_all (IsSegmentSuccessful OP_READ) (store_responses (t_segments t) p)"
    using res assms(10) st pq
    by (auto simp: list_all_length intro!: successful_read [OF stored_response])
  with TryComplete_cases [OF c] res st obtain x where "out = [(cb, x)]" "res_result x" by auto
  with out r show ?thesis by auto
qed

text \<open>Once every mirror of every segment has answered, no further response can come.\<close>

lemma all_keys_prefix:
  assumes "keys_distinct (p @ q)" and "\<forall>(i, role, msg) \<in> set (p @ q). i < n"
    and "\<forall>i < n. \<forall>role. \<exists>msg. (i, role, msg) \<in> set p"
  shows "q = []"
proof (rule ccontr)
  assume "q \<noteq> []"
  then obtain i role msg where q: "(i, role, msg) \<in> set q"
    by (metis list.set_intros(1) neq_Nil_conv prod_cases3)
  with assms(2) have "i < n" by auto
  with assms(3) obtain m where "(i, role, m) \<in> set p" by blast
  with q show False using keys_distinct_prefix assms(1) by blast
qed

lemma OnMirrorResponse_write:
  "t_op t = OP_WRITE \<Longrightarrow> \<exists>t' out. OnMirrorResponse g i role msg t = Inr (t', out)"
  by (simp add: OnMirrorResponse_def TryComplete_def Let_def)

lemma run_responses_write:
  "t_op t = OP_WRITE \<Longrightarrow> \<exists>t' out. run_responses g t rs = Inr (t', out)"
proof (induction rs arbitrary: t)
  case (Cons x rs)
  obtain i role msg where x: "x = (i, role, msg)" by (cases x)
  from OnMirrorResponse_write [OF Cons.prems] obtain t1 o1
    where s: "OnMirrorResponse g i role msg t = Inr (t1, o1)" by blast
  from OnMirrorResponse_frame [OF s] Cons.prems have "t_op t1 = OP_WRITE" by simp
  with Cons.IH s show ?case unfolding x run_responses_Cons by blast
qed simp

text \<open>
  C6. Write mirror policy: for a write with at least one segment and at most one response per mirror,
  the ticket never faults; it stays open and silent until both mirrors of every segment have answered,
  and then notifies one result, successful exactly when every one of the answers was.  The order of
  arrival does not matter.
\<close>

theorem write_mirror_policy:
  assumes "t = RegisterToResultDispatcher cb (new_Ticket uid OP_WRITE len segs)" and "segs \<noteq> []"
    and "keys_distinct rs" and "\<forall>(i, role, msg) \<in> set rs. i < length segs"
  shows "\<exists>t'. run_responses g t rs = Inr (t',
    if \<forall>i < length segs. \<forall>role. \<exists>msg. (i, role, msg) \<in> set rs
    then [(cb, \<lparr>res_uid = uid, res_result = (\<forall>(i, role, msg) \<in> set rs. msg_ok msg),
           res_length = len, res_buffer = None\<rparr>)]
    else [])"
proof -
  let ?T = "new_Ticket uid OP_WRITE len segs"
  have st: "t_segments t = t_segments ?T" "\<not> t_completed t" "t_op t = OP_WRITE" "t_dispatcher t = [cb]"
    "t_uid t = uid" "t_totalLength t = len"
    using assms(1) by simp_all
  obtain t' out where r: "run_responses g t rs = Inr (t', out)"
    using run_responses_write [OF st(3)] by blast
  have range: "\<forall>(i, role, msg) \<in> set rs. i < length (t_segments t)" using assms(4) st by simp
  have all: "list_all (IsSegmentResolved OP_WRITE) (store_responses (t_segments t) p) \<longleftrightarrow>
      (\<forall>i < length segs. \<forall>role. \<exists>msg. (i, role, msg) \<in> set p)" for p
    using resolved_write [OF stored_response] st(1) by (simp add: list_all_length)
  from run_responses_split [OF r st(2) range] show ?thesis
  proof
    assume "\<not> t_completed t' \<and> out = [] \<and> t_segments t' = store_responses (t_segments t) rs \<and>
      (rs \<noteq> [] \<longrightarrow> \<not> list_all (IsSegmentResolved (t_op t)) (t_segments t'))"
    then have "out = []" "\<not> (\<forall>i < length segs. \<forall>role. \<exists>msg. (i, role, msg) \<in> set rs)"
      using all [of rs] st(3) assms(2) by (cases "rs = []", auto)
    with r show ?thesis by auto
  next
    assume "t_completed t' \<and> (\<exists>p q t1. rs = p @ q \<and> p \<noteq> [] \<and>
      t1 = t\<lparr>t_segments := store_responses (t_segments t) p\<rparr> \<and>
      list_all (IsSegmentResolved (t_op t)) (t_segments t1) \<and> TryComplete g t1 = Inr (t', out))"
    then obtain p q where pq: "rs = p @ q"
      and res: "list_all (IsSegmentResolved OP_WRITE) (store_responses (t_segments t) p)"
      and c: "TryComplete g (t\<lparr>t_segments := store_responses (t_segments t) p\<rparr>) = Inr (t', out)"
      using st(3) by auto
    have "q = []"
      using all_keys_prefix [of p q "length segs"] assms(3,4) pq all [of p] res by simp
    with pq have p: "p = rs" by simp
    have "list_all (IsSegmentSuccessful OP_WRITE) (store_responses (t_segments t) rs) \<longleftrightarrow>
        (\<forall>i < length segs. \<forall>role msg. (i, role, msg) \<in> set rs \<longrightarrow> msg_ok msg)"
      using successful_write [OF stored_response assms(3)] res st(1) p by (simp add: list_all_length)
    also have "\<dots> \<longleftrightarrow> (\<forall>(i, role, msg) \<in> set rs. msg_ok msg)" using assms(4) by fastforce
    finally have "TryComplete g (t\<lparr>t_segments := store_responses (t_segments t) rs\<rparr>) =
        Inr (t\<lparr>t_segments := store_responses (t_segments t) rs, t_completed := True\<rparr>,
          [(cb, \<lparr>res_uid = uid, res_result = (\<forall>(i, role, msg) \<in> set rs. msg_ok msg),
             res_length = len, res_buffer = None\<rparr>)])"
      using res st p by (simp add: TryComplete_def Let_def)
    with c p r all [of rs] res show ?thesis by auto
  qed
qed

text \<open>
  The read policy is not symmetric: for a one-segment read with a failing backup and a successful,
  sound primary, the result is the data if the primary answers first, but a failure if the backup's
  failure arrives first; the primary's good answer is then ignored.
\<close>

theorem read_result_depends_on_order:
  assumes "t = RegisterToResultDispatcher cb (new_Ticket uid OP_READ len [seg])"
    and "bufferOffset seg = 0" and "segLength seg = len" and "length want = unat len"
    and "GetResult good" and "GetData good = Some want" and "\<not> GetResult bad"
  shows "(\<exists>t'. run_responses g t [(0, PRIMARY, Some good), (0, BACKUP, Some bad)] =
      Inr (t', [(cb, \<lparr>res_uid = uid, res_result = True, res_length = len,
        res_buffer = Some want\<rparr>)])) \<and>
    (\<exists>t'. run_responses g t [(0, BACKUP, Some bad), (0, PRIMARY, Some good)] =
      Inr (t', [(cb, \<lparr>res_uid = uid, res_result = False, res_length = len,
        res_buffer = None\<rparr>)]))"
  using assms
  by (simp add: new_Ticket_def RegisterToResultDispatcher_def OnMirrorResponse_def TryComplete_def
      set_response_def IsSegmentResolved_def IsSegmentSuccessful_def SelectSegmentMessage_def
      msg_ok_def memcpy_def Let_def)

section \<open>Witnesses\<close>

text \<open>The request and the responses of \<open>test_ticket.cpp\<close>.\<close>

definition ex_seg :: StripeSegment where
  "ex_seg = \<lparr>localOffset = 0, segLength = 4, bufferOffset = 0, primaryMinionIndex = 0,
     backupMinionIndex = 1\<rparr>"

definition ex_failover :: "response list" where
  "ex_failover =
     [(0, PRIMARY, Some (new_MessageReadReceive 42 False 4 None)),
      (0, BACKUP, Some (new_MessageReadReceive 42 True 4 (Some [97, 98, 99, 100])))]"

lemma ex_split: "Split 0 4 4194304 3 = Inr [ex_seg]"
  by (simp add: Split_def Split_loop_unfold Split_loop.simps [of _ _ 0] seg_step_def ex_seg_def)

lemma ex_sound:
  "\<forall>r \<in> set ex_failover. sound_response [97, 98, 99, 100]
     (t_segments (RegisterToResultDispatcher 0 (new_Ticket (UID 42) OP_READ 4 [ex_seg]))) r"
  by (simp add: ex_failover_def sound_response_def new_Ticket_def ex_seg_def carries_def
      new_MessageReadReceive_def)

theorem read_ticket_integrity_witness:
  "\<exists>t' out. run_responses (\<lambda>_. 0)
      (RegisterToResultDispatcher 0 (new_Ticket (UID 42) OP_READ 4 [ex_seg])) ex_failover = Inr (t', out)"
  using read_ticket_integrity [OF _ _ _ ex_split _ refl ex_sound, of "\<lambda>_. 0"] by auto

theorem read_failover_witness:
  "\<exists>t'. run_responses (\<lambda>_. 0)
      (RegisterToResultDispatcher 0 (new_Ticket (UID 42) OP_READ 4 [ex_seg])) ex_failover =
    Inr (t', [(0, \<lparr>res_uid = UID 42, res_result = True, res_length = 4,
      res_buffer = Some [97, 98, 99, 100]\<rparr>)])"
  by (rule read_failover [OF _ _ _ ex_split _ refl ex_sound])
    (auto simp: ex_failover_def keys_distinct_def new_MessageReadReceive_def msg_ok_def)

theorem ticket_notifies_once_witness:
  "\<exists>t' out. run_responses (\<lambda>_. 0) (new_Ticket (UID 42) OP_WRITE 4 [ex_seg])
      [(0, PRIMARY, None)] = Inr (t', out) \<and> \<not> t_completed (new_Ticket (UID 42) OP_WRITE 4 [ex_seg]) \<and>
    (t_completed t' \<or> out = [])"
proof -
  obtain t' out where r: "run_responses (\<lambda>_. 0) (new_Ticket (UID 42) OP_WRITE 4 [ex_seg])
      [(0, PRIMARY, None)] = Inr (t', out)"
    using run_responses_write [of "new_Ticket (UID 42) OP_WRITE 4 [ex_seg]" "\<lambda>_. 0"] by fastforce
  from ticket_notifies_once [OF r] r show ?thesis by auto
qed

theorem write_mirror_policy_witness:
  "\<exists>t'. run_responses (\<lambda>_. 0)
      (RegisterToResultDispatcher 0 (new_Ticket (UID 42) OP_WRITE 4 [ex_seg]))
      [(0, PRIMARY, Some (new_MessageWriteReceive 42 True)),
       (0, BACKUP, Some (new_MessageWriteReceive 42 False))] =
    Inr (t', [(0, \<lparr>res_uid = UID 42, res_result = False, res_length = 4, res_buffer = None\<rparr>)])"
proof -
  let ?rs = "[(0, PRIMARY, Some (new_MessageWriteReceive 42 True)),
    (0, BACKUP, Some (new_MessageWriteReceive 42 False))]"
  have "\<exists>msg. (0, role, msg) \<in> set ?rs" for role by (cases role) auto
  then show ?thesis
    using write_mirror_policy [OF refl, of "[ex_seg]" ?rs "\<lambda>_. 0" 0 "UID 42" 4]
    by (simp add: keys_distinct_def new_MessageWriteReceive_def msg_ok_def)
qed

theorem read_result_depends_on_order_witness:
  "\<exists>t'. run_responses (\<lambda>_. 0)
      (RegisterToResultDispatcher 0 (new_Ticket (UID 42) OP_READ 4 [ex_seg]))
      [(0, BACKUP, Some (MessageReadReceive 42 0 4 None)),
       (0, PRIMARY, Some (MessageReadReceive 42 1 4 (Some [97, 98, 99, 100])))] =
    Inr (t', [(0, \<lparr>res_uid = UID 42, res_result = False, res_length = 4, res_buffer = None\<rparr>)])"
  using read_result_depends_on_order [OF refl, of ex_seg 4 "[97, 98, 99, 100]"
    "MessageReadReceive 42 1 4 (Some [97, 98, 99, 100])" "MessageReadReceive 42 0 4 None"]
  by (simp add: ex_seg_def)

end
