(* ===== verification/Master_State.thy ===== *)
theory Master_State
  imports Minion_Proxy Tcp_Client Tickets
begin

text \<open>
  The state of the master process: the objects \<open>NBDProxy\<close> (\<open>concrete/include/NBDProxy.hpp\<close>),
  \<open>ResponseManager\<close> (\<open>ResponseManager.hpp\<close>) and \<open>MinionManager\<close> (\<open>MinionManager.hpp\<close>), the tickets on the
  heap, and the tasks the framework has queued.  A \<open>std::shared_ptr<Ticket>\<close> is an index into the list of
  tickets allocated so far, a callback object of the response manager is a number.

  The kernel header \<open>linux/nbd.h\<close> is not part of the program: the record \<open>nbd_h\<close> stands for what the
  sources use of it, the two structures' layouts and the constants.
\<close>

section \<open>The kernel's NBD header\<close>

record nbd_request =
  rq_magic :: uint32_t
  rq_type :: uint32_t
  rq_handle :: "byte list"
  rq_from :: uint64_t
  rq_len :: uint32_t

record nbd_reply =
  rp_magic :: uint32_t
  rp_error :: uint32_t
  rp_handle :: "byte list"

record nbd_h =
  sizeof_request :: nat
  request_of :: "byte list \<Rightarrow> nbd_request"
  reply_bytes :: "nbd_reply \<Rightarrow> byte list"
  NBD_REQUEST_MAGIC :: uint32_t
  NBD_REPLY_MAGIC :: uint32_t
  NBD_CMD_READ :: uint32_t
  NBD_CMD_WRITE :: uint32_t
  NBD_CMD_DISC :: uint32_t
  NBD_CMD_FLUSH :: uint32_t
  NBD_CMD_TRIM :: uint32_t
  EIO :: uint32_t

section \<open>The objects\<close>

record NBDProxy =
  np_socket :: TCPClient
  m_responses :: "UID \<rightharpoonup> nbd_reply"
  np_dispatcher :: "nat list"
  np_factory :: "(FDMODE, TaskArgs \<Rightarrow> size_t \<Rightarrow> ATaskArgs \<times> size_t) Factory"

text \<open>The callback a \<open>MinionProxy\<close> stores: a lambda with the ticket, the segment index and the role.\<close>

type_synonym onDone = "nat \<times> nat \<times> MirrorRole"

record MinionManager =
  m_MBMinion :: size_t
  m_driveSize :: size_t
  m_minions :: "onDone MinionProxy list"
  mm_dispatcher :: "nat list"
  mm_reactor :: "(int \<times> FDMODE) \<rightharpoonup> nat"
  mm_factory :: "(uint32_t, MESSAGE_TYPE) Factory"

text \<open>A \<open>Response\<close> has no state; \<open>m_proxy\<close> tells whether the pointer was set.\<close>

record ResponseManager =
  m_requests :: "UID \<rightharpoonup> unit"
  m_tickets :: "UID \<rightharpoonup> nat"
  m_proxy :: bool

datatype master_command = ReadCommand | WriteCommand

text \<open>\<open>s_counter\<close> is \<open>UID::s_counter\<close>, shared by everything that constructs an identifier.\<close>

record master =
  s_counter :: size_t
  nbd_proxy :: NBDProxy
  manager :: MinionManager
  responses :: ResponseManager
  tickets :: "Ticket list"
  cmd_factory :: "(int, master_command) Factory"
  tasks :: "ATaskArgs list"
  ms_log :: "log_entry list"

abbreviation on_nbd :: "(NBDProxy, 'a) cpp \<Rightarrow> (master, 'a) cpp" where
  "on_nbd \<equiv> zoom nbd_proxy (\<lambda>p m. m\<lparr>nbd_proxy := p\<rparr>)"

abbreviation on_mm :: "(MinionManager, 'a) cpp \<Rightarrow> (master, 'a) cpp" where
  "on_mm \<equiv> zoom manager (\<lambda>p m. m\<lparr>manager := p\<rparr>)"

abbreviation on_rm :: "(ResponseManager, 'a) cpp \<Rightarrow> (master, 'a) cpp" where
  "on_rm \<equiv> zoom responses (\<lambda>p m. m\<lparr>responses := p\<rparr>)"

definition Log :: "string \<Rightarrow> Severity \<Rightarrow> (master, unit) cpp" where
  "Log text sev = cmodify (\<lambda>m. m\<lparr>ms_log := ms_log m @ [(sev, text)]\<rparr>)"

lemma Log_run [cpp_simps]: "Log text sev m = Inr (Inr (), m\<lparr>ms_log := ms_log m @ [(sev, text)]\<rparr>)"
  by (simp add: Log_def cpp_simps)

lemma cbind_Log [cpp_simps]:
  "cbind (Log text sev) f m = f () (m\<lparr>ms_log := ms_log m @ [(sev, text)]\<rparr>)"
  by (simp add: Log_def cpp_simps)

end
