(* ===== verification/Nbd_Proxy.thy ===== *)
theory Nbd_Proxy
  imports Master_State
begin

unbundle bit_operations_syntax

text \<open>
  \<open>concrete/src/NBDProxy.cpp\<close> and the byte order functions of \<open>NBD.cpp\<close>: requests of the kernel's block
  device are received and become task arguments, results become replies.  \<open>h\<close> is the NBD header,
  \<open>heap_max\<close> the largest block \<open>new char[]\<close> grants, \<open>notify\<close> the callbacks registered on the proxy's dispatcher.
\<close>

section \<open>Model\<close>

text \<open>\<open>ntohl\<close> and \<open>htonl\<close> on a little-endian machine reverse the bytes in memory.\<close>

definition ntohl :: "uint32_t \<Rightarrow> uint32_t" where
  "ntohl w = word_of_nat (le_value (rev (le_bytes 4 (unat w))))"

definition htonl :: "uint32_t \<Rightarrow> uint32_t" where
  "htonl w = ntohl w"

definition Ntohll :: "uint64_t \<Rightarrow> uint64_t" where
  "Ntohll num =
     (let lo = ucast (num AND 0xffffffff) :: uint32_t;
          hi = ucast (drop_bit 32 num) :: uint32_t;
          lo = ntohl lo;
          hi = ntohl hi
      in push_bit 32 (ucast lo :: uint64_t) OR ucast hi)"

definition new_NBDProxy :: "TCPClient \<Rightarrow> NBDProxy" where
  "new_NBDProxy socket =
     \<lparr>np_socket = socket, m_responses = Map.empty, np_dispatcher = [],
      np_factory = Factory_Register MODE_WRITE new_NBDWriteArgs
        (Factory_Register MODE_READ new_NBDReadArgs Map.empty)\<rparr>"

definition np_Receive :: "nat \<Rightarrow> (NBDProxy, byte list) cpp" where
  "np_Receive n = zoom np_socket (\<lambda>s p. p\<lparr>np_socket := s\<rparr>) (TCPClient_Receive n)"

definition np_Send :: "byte list \<Rightarrow> nat \<Rightarrow> (NBDProxy, unit) cpp" where
  "np_Send bs n = zoom np_socket (\<lambda>s p. p\<lparr>np_socket := s\<rparr>) (TCPClient_Send bs n)"

text \<open>The arguments object: the factory's creator draws the identifier.\<close>

definition np_Create :: "FDMODE \<Rightarrow> TaskArgs \<Rightarrow> (master, ATaskArgs) cpp" where
  "np_Create key args =
     cbind (cget (np_factory \<circ> nbd_proxy)) (\<lambda>f.
     cbind (clift (Factory_Create f key)) (\<lambda>creator.
     cbind (cget (\<lambda>m. creator args (s_counter m))) (\<lambda>(createdArgs, counter).
     cbind (cmodify (\<lambda>m. m\<lparr>s_counter := counter\<rparr>)) (\<lambda>_.
     cret createdArgs))))"

text \<open>The data of the request: the outcome of the \<open>switch\<close>, \<open>None\<close> for the early return.\<close>

definition np_switch :: "nbd_h \<Rightarrow> nat \<Rightarrow> uint32_t \<Rightarrow> uint32_t \<Rightarrow> (master, char_array option) cpp" where
  "np_switch h heap_max type len =
     (if type = NBD_CMD_READ h then cret (Some None)
      else if type = NBD_CMD_WRITE h then
        cbind (clift (guard (unat len \<le> heap_max) (Throw bad_alloc))) (\<lambda>_.
        cbind (on_nbd (np_Receive (unat len))) (\<lambda>data.
        cret (Some (Some data))))
      else if type = NBD_CMD_DISC h \<or> type = NBD_CMD_FLUSH h \<or> type = NBD_CMD_TRIM h then
        cbind (Log ''NBDProxy: received non-RW command'' SEV_WARNING) (\<lambda>_. cret None)
      else cthrow (runtime_error ''Unknown request''))"

definition NBDProxy_GetTaskArgs :: "nbd_h \<Rightarrow> nat \<Rightarrow> (nat \<Rightarrow> ATaskArgs \<Rightarrow> (master, unit) cpp)
    \<Rightarrow> (master, ATaskArgs option) cpp" where
  "NBDProxy_GetTaskArgs h heap_max notify =
     cbind (on_nbd (np_Receive (sizeof_request h))) (\<lambda>buffer.
     let request = request_of h buffer;
         len = ntohl (rq_len request);
         offset = Ntohll (rq_from request)
     in if rq_magic request \<noteq> htonl (NBD_REQUEST_MAGIC h)
        then cthrow (runtime_error ''NBD_REQUEST_MAGIC failed'')
        else
          cbind (np_switch h heap_max (ntohl (rq_type request)) len) (\<lambda>sw.
          case sw of
            None \<Rightarrow> cret None
          | Some data \<Rightarrow>
              cbind (np_Create (if data = None then MODE_READ else MODE_WRITE)
                      (new_TaskArgs offset (ucast len) data)) (\<lambda>createdArgs.
              let reply = \<lparr>rp_magic = htonl (NBD_REPLY_MAGIC h), rp_error = htonl 0,
                    rp_handle = rq_handle request\<rparr>
              in cbind (on_nbd (cmodify (\<lambda>p.
                   p\<lparr>m_responses := map_emplace (args_GetUID createdArgs) reply (m_responses p)\<rparr>))) (\<lambda>_.
                 cbind (cget (np_dispatcher \<circ> nbd_proxy)) (\<lambda>cbs.
                 cbind (cforeach (\<lambda>cb. notify cb createdArgs) cbs) (\<lambda>_.
                 cret (Some createdArgs)))))))"

definition RegisterForNewTaskArgs :: "nat \<Rightarrow> (NBDProxy, unit) cpp" where
  "RegisterForNewTaskArgs callback =
     cmodify (\<lambda>p. p\<lparr>np_dispatcher := np_dispatcher p @ [callback]\<rparr>)"

definition OnNBDResponse :: "nbd_h \<Rightarrow> TaskResult \<Rightarrow> (master, unit) cpp" where
  "OnNBDResponse h result =
     cbind (cget (\<lambda>m. m_responses (nbd_proxy m) (res_uid result))) (\<lambda>it.
     case it of
       None \<Rightarrow> Log ''NBDProxy: unknown UID response'' SEV_WARNING
     | Some reply \<Rightarrow>
         cbind (on_nbd (cmodify (\<lambda>p.
           p\<lparr>m_responses := map_erase (res_uid result) (m_responses p)\<rparr>))) (\<lambda>_.
         let reply = (if res_result result then reply else reply\<lparr>rp_error := htonl (EIO h)\<rparr>)
         in cbind (on_nbd (np_Send (reply_bytes h reply) (length (reply_bytes h reply)))) (\<lambda>_.
            cbind (case (res_result result, res_buffer result) of
                     (True, Some buffer) \<Rightarrow> on_nbd (np_Send buffer (unat (res_length result)))
                   | _ \<Rightarrow> cret ()) (\<lambda>_.
            Log ''reply sent!'' SEV_DEBUG))))"

section \<open>Byte order\<close>

lemma ntohl_bytes:
  assumes "length bs = 4"
  shows "ntohl (word_of_nat (le_value bs)) = word_of_nat (le_value (rev bs))"
proof -
  have "le_value bs < 2 ^ 32" using le_value_less [of bs] assms by simp
  then have "unat (word_of_nat (le_value bs) :: uint32_t) = le_value bs"
    by (simp add: unat_of_nat)
  with le_bytes_le_value [OF assms] show ?thesis by (simp add: ntohl_def)
qed

lemma unat_word_le_value4: "length bs = 4 \<Longrightarrow> unat (word_of_nat (le_value bs) :: uint32_t) = le_value bs"
  using le_value_less [of bs] by (simp add: unat_of_nat)

lemma htonl_ntohl [simp]: "htonl (ntohl w) = w" "ntohl (htonl w) = w"
proof -
  have "unat w < 2 ^ 32" using unsigned_less [of w] by simp
  have "ntohl w = word_of_nat (le_value (rev (le_bytes 4 (unat w))))" by (simp add: ntohl_def)
  with ntohl_bytes [of "rev (le_bytes 4 (unat w))"] show "htonl (ntohl w) = w" "ntohl (htonl w) = w"
    by (simp_all add: htonl_def)
qed

lemma Ntohll_halves:
  assumes "A < 2 ^ 32" and "B < 2 ^ 32" and n: "unat num = A + 2 ^ 32 * B"
  shows "Ntohll num =
    word_of_nat (unat (ntohl (word_of_nat B)) + 2 ^ 32 * unat (ntohl (word_of_nat A)))"
proof -
  have m: "num AND 0xffffffff = take_bit 32 num"
    by (simp add: take_bit_eq_mask mask_eq_exp_minus_1)
  have "unat (take_bit 32 num) = A"
    unfolding unsigned_take_bit_eq n using assms(1) by (simp add: take_bit_eq_mod)
  then have lo: "(ucast (num AND 0xffffffff) :: uint32_t) = word_of_nat A"
    unfolding m by (metis of_nat_unat)
  have "unat (drop_bit 32 num) = B"
    unfolding unsigned_drop_bit_eq n using assms(1,2) by (simp add: drop_bit_eq_div take_bit_eq_mod)
  then have hi: "(ucast (drop_bit 32 num) :: uint32_t) = word_of_nat B"
    by (metis of_nat_unat)
  have "push_bit 32 (ucast x :: uint64_t) OR ucast y = word_of_nat (unat y + 2 ^ 32 * unat x)"
    for x y :: uint32_t
  proof -
    have "push_bit 32 (ucast x :: uint64_t) AND ucast y = 0"
      by (rule bit_word_eqI) (auto simp: bit_and_iff bit_push_bit_iff bit_simps dest: bit_imp_le_length)
    then have "push_bit 32 (ucast x :: uint64_t) OR ucast y = push_bit 32 (ucast x) + ucast y"
      by (rule disjunctive_add_eq_or [symmetric])
    also have "\<dots> = word_of_nat (unat y + 2 ^ 32 * unat x)"
      by (simp add: push_bit_eq_mult)
    finally show ?thesis .
  qed
  then show ?thesis by (simp add: Ntohll_def Let_def lo hi)
qed

lemma Ntohll_bytes:
  assumes "length bs = 8"
  shows "Ntohll (word_of_nat (le_value bs)) = word_of_nat (le_value (rev bs))"
proof -
  let ?a = "take 4 bs" and ?b = "drop 4 bs"
  have l: "length ?a = 4" "length ?b = 4" using assms by simp_all
  have "rev bs = rev ?b @ rev ?a" by (metis append_take_drop_id rev_append)
  then have r: "le_value (rev bs) = le_value (rev ?b) + 2 ^ 32 * le_value (rev ?a)"
    using l by (simp add: le_value_append)
  have "unat (word_of_nat (le_value bs) :: uint64_t) = le_value bs"
    using le_value_less [of bs] assms by (simp add: unat_of_nat)
  also have "\<dots> = le_value ?a + 2 ^ 32 * le_value ?b"
    using le_value_append [of ?a ?b] l by simp
  finally have "Ntohll (word_of_nat (le_value bs)) = word_of_nat
      (unat (ntohl (word_of_nat (le_value ?b))) + 2 ^ 32 * unat (ntohl (word_of_nat (le_value ?a))))"
    by (rule Ntohll_halves [rotated 2]) (use le_value_less [of ?a] le_value_less [of ?b] l in simp_all)
  also have "\<dots> = word_of_nat (le_value (rev bs))"
    unfolding r using l unat_word_le_value4 [of "rev ?a"] unat_word_le_value4 [of "rev ?b"]
    by (simp only: ntohl_bytes length_rev)
  finally show ?thesis .
qed

section \<open>Runs of the proxy\<close>

text \<open>Every coming \<open>send\<close> makes progress.\<close>

definition sends_ok :: "TCPClient \<Rightarrow> bool" where
  "sends_ok c \<longleftrightarrow> (\<forall>n \<in> set (tcp_sends c). 0 < n)"

lemma np_Send_ok:
  assumes "sends_ok (np_socket p)" and "sz \<le> length bs"
  shows "\<exists>s. np_Send bs sz p = Inr (Inr (), p\<lparr>np_socket := s\<rparr>) \<and> sends_ok s \<and>
    tcp_in s = tcp_in (np_socket p) \<and> tcp_out s = tcp_out (np_socket p) @ take sz bs"
proof -
  from assms(1) obtain ns where "Send_loop (take sz bs) (tcp_sends (np_socket p)) = (Inr (), take sz bs, ns)"
    "set ns \<subseteq> set (tcp_sends (np_socket p))"
    using Send_loop_all unfolding sends_ok_def by blast
  with assms show ?thesis
    by (intro exI [of _ "(np_socket p)\<lparr>tcp_out := tcp_out (np_socket p) @ take sz bs, tcp_sends := ns\<rparr>"])
      (auto simp: np_Send_def zoom_run TCPClient_Send_def sends_ok_def)
qed

lemma np_Receive_ok:
  assumes "n \<le> length (stream_of (tcp_in (np_socket p)))"
  shows "\<exists>evs. np_Receive n p = Inr (Inr (take n (stream_of (tcp_in (np_socket p)))),
      p\<lparr>np_socket := (np_socket p)\<lparr>tcp_in := evs\<rparr>\<rparr>) \<and>
    stream_of evs = drop n (stream_of (tcp_in (np_socket p)))"
proof -
  from Receive_loop_stream [of n "tcp_in (np_socket p)"] assms obtain evs where
    "Receive_loop n (tcp_in (np_socket p)) = (Inr (take n (stream_of (tcp_in (np_socket p)))), evs)"
    "stream_of evs = drop n (stream_of (tcp_in (np_socket p)))" by auto
  then show ?thesis by (auto simp: np_Receive_def zoom_run TCPClient_Receive_def)
qed

text \<open>What the kernel's client gets for a result: the reply, and the data of a successful read.\<close>

definition answer_bytes :: "nbd_h \<Rightarrow> nbd_reply \<Rightarrow> TaskResult \<Rightarrow> byte list" where
  "answer_bytes h rp r =
     (if res_result r
      then reply_bytes h rp @
        (case res_buffer r of None \<Rightarrow> [] | Some b \<Rightarrow> take (unat (res_length r)) b)
      else reply_bytes h (rp\<lparr>rp_error := htonl (EIO h)\<rparr>))"

lemma OnNBDResponse_run:
  assumes "m_responses (nbd_proxy m) (res_uid r) = Some rp" and ok: "sends_ok (np_socket (nbd_proxy m))"
    and "\<And>b. res_buffer r = Some b \<Longrightarrow> unat (res_length r) \<le> length b"
  shows "\<exists>s. OnNBDResponse h r m = Inr (Inr (), m\<lparr>ms_log := ms_log m @ [(SEV_DEBUG, ''reply sent!'')], nbd_proxy := (nbd_proxy m)\<lparr>np_socket := s,
      m_responses := map_erase (res_uid r) (m_responses (nbd_proxy m))\<rparr>\<rparr>) \<and> sends_ok s \<and>
    tcp_in s = tcp_in (np_socket (nbd_proxy m)) \<and>
    tcp_out s = tcp_out (np_socket (nbd_proxy m)) @ answer_bytes h rp r"
proof -
  define rp' where "rp' = (if res_result r then rp else rp\<lparr>rp_error := htonl (EIO h)\<rparr>)"
  define p1 where "p1 = (nbd_proxy m)\<lparr>m_responses := map_erase (res_uid r) (m_responses (nbd_proxy m))\<rparr>"
  have s1: "sends_ok (np_socket p1)" using ok by (simp add: p1_def)
  from np_Send_ok [OF s1 order.refl, of "reply_bytes h rp'"] obtain s where
    a: "np_Send (reply_bytes h rp') (length (reply_bytes h rp')) p1 = Inr (Inr (), p1\<lparr>np_socket := s\<rparr>)"
      "sends_ok s" "tcp_in s = tcp_in (np_socket p1)"
      "tcp_out s = tcp_out (np_socket p1) @ reply_bytes h rp'" by auto
  have run: "OnNBDResponse h r m = cbind (case (res_result r, res_buffer r) of
      (True, Some buffer) \<Rightarrow> on_nbd (np_Send buffer (unat (res_length r)))
    | _ \<Rightarrow> cret ()) (\<lambda>_. Log ''reply sent!'' SEV_DEBUG) (m\<lparr>nbd_proxy := p1\<lparr>np_socket := s\<rparr>\<rparr>)"
    using assms(1) a(1)
    by (simp add: OnNBDResponse_def cpp_simps Let_def rp'_def [symmetric] cbind_def p1_def)
  show ?thesis
  proof (cases "res_result r \<and> res_buffer r \<noteq> None")
    case True
    then obtain b where b: "res_result r" "res_buffer r = Some b" by auto
    have s2: "sends_ok (np_socket (p1\<lparr>np_socket := s\<rparr>))" using a(2) by simp
    from np_Send_ok [OF s2 assms(3) [OF b(2)]] obtain s' where
      "np_Send b (unat (res_length r)) (p1\<lparr>np_socket := s\<rparr>) = Inr (Inr (), p1\<lparr>np_socket := s'\<rparr>)"
      "sends_ok s'" "tcp_in s' = tcp_in s" "tcp_out s' = tcp_out s @ take (unat (res_length r)) b"
      by auto
    with a b show ?thesis
      unfolding run by (intro exI [of _ s']) (simp add: cbind_run zoom_run answer_bytes_def rp'_def p1_def cpp_simps)
  next
    case False
    then have "OnNBDResponse h r m =
        Inr (Inr (), m\<lparr>ms_log := ms_log m @ [(SEV_DEBUG, ''reply sent!'')], nbd_proxy := p1\<lparr>np_socket := s\<rparr>\<rparr>)"
      unfolding run by (auto simp: cpp_simps split: option.split bool.split)
    with a False show ?thesis
      by (intro exI [of _ s]) (auto simp: answer_bytes_def rp'_def p1_def split: option.split)
  qed
qed

text \<open>The task a request becomes.\<close>

definition task_of :: "nbd_request \<Rightarrow> size_t \<Rightarrow> char_array \<Rightarrow> ATaskArgs" where
  "task_of rq counter data =
     (let ta = new_TaskArgs (Ntohll (rq_from rq)) (ucast (ntohl (rq_len rq))) data
      in case data of None \<Rightarrow> NBDReadArgs (UID counter) ta | Some _ \<Rightarrow> NBDWriteArgs (UID counter) ta)"

definition proxy_registered :: "NBDProxy \<Rightarrow> bool" where
  "proxy_registered p \<longleftrightarrow> np_factory p MODE_READ = Some new_NBDReadArgs \<and>
     np_factory p MODE_WRITE = Some new_NBDWriteArgs"

text \<open>
  The data of a request on the stream: none for a read, \<open>len\<close> bytes after the header for a write.
\<close>

definition payload :: "nbd_h \<Rightarrow> byte list \<Rightarrow> char_array option" where
  "payload h st =
     (let rq = request_of h (take (sizeof_request h) st); rest = drop (sizeof_request h) st;
          n = unat (ntohl (rq_len rq))
      in if ntohl (rq_type rq) = NBD_CMD_READ h then Some None
         else if ntohl (rq_type rq) = NBD_CMD_WRITE h \<and> n \<le> length rest then Some (Some (take n rest))
         else None)"

section \<open>Properties\<close>

text \<open>
  C23. \<open>Ntohll\<close> converts between network and host order: the eight bytes of the result are those of the
  argument in reverse, so a big-endian offset on the wire is read as its value, and converting twice
  changes nothing.
\<close>

theorem ntohll_reverses_bytes:
  "le_bytes 8 (unat (Ntohll w)) = rev (le_bytes 8 (unat w)) \<and> Ntohll (Ntohll w) = w"
proof -
  have r: "Ntohll v = word_of_nat (le_value (rev (le_bytes 8 (unat v))))" for v
    using Ntohll_bytes [of "le_bytes 8 (unat v)"] by simp
  have "unat (Ntohll w) = le_value (rev (le_bytes 8 (unat w)))"
    unfolding r using le_value_less [of "rev (le_bytes 8 (unat w))"] by (simp add: unat_of_nat)
  then have b: "le_bytes 8 (unat (Ntohll w)) = rev (le_bytes 8 (unat w))" by (simp add: le_bytes_le_value)
  then have "Ntohll (Ntohll w) = w" using r [of "Ntohll w"] by simp
  with b show ?thesis by simp
qed

text \<open>
  A request is answered once: the first result for a waiting request sends exactly the reply, with the
  data of a successful read or an \<open>EIO\<close> for a failure, and forgets the request; a second result for it
  sends nothing and is only logged.  Other requests keep waiting.
\<close>

theorem reply_sent_once:
  assumes "m_responses (nbd_proxy m) u = Some rp" and "sends_ok (np_socket (nbd_proxy m))"
    and "res_uid r = u" and "res_uid r' = u" and "\<And>b. res_buffer r = Some b \<Longrightarrow> unat (res_length r) \<le> length b"
  shows "\<exists>m1. OnNBDResponse h r m = Inr (Inr (), m1) \<and>
    tcp_out (np_socket (nbd_proxy m1)) = tcp_out (np_socket (nbd_proxy m)) @ answer_bytes h rp r \<and>
    m_responses (nbd_proxy m1) = (m_responses (nbd_proxy m))(u := None) \<and>
    OnNBDResponse h r' m1 =
      Inr (Inr (), m1\<lparr>ms_log := ms_log m1 @ [(SEV_WARNING, ''NBDProxy: unknown UID response'')]\<rparr>)"
proof -
  obtain s where s: "OnNBDResponse h r m = Inr (Inr (), m\<lparr>ms_log := ms_log m @ [(SEV_DEBUG, ''reply sent!'')],
      nbd_proxy := (nbd_proxy m)\<lparr>np_socket := s, m_responses := map_erase u (m_responses (nbd_proxy m))\<rparr>\<rparr>)"
    "tcp_out s = tcp_out (np_socket (nbd_proxy m)) @ answer_bytes h rp r"
    using OnNBDResponse_run [of m r rp h] assms by metis
  then show ?thesis using assms(4) by (simp add: map_erase_def OnNBDResponse_def cpp_simps)
qed

text \<open>
  Requests the proxy does not serve: a header with a wrong magic number and an unknown command throw
  (nothing on the way to the reactor loop catches it), and \<open>DISC\<close>, \<open>FLUSH\<close> and \<open>TRIM\<close> are consumed and
  logged.  None of them leaves a waiting reply, so the client is never answered for them.
\<close>

theorem unserved_requests:
  assumes "stream_of (tcp_in (np_socket (nbd_proxy m))) = hdr @ rest" and "length hdr = sizeof_request h"
    and "rq_magic (request_of h hdr) \<noteq> htonl (NBD_REQUEST_MAGIC h) \<or>
      ntohl (rq_type (request_of h hdr)) \<notin> {NBD_CMD_READ h, NBD_CMD_WRITE h}"
  shows "\<exists>r m1. NBDProxy_GetTaskArgs h heap_max notify m = Inr (r, m1) \<and>
    r = (if rq_magic (request_of h hdr) \<noteq> htonl (NBD_REQUEST_MAGIC h)
           then Inl (runtime_error ''NBD_REQUEST_MAGIC failed'')
         else if ntohl (rq_type (request_of h hdr)) \<in> {NBD_CMD_DISC h, NBD_CMD_FLUSH h, NBD_CMD_TRIM h}
           then Inr None
         else Inl (runtime_error ''Unknown request'')) \<and>
    stream_of (tcp_in (np_socket (nbd_proxy m1))) = rest \<and>
    tcp_out (np_socket (nbd_proxy m1)) = tcp_out (np_socket (nbd_proxy m)) \<and>
    m_responses (nbd_proxy m1) = m_responses (nbd_proxy m) \<and> s_counter m1 = s_counter m"
proof -
  obtain evs where evs: "np_Receive (sizeof_request h) (nbd_proxy m) =
      Inr (Inr hdr, (nbd_proxy m)\<lparr>np_socket := (np_socket (nbd_proxy m))\<lparr>tcp_in := evs\<rparr>\<rparr>)" "stream_of evs = rest"
    using np_Receive_ok [of "sizeof_request h" "nbd_proxy m"] assms(1,2) by auto
  let ?m = "m\<lparr>nbd_proxy := (nbd_proxy m)\<lparr>np_socket := (np_socket (nbd_proxy m))\<lparr>tcp_in := evs\<rparr>\<rparr>\<rparr>"
  have rcv: "cbind (on_nbd (np_Receive (sizeof_request h))) f m = f hdr ?m"
    for f :: "byte list \<Rightarrow> (master, ATaskArgs option) cpp"
    using evs by (simp add: zoom_run cbind_def)
  have sw: "np_switch h heap_max ty len ?m =
      (if ty \<in> {NBD_CMD_DISC h, NBD_CMD_FLUSH h, NBD_CMD_TRIM h}
       then Inr (Inr None, ?m\<lparr>ms_log := ms_log m @ [(SEV_WARNING, ''NBDProxy: received non-RW command'')]\<rparr>)
       else Inr (Inl (runtime_error ''Unknown request''), ?m))"
    if "ty \<notin> {NBD_CMD_READ h, NBD_CMD_WRITE h}" for ty len
    using that by (simp add: np_switch_def cpp_simps)
  show ?thesis
    unfolding NBDProxy_GetTaskArgs_def rcv Let_def
    using assms(3) evs(2) sw by (auto simp: cpp_simps cbind_def)
qed

section \<open>Witnesses\<close>

text \<open>A header layout small enough to evaluate: the magic number and the command, one byte each.\<close>

definition tiny_h :: nbd_h where
  "tiny_h = \<lparr>sizeof_request = 2, request_of = (\<lambda>b. \<lparr>rq_magic = htonl (ucast (b ! 0)), rq_type = htonl (ucast (b ! 1)),
       rq_handle = [], rq_from = 0, rq_len = 0\<rparr>), reply_bytes = (\<lambda>r. rp_handle r),
     NBD_REQUEST_MAGIC = 9, NBD_REPLY_MAGIC = 9, NBD_CMD_READ = 0, NBD_CMD_WRITE = 1, NBD_CMD_DISC = 2,
     NBD_CMD_FLUSH = 3, NBD_CMD_TRIM = 4, EIO = 5\<rparr>"

definition tiny_master :: "byte list \<Rightarrow> (UID \<rightharpoonup> nbd_reply) \<Rightarrow> master" where
  "tiny_master st rs = \<lparr>s_counter = 0,
     nbd_proxy = (new_NBDProxy \<lparr>tcp_in = [Bytes st], tcp_sends = [], tcp_out = []\<rparr>)\<lparr>m_responses := rs\<rparr>,
     manager = \<lparr>m_MBMinion = 0, m_driveSize = 0, m_minions = [], mm_dispatcher = [], mm_reactor = Map.empty,
       mm_factory = Map.empty\<rparr>,
     responses = \<lparr>m_requests = Map.empty, m_tickets = Map.empty, m_proxy = True\<rparr>, tickets = [],
     cmd_factory = Map.empty, tasks = [], ms_log = []\<rparr>"

theorem reply_sent_once_witness:
  "\<exists>m1. OnNBDResponse tiny_h \<lparr>res_uid = UID 4, res_result = True, res_length = 2, res_buffer = Some [65, 66]\<rparr>
      (tiny_master [1] [UID 4 \<mapsto> \<lparr>rp_magic = 0, rp_error = 0, rp_handle = [1, 2]\<rparr>]) = Inr (Inr (), m1) \<and>
    tcp_out (np_socket (nbd_proxy m1)) = [1, 2, 65, 66]"
proof -
  let ?rp = "\<lparr>rp_magic = 0, rp_error = 0, rp_handle = [1, 2]\<rparr>"
  let ?m = "tiny_master [1] [UID 4 \<mapsto> ?rp]"
  let ?r = "\<lparr>res_uid = UID 4, res_result = True, res_length = 2, res_buffer = Some [65, 66]\<rparr>"
  have "\<exists>m1. OnNBDResponse tiny_h ?r ?m = Inr (Inr (), m1) \<and>
    tcp_out (np_socket (nbd_proxy m1)) = tcp_out (np_socket (nbd_proxy ?m)) @ answer_bytes tiny_h ?rp ?r \<and>
    m_responses (nbd_proxy m1) = (m_responses (nbd_proxy ?m))(UID 4 := None) \<and>
    OnNBDResponse tiny_h ?r m1 =
      Inr (Inr (), m1\<lparr>ms_log := ms_log m1 @ [(SEV_WARNING, ''NBDProxy: unknown UID response'')]\<rparr>)"
    by (rule reply_sent_once) (simp_all add: tiny_master_def sends_ok_def new_NBDProxy_def)
  then show ?thesis
    by (auto simp: tiny_master_def tiny_h_def answer_bytes_def new_NBDProxy_def)
qed

theorem unserved_requests_witness:
  "\<exists>m1. NBDProxy_GetTaskArgs tiny_h 10 (\<lambda>_ _. cret ()) (tiny_master [9, 3, 5] Map.empty) = Inr (Inr None, m1) \<and>
    stream_of (tcp_in (np_socket (nbd_proxy m1))) = [5]"
  using unserved_requests [of "tiny_master [9, 3, 5] Map.empty" "[9, 3]" "[5]" tiny_h 10 "\<lambda>_ _. cret ()"]
  by (auto simp: tiny_master_def tiny_h_def new_NBDProxy_def)

end
