(* ===== verification/Minion_Manager.thy ===== *)
theory Minion_Manager
  imports Master_State
begin

text \<open>
  \<open>concrete/src/MinionManager.cpp\<close>: a request becomes a ticket and two messages per segment, one to
  the primary and one to the backup minion.  Parameters: \<open>sendto\<close>, \<open>g\<close>, \<open>past\<close>, \<open>stack\<close>, \<open>heap_max\<close> as in
  the proxies; \<open>notify\<close> stands for the callbacks registered for new tickets, \<open>notify_result\<close> for those
  registered on a ticket.
\<close>

section \<open>Model\<close>

definition new_MinionManager :: MinionManager where
  "new_MinionManager = \<lparr>m_MBMinion = 0, m_driveSize = 0, m_minions = [], mm_dispatcher = [],
     mm_reactor = Map.empty, mm_factory = Map.empty\<rparr>"

definition ValidateRange :: "size_t \<Rightarrow> size_t \<Rightarrow> MinionManager \<Rightarrow> unit res" where
  "ValidateRange offset len mm =
     guard (\<not> offset + len > m_driveSize mm)
       (Throw (out_of_range ''MinionManager: I/O beyond drive size''))"

text \<open>The loop that registers every minion's socket with the reactor.\<close>

fun register_minions :: "nat \<Rightarrow> onDone MinionProxy list \<Rightarrow> ((int \<times> FDMODE) \<rightharpoonup> nat)
    \<Rightarrow> ((int \<times> FDMODE) \<rightharpoonup> nat)" where
  "register_minions i [] reactor = reactor"
| "register_minions i (p # ps) reactor =
     register_minions (Suc i) ps (map_emplace (GetMinionFD p, MODE_READ) i reactor)"

definition MinionManager_Init :: "size_t \<Rightarrow> onDone MinionProxy list \<Rightarrow> (MinionManager, unit) cpp" where
  "MinionManager_Init mbMinion minions =
     (if minions = [] then cthrow (invalid_argument ''MinionManager: minions list is empty'')
      else if mbMinion = 0 then cthrow (invalid_argument ''MinionManager: chunk size must be > 0'')
      else
        cbind (cmodify (\<lambda>mm. mm\<lparr>m_MBMinion := mbMinion,
          m_driveSize := word_of_nat (length minions) * mbMinion,
          m_minions := m_minions mm @ minions\<rparr>)) (\<lambda>_.
        cbind (cmodify (\<lambda>mm. mm\<lparr>mm_reactor := register_minions 0 (m_minions mm) (mm_reactor mm)\<rparr>)) (\<lambda>_.
        cmodify (\<lambda>mm. mm\<lparr>mm_factory :=
          Factory_Register (type_code WRITE_RECEIVE) WRITE_RECEIVE
          (Factory_Register (type_code READ_RECEIVE) READ_RECEIVE (mm_factory mm))\<rparr>))))"

definition GetDriveSize :: "MinionManager \<Rightarrow> size_t" where
  "GetDriveSize mm = m_driveSize mm"

definition RegisterForNewTickets :: "nat \<Rightarrow> (MinionManager, unit) cpp" where
  "RegisterForNewTickets callback = cmodify (\<lambda>mm. mm\<lparr>mm_dispatcher := mm_dispatcher mm @ [callback]\<rparr>)"

text \<open>\<open>std::make_shared<Ticket>(...)\<close>\<close>

definition make_ticket :: "Ticket \<Rightarrow> (master, nat) cpp" where
  "make_ticket t =
     cbind (cget (length \<circ> tickets)) (\<lambda>ref.
     cbind (cmodify (\<lambda>m. m\<lparr>tickets := tickets m @ [t]\<rparr>)) (\<lambda>_. cret ref))"

definition get_minion :: "nat \<Rightarrow> master \<Rightarrow> onDone MinionProxy" where
  "get_minion i m = m_minions (manager m) ! i"

definition put_minion :: "nat \<Rightarrow> onDone MinionProxy \<Rightarrow> master \<Rightarrow> master" where
  "put_minion i p m = m\<lparr>manager := (manager m)\<lparr>m_minions := (m_minions (manager m))[i := p]\<rparr>\<rparr>"

text \<open>\<open>m_minions[idx]->...\<close>\<close>

definition at_minion :: "size_t \<Rightarrow> (onDone MinionProxy, 'a) cpp \<Rightarrow> (master, 'a) cpp" where
  "at_minion idx method =
     cbind (cget (length \<circ> m_minions \<circ> manager)) (\<lambda>n.
     if unat idx < n then zoom (get_minion (unat idx)) (put_minion (unat idx)) method
     else clift (Inl (UB VectorIndex)))"

text \<open>The part that \<open>AddReadTask\<close> and \<open>AddWriteTask\<close> have in common, up to the loop.\<close>

definition open_ticket :: "(nat \<Rightarrow> nat \<times> UID \<Rightarrow> (master, unit) cpp) \<Rightarrow> UID \<Rightarrow> TicketOp \<Rightarrow> size_t \<Rightarrow> size_t
    \<Rightarrow> (master, nat \<times> StripeSegment list) cpp" where
  "open_ticket notify uid opr offset len =
     cbind (cget manager) (\<lambda>mm.
     cbind (clift (ValidateRange offset len mm)) (\<lambda>_.
     cbind (clift (Split offset len (m_MBMinion mm) (word_of_nat (length (m_minions mm))))) (\<lambda>segments.
     cbind (make_ticket (new_Ticket uid opr len segments)) (\<lambda>ticket.
     cbind (cforeach (\<lambda>cb. notify cb (ticket, uid)) (mm_dispatcher mm)) (\<lambda>_.
     cret (ticket, segments))))))"

definition MinionManager_AddReadTask :: "(datagram \<Rightarrow> bool) \<Rightarrow> (nat \<Rightarrow> byte)
    \<Rightarrow> (nat \<Rightarrow> nat \<times> UID \<Rightarrow> (master, unit) cpp) \<Rightarrow> UID \<Rightarrow> size_t \<Rightarrow> size_t \<Rightarrow> (master, unit) cpp" where
  "MinionManager_AddReadTask sendto g notify uid offset len =
     cbind (open_ticket notify uid OP_READ offset len) (\<lambda>(ticket, segments).
     cforeach (\<lambda>(segIdx, seg).
       cbind (at_minion (primaryMinionIndex seg) (MinionProxy_AddReadTask sendto g uid (localOffset seg)
         (segLength seg) (ticket, segIdx, PRIMARY))) (\<lambda>_.
       at_minion (backupMinionIndex seg) (MinionProxy_AddReadTask sendto g uid (localOffset seg)
         (segLength seg) (ticket, segIdx, BACKUP))))
       (enumerate 0 segments))"

text \<open>\<open>new char[seg.length]\<close> and the \<open>memcpy\<close> from \<open>buffer.get() + seg.bufferOffset\<close>.\<close>

definition slice_of :: "(nat \<Rightarrow> byte) \<Rightarrow> nat \<Rightarrow> char_array \<Rightarrow> StripeSegment \<Rightarrow> byte list res" where
  "slice_of g heap_max buffer seg =
     rbind (guard (unat (segLength seg) \<le> heap_max) (Throw bad_alloc)) (\<lambda>_.
     case buffer of
       None \<Rightarrow> if segLength seg = 0 then Inr [] else Inl (UB NullPointer)
     | Some b \<Rightarrow> memcpy (new_char g (unat (segLength seg))) 0 (drop (unat (bufferOffset seg)) b)
                  (unat (segLength seg)))"

definition MinionManager_AddWriteTask :: "(datagram \<Rightarrow> bool) \<Rightarrow> (nat \<Rightarrow> byte) \<Rightarrow> byte list \<Rightarrow> nat
    \<Rightarrow> (nat \<Rightarrow> nat \<times> UID \<Rightarrow> (master, unit) cpp) \<Rightarrow> UID \<Rightarrow> size_t \<Rightarrow> size_t \<Rightarrow> char_array
    \<Rightarrow> (master, unit) cpp" where
  "MinionManager_AddWriteTask sendto g past heap_max notify uid offset len buffer =
     cbind (open_ticket notify uid OP_WRITE offset len) (\<lambda>(ticket, segments).
     cforeach (\<lambda>(segIdx, seg).
       cbind (clift (slice_of g heap_max buffer seg)) (\<lambda>slice.
       cbind (at_minion (primaryMinionIndex seg) (MinionProxy_AddWriteTask sendto g past uid
         (localOffset seg) (segLength seg) (Some slice) (ticket, segIdx, PRIMARY))) (\<lambda>_.
       at_minion (backupMinionIndex seg) (MinionProxy_AddWriteTask sendto g past uid
         (localOffset seg) (segLength seg) (Some slice) (ticket, segIdx, BACKUP)))))
       (enumerate 0 segments))"

text \<open>
  The lambdas stored in the proxies: \<open>ticket->OnMirrorResponse(segIdx, role, msg)\<close>.  When the ticket
  completes, the default constructor of the \<open>UID\<close> in \<open>TaskResult\<close> draws an identifier that is
  then overwritten.
\<close>

definition call_onDone :: "(nat \<Rightarrow> byte) \<Rightarrow> (nat \<Rightarrow> TaskResult \<Rightarrow> (master, unit) cpp) \<Rightarrow> onDone \<Rightarrow> AMessage
    \<Rightarrow> (master, unit) cpp" where
  "call_onDone g notify_result = (\<lambda>(ticket, segIdx, role) msg.
     cbind (cget (\<lambda>m. tickets m ! ticket)) (\<lambda>t.
     cbind (clift (OnMirrorResponse g segIdx role (Some msg) t)) (\<lambda>(t', out).
     cbind (cmodify (\<lambda>m. m\<lparr>tickets := (tickets m)[ticket := t'],
       s_counter := (if t_completed t' \<and> \<not> t_completed t then snd (UID_next (s_counter m))
                     else s_counter m)\<rparr>)) (\<lambda>_.
     cforeach (\<lambda>(cb, result). notify_result cb result) out))))"

text \<open>The reactor finds descriptor \<open>fd\<close> readable and runs what \<open>Init\<close> registered for it.\<close>

definition minion_readable :: "(nat \<Rightarrow> byte) \<Rightarrow> (nat \<Rightarrow> TaskResult \<Rightarrow> (master, unit) cpp) \<Rightarrow> byte list \<Rightarrow> nat
    \<Rightarrow> int \<Rightarrow> datagram option \<Rightarrow> (master, unit) cpp" where
  "minion_readable g notify_result stack heap_max fd recvfrom =
     cbind (cget (\<lambda>m. mm_reactor (manager m) (fd, MODE_READ))) (\<lambda>func.
     cbind (cget (mm_factory \<circ> manager)) (\<lambda>factory.
     case func of
       None \<Rightarrow> cret ()
     | Some i \<Rightarrow> OnMinionFDWakeUp (get_minion i) (put_minion i) (call_onDone g notify_result) factory stack
         heap_max recvfrom))"

end
