(* ===== verification/Response_Manager.thy ===== *)
theory Response_Manager
  imports Nbd_Proxy Minion_Manager
begin

text \<open>
  \<open>concrete/src/ResponseManager.cpp\<close>: it hears of every new request and every new ticket, registers
  itself on the ticket, and passes the ticket's result to the NBD proxy once.  Its three callback
  objects are numbered.
\<close>

section \<open>Model\<close>

definition m_proxyCallback :: nat where "m_proxyCallback = 0"
definition m_ticketDoneCallback :: nat where "m_ticketDoneCallback = 1"
definition m_newTicketCallback :: nat where "m_newTicketCallback = 2"

definition new_ResponseManager :: ResponseManager where
  "new_ResponseManager = \<lparr>m_requests = Map.empty, m_tickets = Map.empty, m_proxy = False\<rparr>"

definition ResponseManager_Init :: "(master, unit) cpp" where
  "ResponseManager_Init =
     cbind (on_rm (cmodify (\<lambda>r. r\<lparr>m_proxy := True\<rparr>))) (\<lambda>_.
     cbind (on_nbd (RegisterForNewTaskArgs m_proxyCallback)) (\<lambda>_.
     on_mm (RegisterForNewTickets m_newTicketCallback)))"

definition OnNewTask :: "ATaskArgs \<Rightarrow> (master, unit) cpp" where
  "OnNewTask args =
     on_rm (cmodify (\<lambda>r. r\<lparr>m_requests := map_emplace (args_GetUID args) () (m_requests r)\<rparr>))"

definition OnTicketCreate :: "nat \<times> UID \<Rightarrow> (master, unit) cpp" where
  "OnTicketCreate = (\<lambda>(ticket, uid).
     cbind (on_rm (cmodify (\<lambda>r. r\<lparr>m_tickets := map_assign uid ticket (m_tickets r)\<rparr>))) (\<lambda>_.
     cmodify (\<lambda>m. m\<lparr>tickets := (tickets m)[ticket :=
       RegisterToResultDispatcher m_ticketDoneCallback (tickets m ! ticket)]\<rparr>)))"

text \<open>\<open>concrete/src/Response.cpp\<close>\<close>

definition OnSuccess :: "(master, unit) cpp" where
  "OnSuccess = Log ''Task succeeded'' SEV_DEBUG"

definition OnFailure :: "(master, unit) cpp" where
  "OnFailure = Log ''Task failed'' SEV_WARNING"

definition OnTicketDone :: "nbd_h \<Rightarrow> TaskResult \<Rightarrow> (master, unit) cpp" where
  "OnTicketDone h result =
     cbind (cget (\<lambda>m. m_requests (responses m) (res_uid result))) (\<lambda>req_it.
     case req_it of
       None \<Rightarrow> Log ''ResponseManager: unknown UID in OnTicketDone'' SEV_WARNING
     | Some _ \<Rightarrow>
         cbind (if res_result result then OnSuccess else OnFailure) (\<lambda>_.
         cbind (on_rm (cmodify (\<lambda>r. r\<lparr>m_tickets := map_erase (res_uid result) (m_tickets r)\<rparr>))) (\<lambda>_.
         cbind (on_rm (cmodify (\<lambda>r. r\<lparr>m_requests := map_erase (res_uid result) (m_requests r)\<rparr>))) (\<lambda>_.
         cbind (cget (m_proxy \<circ> responses)) (\<lambda>set.
         if set then OnNBDResponse h result else clift (Inl (UB NullPointer)))))))"

text \<open>\<open>ACallback::Notify\<close> on the callback objects; other objects on the lists are not the program's.\<close>

definition notify_new_task :: "nat \<Rightarrow> ATaskArgs \<Rightarrow> (master, unit) cpp" where
  "notify_new_task cb args = (if cb = m_proxyCallback then OnNewTask args else cret ())"

definition notify_new_ticket :: "nat \<Rightarrow> nat \<times> UID \<Rightarrow> (master, unit) cpp" where
  "notify_new_ticket cb ev = (if cb = m_newTicketCallback then OnTicketCreate ev else cret ())"

definition notify_done :: "nbd_h \<Rightarrow> nat \<Rightarrow> TaskResult \<Rightarrow> (master, unit) cpp" where
  "notify_done h cb result = (if cb = m_ticketDoneCallback then OnTicketDone h result else cret ())"

end
