(* ===== verification/Master_Server.thy ===== *)
theory Master_Server
  imports Response_Manager
begin

text \<open>
  The master process put together: the commands (\<open>concrete/src/Commands.cpp\<close>), the framework's reactor
  callback and task (\<open>framework/src/Framework.cpp\<close>, \<open>FW_TPTask.cpp\<close>), the start as in
  \<open>framework/test/TestFramework.cpp\<close>, and the events a running master handles.  A handler runs to its end before the
  next event; which waiting task a worker takes next is an argument of the event.
\<close>

section \<open>Model\<close>

text \<open>What the environment of the process is: header, socket behaviour, memory.\<close>

record env =
  e_h :: nbd_h
  e_sendto :: "datagram \<Rightarrow> bool"
  e_g :: "nat \<Rightarrow> byte"
  e_past :: "byte list"
  e_stack :: "byte list"
  e_heap_max :: nat

definition ReadCommand_Run :: "env \<Rightarrow> ATaskArgs \<Rightarrow> (master, unit) cpp" where
  "ReadCommand_Run e args =
     (case args of
        NBDReadArgs uid ta \<Rightarrow>
          ctry (MinionManager_AddReadTask (e_sendto e) (e_g e) notify_new_ticket uid
                  (NBDReadArgs_GetOffset ta) (NBDReadArgs_GetLength ta))
            (\<lambda>ex. Log (''ReadCommand: '' @ what ex) SEV_ERROR)
      | _ \<Rightarrow> Log ''ReadCommand: invalid task args'' SEV_ERROR)"

definition WriteCommand_Run :: "env \<Rightarrow> ATaskArgs \<Rightarrow> (master, unit) cpp" where
  "WriteCommand_Run e args =
     (case args of
        NBDWriteArgs uid ta \<Rightarrow>
          ctry (MinionManager_AddWriteTask (e_sendto e) (e_g e) (e_past e) (e_heap_max e)
                  notify_new_ticket uid (NBDWriteArgs_GetOffset ta) (NBDWriteArgs_GetLength ta) (NBDWriteArgs_GetBuffer ta))
            (\<lambda>ex. Log (''WriteCommand: '' @ what ex) SEV_ERROR)
      | _ \<Rightarrow> Log ''WriteCommand: invalid task args'' SEV_ERROR)"

definition FW_TPTask_Run :: "env \<Rightarrow> ATaskArgs \<Rightarrow> (master, unit) cpp" where
  "FW_TPTask_Run e args =
     ctry
       (cbind (cget cmd_factory) (\<lambda>f.
        cbind (clift (Factory_Create f (GetKey args))) (\<lambda>pCommand.
        case pCommand of
          ReadCommand \<Rightarrow> ReadCommand_Run e args
        | WriteCommand \<Rightarrow> WriteCommand_Run e args)))
       (\<lambda>ex. Log (''FW_TPTask: '' @ what ex) SEV_ERROR)"

text \<open>The callback \<open>Framework\<close> registers for the NBD socket.\<close>

definition nbd_readable :: "env \<Rightarrow> (master, unit) cpp" where
  "nbd_readable e =
     cbind (NBDProxy_GetTaskArgs (e_h e) (e_heap_max e) notify_new_task) (\<lambda>pTaskArgs.
     case pTaskArgs of
       None \<Rightarrow> Log ''Framework: failed to get task args'' SEV_WARNING
     | Some args \<Rightarrow> cmodify (\<lambda>m. m\<lparr>tasks := tasks m @ [args]\<rparr>))"

text \<open>A worker thread takes the waiting task number \<open>k\<close>.\<close>

definition run_task :: "env \<Rightarrow> nat \<Rightarrow> (master, unit) cpp" where
  "run_task e k =
     cbind (cget tasks) (\<lambda>ts.
     if k < length ts
     then cbind (cmodify (\<lambda>m. m\<lparr>tasks := take k ts @ drop (Suc k) ts\<rparr>)) (\<lambda>_. FW_TPTask_Run e (ts ! k))
     else cret ())"

datatype event = NbdReadable | RunTask nat | MinionReadable int "datagram option"

definition handle :: "env \<Rightarrow> event \<Rightarrow> (master, unit) cpp" where
  "handle e ev =
     (case ev of
        NbdReadable \<Rightarrow> nbd_readable e
      | RunTask k \<Rightarrow> run_task e k
      | MinionReadable fd recvfrom \<Rightarrow>
          minion_readable (e_g e) (notify_done (e_h e)) (e_stack e) (e_heap_max e) fd recvfrom)"

definition master_start :: "TCPClient \<Rightarrow> size_t \<Rightarrow> onDone MinionProxy list \<Rightarrow> (unit \<times> master) res" where
  "master_start socket mbMinion minions =
     (case cbind (on_mm (MinionManager_Init mbMinion minions)) (\<lambda>_. ResponseManager_Init)
        \<lparr>s_counter = 0, nbd_proxy = new_NBDProxy socket, manager = new_MinionManager,
         responses = new_ResponseManager, tickets = [],
         cmd_factory = Factory_Register (mode_code MODE_READ) ReadCommand
           (Factory_Register (mode_code MODE_WRITE) WriteCommand Map.empty),
         tasks = [], ms_log = []\<rparr> of
        Inl u \<Rightarrow> Inl (UB u)
      | Inr (Inl ex, m) \<Rightarrow> Inl (Throw ex)
      | Inr (Inr u, m) \<Rightarrow> Inr (u, m))"

section \<open>The started master\<close>

definition started :: "TCPClient \<Rightarrow> size_t \<Rightarrow> onDone MinionProxy list \<Rightarrow> master" where
  "started socket mbMinion minions =
     \<lparr>s_counter = 0,
      nbd_proxy = (new_NBDProxy socket)\<lparr>np_dispatcher := [m_proxyCallback]\<rparr>,
      manager = \<lparr>m_MBMinion = mbMinion, m_driveSize = word_of_nat (length minions) * mbMinion,
        m_minions = minions, mm_dispatcher = [m_newTicketCallback],
        mm_reactor = register_minions 0 minions Map.empty,
        mm_factory = [2 \<mapsto> READ_RECEIVE, 3 \<mapsto> WRITE_RECEIVE]\<rparr>,
      responses = new_ResponseManager\<lparr>m_proxy := True\<rparr>, tickets = [],
      cmd_factory = [0 \<mapsto> WriteCommand, 1 \<mapsto> ReadCommand], tasks = [], ms_log = []\<rparr>"

lemma master_start_run:
  "master_start socket mb minions =
    (if minions = [] then Inl (Throw (invalid_argument ''MinionManager: minions list is empty''))
     else if mb = 0 then Inl (Throw (invalid_argument ''MinionManager: chunk size must be > 0''))
     else Inr ((), started socket mb minions))"
  by (simp add: master_start_def MinionManager_Init_def ResponseManager_Init_def cpp_simps cbind_def
      new_MinionManager_def RegisterForNewTaskArgs_def RegisterForNewTickets_def started_def
      Factory_Register_def new_NBDProxy_def)

end
