(* ===== verification/Master_Invariant.thy ===== *)
theory Master_Invariant
  imports Master_Server
begin

text \<open>
  The invariant of the master process and its preservation by every event, exceptions included: the
  components stay wired to each other, a request is known to the response manager exactly as long as a
  reply is owed to the NBD client, and every callback that waits in a minion proxy points to the ticket
  of its own request and to one of that ticket's segments.
\<close>

section \<open>The invariant\<close>

text \<open>The registrations made at the start.\<close>

definition wired :: "master \<Rightarrow> bool" where
  "wired m \<longleftrightarrow> proxy_registered (nbd_proxy m) \<and> np_dispatcher (nbd_proxy m) = [m_proxyCallback] \<and>
     mm_dispatcher (manager m) = [m_newTicketCallback] \<and> m_proxy (responses m) \<and>
     mm_factory (manager m) 2 = Some READ_RECEIVE \<and> mm_factory (manager m) 3 = Some WRITE_RECEIVE \<and>
     cmd_factory m 1 = Some ReadCommand \<and> cmd_factory m 0 = Some WriteCommand"

text \<open>A reply is owed for exactly the requests the response manager waits for.\<close>

definition paired :: "master \<Rightarrow> bool" where
  "paired m \<longleftrightarrow> dom (m_requests (responses m)) = dom (m_responses (nbd_proxy m))"

text \<open>A callback under identifier \<open>u\<close> belongs to a ticket of \<open>u\<close> and a segment of it.\<close>

definition valid_cb :: "Ticket list \<Rightarrow> UID \<Rightarrow> onDone \<Rightarrow> bool" where
  "valid_cb ts u = (\<lambda>(t, k, role). t < length ts \<and> t_uid (ts ! t) = u \<and> k < length (t_segments (ts ! t)))"

definition proxies_ok :: "Ticket list \<Rightarrow> onDone MinionProxy list \<Rightarrow> bool" where
  "proxies_ok ts ps \<longleftrightarrow> (\<forall>p \<in> set ps. \<forall>u c. m_map p u = Some c \<longrightarrow> valid_cb ts u c)"

definition tickets_ok :: "Ticket list \<Rightarrow> bool" where
  "tickets_ok ts \<longleftrightarrow> (\<forall>t \<in> set ts. t_dispatcher t = [m_ticketDoneCallback])"

text \<open>The reactor's entries lead to existing proxies.\<close>

definition reactor_ok :: "MinionManager \<Rightarrow> bool" where
  "reactor_ok mm \<longleftrightarrow> (\<forall>k i. mm_reactor mm k = Some i \<longrightarrow> i < length (m_minions mm))"

definition master_inv :: "master \<Rightarrow> bool" where
  "master_inv m \<longleftrightarrow> wired m \<and> reactor_ok (manager m) \<and> paired m \<and> proxies_ok (tickets m) (m_minions (manager m)) \<and>
     tickets_ok (tickets m) \<and> m_minions (manager m) \<noteq> [] \<and> m_MBMinion (manager m) \<noteq> 0"

section \<open>Changes the invariant does not see\<close>

lemmas inv_defs = master_inv_def wired_def paired_def proxy_registered_def reactor_ok_def

lemma master_inv_frame [simp]:
  "master_inv (m\<lparr>ms_log := l\<rparr>) = master_inv m"
  "master_inv (m\<lparr>tasks := ts\<rparr>) = master_inv m"
  "master_inv (m\<lparr>s_counter := c\<rparr>) = master_inv m"
  "master_inv (m\<lparr>nbd_proxy := (nbd_proxy m)\<lparr>np_socket := s\<rparr>\<rparr>) = master_inv m"
  by (simp_all add: inv_defs)

lemma master_inv_put_minion:
  assumes "master_inv m" and "\<And>u c. m_map p u = Some c \<Longrightarrow> valid_cb (tickets m) u c"
  shows "master_inv (put_minion i p m)"
  using assms by (auto simp: inv_defs put_minion_def proxies_ok_def dest: set_update_subset_insert [THEN subsetD])

text \<open>Answering or adding a ticket keeps every callback valid.\<close>

lemma valid_cb_update:
  assumes "t_uid t' = t_uid (ts ! i)" "length (t_segments t') = length (t_segments (ts ! i))"
  shows "valid_cb (ts[i := t']) u c = valid_cb ts u c"
  using assms by (cases "i < length ts") (auto simp: valid_cb_def nth_list_update split: prod.splits)

lemma valid_cb_append: "valid_cb ts u c \<Longrightarrow> valid_cb (ts @ ts') u c"
  by (auto simp: valid_cb_def nth_append)

lemma keeps_Log [keeps_intros]: "keeps master_inv (Log text sev)"
  by (simp add: Log_def keeps_cmodify)

lemma keeps_proxies_ok_update:
  assumes "proxies_ok ts ps" "t_uid t' = t_uid (ts ! i)"
    "length (t_segments t') = length (t_segments (ts ! i))"
  shows "proxies_ok (ts[i := t']) ps"
  using assms by (simp add: proxies_ok_def valid_cb_update)

section \<open>Requests from the NBD client\<close>

lemma keeps_np_Receive [keeps_intros]: "keeps master_inv (on_nbd (np_Receive n))"
proof (rule keeps_zoom)
  fix m r p assume "master_inv m" and "np_Receive n (nbd_proxy m) = Inr (r, p)"
  then obtain s where "p = (nbd_proxy m)\<lparr>np_socket := s\<rparr>"
    by (auto simp: np_Receive_def zoom_def split: sum.splits prod.splits)
  with \<open>master_inv m\<close> show "master_inv (m\<lparr>nbd_proxy := p\<rparr>)" by simp
qed

lemma keeps_np_Send [keeps_intros]: "keeps master_inv (on_nbd (np_Send bs n))"
proof (rule keeps_zoom)
  fix m r p assume "master_inv m" and "np_Send bs n (nbd_proxy m) = Inr (r, p)"
  then obtain s where "p = (nbd_proxy m)\<lparr>np_socket := s\<rparr>"
    by (auto simp: np_Send_def zoom_def split: sum.splits prod.splits)
  with \<open>master_inv m\<close> show "master_inv (m\<lparr>nbd_proxy := p\<rparr>)" by simp
qed

lemma keeps_np_Create [keeps_intros]: "keeps master_inv (np_Create key args)"
  unfolding np_Create_def by (auto intro!: keeps_intros keeps_cmodify split: prod.split)

lemma keeps_np_switch [keeps_intros]: "keeps master_inv (np_switch h heap_max type len)"
  unfolding np_switch_def by (auto intro!: keeps_intros)

text \<open>Storing the reply and telling the response manager.\<close>

definition accept_request :: "UID \<Rightarrow> nbd_reply \<Rightarrow> master \<Rightarrow> master" where
  "accept_request u reply m =
     m\<lparr>nbd_proxy := (nbd_proxy m)\<lparr>m_responses := map_emplace u reply (m_responses (nbd_proxy m))\<rparr>,
       responses := (responses m)\<lparr>m_requests := map_emplace u () (m_requests (responses m))\<rparr>\<rparr>"

lemma store_reply_run:
  assumes "wired m"
  shows "cbind (on_nbd (cmodify (\<lambda>p. p\<lparr>m_responses := map_emplace (args_GetUID args) reply (m_responses p)\<rparr>))) (\<lambda>_.
      cbind (cget (np_dispatcher \<circ> nbd_proxy)) (\<lambda>cbs.
      cbind (cforeach (\<lambda>cb. notify_new_task cb args) cbs) (\<lambda>_. cret (Some args)))) m =
    Inr (Inr (Some args), accept_request (args_GetUID args) reply m)"
  using assms
  by (simp add: wired_def cbind_def cpp_simps notify_new_task_def OnNewTask_def accept_request_def)

lemma accept_request_inv: "master_inv m \<Longrightarrow> master_inv (accept_request u reply m)"
  by (simp add: inv_defs accept_request_def)

lemma keeps_store_reply [keeps_intros]:
  "keeps master_inv
    (cbind (on_nbd (cmodify (\<lambda>p. p\<lparr>m_responses := map_emplace (args_GetUID args) reply (m_responses p)\<rparr>))) (\<lambda>_.
      cbind (cget (np_dispatcher \<circ> nbd_proxy)) (\<lambda>cbs.
      cbind (cforeach (\<lambda>cb. notify_new_task cb args) cbs) (\<lambda>_. cret (Some args)))))"
proof (rule tripleI)
  fix m r m'
  assume "master_inv m" and run: "cbind (on_nbd (cmodify (\<lambda>p.
        p\<lparr>m_responses := map_emplace (args_GetUID args) reply (m_responses p)\<rparr>))) (\<lambda>_.
      cbind (cget (np_dispatcher \<circ> nbd_proxy)) (\<lambda>cbs.
      cbind (cforeach (\<lambda>cb. notify_new_task cb args) cbs) (\<lambda>_. cret (Some args)))) m = Inr (r, m')"
  moreover from this have "wired m" by (simp add: master_inv_def)
  ultimately have "m' = accept_request (args_GetUID args) reply m" by (simp add: store_reply_run)
  with \<open>master_inv m\<close> show "master_inv m'" by (simp add: accept_request_inv)
qed

lemma keeps_nbd_readable: "keeps master_inv (nbd_readable e)"
proof -
  have "keeps master_inv (NBDProxy_GetTaskArgs (e_h e) (e_heap_max e) notify_new_task)"
    unfolding NBDProxy_GetTaskArgs_def Let_def
    by (rule keeps_store_reply keeps_np_Receive keeps_np_switch keeps_np_Create keeps_pure keeps_if
        keeps_option keeps_cbind)+
  then show ?thesis
    unfolding nbd_readable_def
    by (rule keeps_cbind) (auto intro!: keeps_intros keeps_cmodify split: option.split)
qed

section \<open>Requests to the minions\<close>

text \<open>A ticket that callbacks of request \<open>uid\<close> for \<open>n\<close> segments may point to.\<close>

definition inv_with :: "nat \<Rightarrow> UID \<Rightarrow> nat \<Rightarrow> master \<Rightarrow> bool" where
  "inv_with t uid n m \<longleftrightarrow> master_inv m \<and> t < length (tickets m) \<and> t_uid (tickets m ! t) = uid \<and>
     length (t_segments (tickets m ! t)) = n"

lemma at_minion_keeps:
  assumes "\<And>p r p' u c'. method p = Inr (r, p') \<Longrightarrow> m_map p' u = Some c' \<Longrightarrow>
      (u = uid \<and> c' = (t, k, role)) \<or> m_map p u = Some c'"
    and "k < n"
  shows "keeps (inv_with t uid n) (at_minion idx method)"
proof (rule tripleI)
  fix m r m'
  assume inv: "inv_with t uid n m" and run: "at_minion idx method m = Inr (r, m')"
  let ?i = "unat idx" and ?p = "get_minion (unat idx) m"
  from run obtain p' where i: "?i < length (m_minions (manager m))"
    and p: "method ?p = Inr (r, p')" and m': "m' = put_minion ?i p' m"
    by (auto simp: at_minion_def cpp_simps split: if_splits sum.splits prod.splits)
  have old: "valid_cb (tickets m) u c'" if "m_map ?p u = Some c'" for u c'
    using that inv i unfolding inv_with_def master_inv_def proxies_ok_def get_minion_def
    by (meson nth_mem)
  have new: "valid_cb (tickets m) uid (t, k, role)"
    using inv assms(2) by (auto simp: inv_with_def valid_cb_def)
  have "valid_cb (tickets m) u c'" if "m_map p' u = Some c'" for u c'
    using assms(1) [OF p that] old new by metis
  then have "master_inv m'"
    unfolding m' using inv by (intro master_inv_put_minion) (auto simp: inv_with_def)
  with inv show "inv_with t uid n m'" by (simp add: inv_with_def m' put_minion_def)
qed

lemma keeps_send_read:
  "k < n \<Longrightarrow> keeps (inv_with t uid n)
     (at_minion idx (MinionProxy_AddReadTask sendto g uid off len (t, k, role)))"
  by (rule at_minion_keeps) (auto dest: read_link.submit_pending [where uid = uid and q = "(off, len)", simplified]
      split: if_splits)

lemma keeps_send_write:
  "k < n \<Longrightarrow> keeps (inv_with t uid n)
     (at_minion idx (MinionProxy_AddWriteTask sendto g past uid off len data (t, k, role)))"
  by (rule at_minion_keeps)
    (auto dest: write_link.submit_pending [where uid = uid and q = "(off, len, data)", simplified]
      split: if_splits)

text \<open>Opening a ticket: an error leaves the state alone, otherwise the ticket is there and registered.\<close>

definition opened :: "UID \<Rightarrow> TicketOp \<Rightarrow> size_t \<Rightarrow> StripeSegment list \<Rightarrow> master \<Rightarrow> master" where
  "opened uid opr len segs m = m\<lparr>tickets := tickets m @
       [RegisterToResultDispatcher m_ticketDoneCallback (new_Ticket uid opr len segs)],
     responses := (responses m)\<lparr>m_tickets := map_assign uid (length (tickets m)) (m_tickets (responses m))\<rparr>\<rparr>"

lemma open_ticket_run:
  assumes "mm_dispatcher (manager m) = [m_newTicketCallback]"
  shows "open_ticket notify_new_ticket uid opr offset len m =
    (case rbind (ValidateRange offset len (manager m)) (\<lambda>_. Split offset len (m_MBMinion (manager m))
            (word_of_nat (length (m_minions (manager m))))) of
       Inl (Throw ex) \<Rightarrow> Inr (Inl ex, m)
     | Inl (UB u) \<Rightarrow> Inl u
     | Inr segs \<Rightarrow> Inr (Inr (length (tickets m), segs), opened uid opr len segs m))"
proof (cases "ValidateRange offset len (manager m)")
  case (Inl err)
  then show ?thesis
    by (cases err) (simp_all add: open_ticket_def cpp_simps)
next
  case (Inr u)
  then show ?thesis
  proof (cases "Split offset len (m_MBMinion (manager m)) (word_of_nat (length (m_minions (manager m))))")
    case (Inl err)
    with Inr show ?thesis by (cases err) (simp_all add: open_ticket_def cpp_simps)
  next
    case Split: (Inr segs)
    with Inr assms show ?thesis
      by (simp add: open_ticket_def cpp_simps make_ticket_def notify_new_ticket_def OnTicketCreate_def
          opened_def)
  qed
qed

lemma opened_inv:
  assumes "master_inv m"
  shows "inv_with (length (tickets m)) uid (length segs) (opened uid opr len segs m)"
proof -
  let ?T = "RegisterToResultDispatcher m_ticketDoneCallback (new_Ticket uid opr len segs)"
  have "proxies_ok (tickets m @ [?T]) (m_minions (manager m))" "tickets_ok (tickets m @ [?T])"
    using assms valid_cb_append
    by (auto simp: master_inv_def proxies_ok_def tickets_ok_def RegisterToResultDispatcher_def
        new_Ticket_def)
  with assms have "master_inv (opened uid opr len segs m)" by (simp add: inv_defs opened_def)
  then show ?thesis
    by (simp add: inv_with_def opened_def RegisterToResultDispatcher_def new_Ticket_def)
qed

lemma open_ticket_inv:
  "triple master_inv (open_ticket notify_new_ticket uid opr offset len)
     (\<lambda>r m. master_inv m \<and> (\<forall>t segs. r = Inr (t, segs) \<longrightarrow> inv_with t uid (length segs) m))"
proof (rule tripleI)
  fix m r m'
  assume inv: "master_inv m" and run: "open_ticket notify_new_ticket uid opr offset len m = Inr (r, m')"
  from inv have "mm_dispatcher (manager m) = [m_newTicketCallback]"
    by (simp add: master_inv_def wired_def)
  from run [unfolded open_ticket_run [OF this]] inv opened_inv [OF inv]
  show "master_inv m' \<and> (\<forall>t segs. r = Inr (t, segs) \<longrightarrow> inv_with t uid (length segs) m')"
    by (auto simp: inv_with_def split: sum.splits error.splits)
qed

lemma foreach_segment:
  assumes "\<And>k seg. k < length segs \<Longrightarrow> keeps (inv_with t uid (length segs)) (f (k, seg))"
  shows "triple (\<lambda>m. master_inv m \<and> inv_with t uid (length segs) m)
    (cforeach f (enumerate 0 segs)) (\<lambda>_. master_inv)"
proof -
  have "keeps (inv_with t uid (length segs)) (cforeach f (enumerate 0 segs))"
    using assms by (intro keeps_cforeach) (auto simp: in_set_enumerate_eq)
  then show ?thesis by (rule triple_weaken) (auto simp: inv_with_def)
qed

lemma keeps_AddReadTask:
  "keeps master_inv (MinionManager_AddReadTask sendto g notify_new_ticket uid offset len)"
  unfolding MinionManager_AddReadTask_def
proof (rule triple_cbind [OF open_ticket_inv], goal_cases)
  case (1 a)
  obtain t segs where a: "a = (t, segs)" by (cases a)
  show ?case
    unfolding a prod.case
    by (rule triple_weaken [OF foreach_segment [where t = t and uid = uid]])
      (auto intro!: keeps_cbind keeps_send_read)
qed simp

lemma keeps_AddWriteTask:
  "keeps master_inv
     (MinionManager_AddWriteTask sendto g past heap_max notify_new_ticket uid offset len buffer)"
  unfolding MinionManager_AddWriteTask_def
proof (rule triple_cbind [OF open_ticket_inv], goal_cases)
  case (1 a)
  obtain t segs where a: "a = (t, segs)" by (cases a)
  show ?case
    unfolding a prod.case
    by (rule triple_weaken [OF foreach_segment [where t = t and uid = uid]])
      (auto intro!: keeps_cbind keeps_send_write keeps_pure)
qed simp

lemma keeps_run_task: "keeps master_inv (run_task e k)"
proof -
  have "keeps master_inv (ReadCommand_Run e args)" "keeps master_inv (WriteCommand_Run e args)" for args
    unfolding ReadCommand_Run_def WriteCommand_Run_def
    by (auto intro!: keeps_ctry keeps_AddReadTask keeps_AddWriteTask keeps_Log split: ATaskArgs.split)
  then have "keeps master_inv (FW_TPTask_Run e args)" for args
    unfolding FW_TPTask_Run_def
    by (auto intro!: keeps_ctry keeps_cbind keeps_pure keeps_Log split: master_command.split)
  then show ?thesis
    unfolding run_task_def by (intro keeps_cbind keeps_pure keeps_if keeps_cmodify) simp
qed

section \<open>Answers of the minions\<close>

lemma keeps_OnTicketDone: "keeps master_inv (OnTicketDone h result)"
proof (rule tripleI)
  fix m r m'
  assume inv: "master_inv m" and run: "OnTicketDone h result m = Inr (r, m')"
  let ?u = "res_uid result"
  show "master_inv m'"
  proof (cases "m_requests (responses m) ?u")
    case None
    with run inv show ?thesis by (auto simp: OnTicketDone_def cpp_simps)
  next
    case (Some x)
    with inv have "?u \<in> dom (m_responses (nbd_proxy m))"
      by (auto simp: master_inv_def paired_def)
    then obtain reply where reply: "m_responses (nbd_proxy m) ?u = Some reply" by auto
    define l where "l = ms_log m @
      [if res_result result then (SEV_DEBUG, ''Task succeeded'') else (SEV_WARNING, ''Task failed'')]"
    define m1 where "m1 = m\<lparr>ms_log := l, responses := (responses m)\<lparr>
      m_tickets := map_erase ?u (m_tickets (responses m)),
      m_requests := map_erase ?u (m_requests (responses m))\<rparr>,
      nbd_proxy := (nbd_proxy m)\<lparr>m_responses := map_erase ?u (m_responses (nbd_proxy m))\<rparr>\<rparr>"
    have inv1: "master_inv m1"
      using inv by (simp add: inv_defs m1_def)
    let ?reply = "if res_result result then reply else reply\<lparr>rp_error := htonl (EIO h)\<rparr>"
    have k1: "keeps master_inv (cbind (on_nbd (np_Send (reply_bytes h ?reply) (length (reply_bytes h ?reply)))) (\<lambda>_.
        cbind (case (res_result result, res_buffer result) of
          (True, Some buffer) \<Rightarrow> on_nbd (np_Send buffer (unat (res_length result)))
        | _ \<Rightarrow> cret ()) (\<lambda>_. Log ''reply sent!'' SEV_DEBUG)))"
      by (auto intro!: keeps_cbind keeps_Log keeps_np_Send keeps_pure split: option.split bool.split)
    have k2: "OnTicketDone h result m =
        cbind (on_nbd (np_Send (reply_bytes h ?reply) (length (reply_bytes h ?reply)))) (\<lambda>_.
          cbind (case (res_result result, res_buffer result) of
            (True, Some buffer) \<Rightarrow> on_nbd (np_Send buffer (unat (res_length result)))
          | _ \<Rightarrow> cret ()) (\<lambda>_. Log ''reply sent!'' SEV_DEBUG)) m1"
      using inv Some reply
      by (cases "res_result result")
        (simp_all add: OnTicketDone_def OnNBDResponse_def OnSuccess_def OnFailure_def cpp_simps Let_def
          m1_def l_def inv_defs)
    show ?thesis by (rule tripleD [OF k1 trans [OF k2 [symmetric] run] inv1])
  qed
qed

lemma keeps_call_onDone: "keeps master_inv (call_onDone g (notify_done h) c msg)"
proof (rule tripleI)
  fix m r m'
  assume inv: "master_inv m" and run: "call_onDone g (notify_done h) c msg m = Inr (r, m')"
  obtain t k role where c: "c = (t, k, role)" by (cases c)
  show "master_inv m'"
  proof (cases "OnMirrorResponse g k role (Some msg) (tickets m ! t)")
    case (Inl err)
    with run inv c show ?thesis by (cases err) (auto simp: call_onDone_def cpp_simps)
  next
    case (Inr a)
    obtain T out where a: "a = (T, out)" by (cases a)
    note fr = OnMirrorResponse_frame [OF Inr [unfolded a]]
    let ?m1 = "m\<lparr>tickets := (tickets m)[t := T], s_counter :=
      (if t_completed T \<and> \<not> t_completed (tickets m ! t) then snd (UID_next (s_counter m)) else s_counter m)\<rparr>"
    have "tickets_ok ((tickets m)[t := T])"
      using inv fr by (cases "t < length (tickets m)")
        (auto simp: master_inv_def tickets_ok_def not_less list_update_beyond dest: set_update_subset_insert [THEN subsetD])
    moreover have "proxies_ok ((tickets m)[t := T]) (m_minions (manager m))"
      using inv fr by (intro keeps_proxies_ok_update) (auto simp: master_inv_def)
    ultimately have "master_inv ?m1" using inv by (simp add: inv_defs)
    moreover have "keeps master_inv (cforeach (\<lambda>(cb, result). notify_done h cb result) out)"
      by (rule keeps_cforeach) (auto simp: notify_done_def intro!: keeps_OnTicketDone keeps_pure)
    moreover have "cforeach (\<lambda>(cb, result). notify_done h cb result) out ?m1 = Inr (r, m')"
      using run Inr a c by (simp add: call_onDone_def cpp_simps)
    ultimately show ?thesis by (auto dest: tripleD)
  qed
qed

text \<open>An operation of a proxy that adds no callback.\<close>

lemma keeps_minion_method:
  assumes "\<And>p r p' u c. method p = Inr (r, p') \<Longrightarrow> m_map p' u = Some c \<Longrightarrow> m_map p u = Some c"
  shows "keeps master_inv (zoom (get_minion i) (put_minion i) method)"
proof (rule keeps_zoom)
  fix m r p assume inv: "master_inv m" and run: "method (get_minion i m) = Inr (r, p)"
  show "master_inv (put_minion i p m)"
  proof (cases "i < length (m_minions (manager m))")
    case True
    then have "valid_cb (tickets m) u c" if "m_map (get_minion i m) u = Some c" for u c
      using that inv unfolding master_inv_def proxies_ok_def get_minion_def by (meson nth_mem)
    with inv assms [OF run] show ?thesis by (intro master_inv_put_minion) auto
  next
    case False
    then show ?thesis using inv by (simp add: put_minion_def inv_defs not_less list_update_beyond)
  qed
qed

lemma keeps_minion_readable: "keeps master_inv (minion_readable g (notify_done h) stack heap_max fd recvfrom)"
proof -
  have rcv: "keeps master_inv (zoom (get_minion i) (put_minion i) (MinionProxy_ReceiveFrom recvfrom))" for i
    by (rule keeps_minion_method)
      (auto simp: MinionProxy_ReceiveFrom_def cbind_eq_Inr cpp_simps clift_def
        split: sum.splits error.splits)
  have lg: "keeps master_inv (zoom (get_minion i) (put_minion i) (mp_Log tx sev))" for i tx sev
    by (rule keeps_minion_method) (auto simp: mp_Log_def cpp_simps)
  have er: "keeps master_inv (zoom (get_minion i) (put_minion i)
      (cmodify (\<lambda>p. p\<lparr>m_map := map_erase u (m_map p)\<rparr>)))" for i u
    by (rule keeps_minion_method) (auto simp: cpp_simps split: if_splits)
  show ?thesis
    unfolding minion_readable_def OnMinionFDWakeUp_def
    by (auto intro!: keeps_cbind keeps_pure rcv lg er keeps_call_onDone split: frame.split option.split)
qed

section \<open>Runs\<close>

text \<open>The states a started master can reach; an exception that leaves a handler ends the process.\<close>

inductive reachable :: "env \<Rightarrow> master \<Rightarrow> bool" for e where
  start: "master_start socket mb minions = Inr ((), m) \<Longrightarrow> (\<And>p. p \<in> set minions \<Longrightarrow> m_map p = Map.empty) \<Longrightarrow>
    reachable e m"
| step: "reachable e m \<Longrightarrow> handle e ev m = Inr (Inr (), m') \<Longrightarrow> reachable e m'"

inductive_cases reachableE: "reachable e m"

lemma keeps_handle: "keeps master_inv (handle e ev)"
  unfolding handle_def
  by (auto intro: keeps_nbd_readable keeps_run_task keeps_minion_readable split: event.split)

lemma register_minions_range:
  "register_minions i ps reactor k = Some j \<Longrightarrow> reactor k = Some j \<or> j < i + length ps"
  by (induction i ps reactor rule: register_minions.induct) (auto split: if_splits)

lemma master_start_inv:
  assumes "master_start socket mb minions = Inr ((), m)" "\<And>p. p \<in> set minions \<Longrightarrow> m_map p = Map.empty"
  shows "master_inv m"
  using assms
  by (auto simp: master_start_run started_def new_ResponseManager_def new_NBDProxy_def inv_defs
      proxies_ok_def tickets_ok_def Factory_Register_def dest!: register_minions_range split: if_splits)

lemma reachable_inv: "reachable e m \<Longrightarrow> master_inv m"
  by (induction rule: reachable.induct) (auto intro: master_start_inv tripleD [OF keeps_handle])

section \<open>Properties\<close>

text \<open>
  C9. The master's invariant holds in every reachable state, whatever the order of requests, task
  executions, answers, losses, duplicates and malformed datagrams: in particular a reply is owed to the
  NBD client for exactly the requests the response manager waits for, and every callback waiting in a
  minion proxy leads to a ticket of its own request and an existing segment of it.
\<close>

theorem master_invariant:
  assumes "reachable e m"
  shows "dom (m_requests (responses m)) = dom (m_responses (nbd_proxy m)) \<and>
    (\<forall>p \<in> set (m_minions (manager m)). \<forall>u t k role. m_map p u = Some (t, k, role) \<longrightarrow>
       t < length (tickets m) \<and> t_uid (tickets m ! t) = u \<and> k < length (t_segments (tickets m ! t))) \<and>
    (\<forall>t \<in> set (tickets m). t_dispatcher t = [m_ticketDoneCallback])"
proof -
  from assms have "master_inv m" by (rule reachable_inv)
  then show ?thesis
    unfolding master_inv_def paired_def proxies_ok_def tickets_ok_def valid_cb_def by fastforce
qed

end
