(* ===== verification/Master_Runs.thy ===== *)
theory Master_Runs
  imports Master_Invariant
begin

text \<open>
  What the master does with one request, step by step: the request of the NBD client becomes a task, the
  task becomes a ticket and messages to two minions, the answers of the minions become the reply.  These
  are the equations the end-to-end theorems are put together from.
\<close>

section \<open>A request becomes a task\<close>

definition reply_to :: "nbd_h \<Rightarrow> nbd_request \<Rightarrow> nbd_reply" where
  "reply_to h rq = \<lparr>rp_magic = htonl (NBD_REPLY_MAGIC h), rp_error = htonl 0, rp_handle = rq_handle rq\<rparr>"

definition with_input :: "recv_event list \<Rightarrow> master \<Rightarrow> master" where
  "with_input evs m = m\<lparr>nbd_proxy := (nbd_proxy m)\<lparr>np_socket := (np_socket (nbd_proxy m))\<lparr>tcp_in := evs\<rparr>\<rparr>\<rparr>"

definition nbd_input :: "master \<Rightarrow> byte list" where
  "nbd_input m = stream_of (tcp_in (np_socket (nbd_proxy m)))"

definition nbd_output :: "master \<Rightarrow> byte list" where
  "nbd_output m = tcp_out (np_socket (nbd_proxy m))"

lemma on_nbd_Receive:
  assumes "n \<le> length (nbd_input m)"
  obtains evs where "on_nbd (np_Receive n) m = Inr (Inr (take n (nbd_input m)), with_input evs m)"
    "nbd_input (with_input evs m) = drop n (nbd_input m)" "stream_of evs = drop n (nbd_input m)"
  using np_Receive_ok [of n "nbd_proxy m"] assms
  by (auto simp: zoom_run with_input_def nbd_input_def)

lemma with_input_simps [simp]:
  "with_input evs (with_input evs' m) = with_input evs m" "s_counter (with_input evs m) = s_counter m"
  "wired (with_input evs m) = wired m" "nbd_input (with_input evs m) = stream_of evs"
  "np_factory (nbd_proxy (with_input evs m)) = np_factory (nbd_proxy m)"
  by (simp_all add: with_input_def nbd_input_def wired_def proxy_registered_def)

lemma np_switch_run:
  assumes "payload h st = Some data" and "rq = request_of h (take (sizeof_request h) st)"
    and "nbd_input m = drop (sizeof_request h) st" and "unat (ntohl (rq_len rq)) \<le> heap_max"
  obtains evs where
    "np_switch h heap_max (ntohl (rq_type rq)) (ntohl (rq_len rq)) m = Inr (Inr (Some data), with_input evs m)"
    "stream_of evs = drop (sizeof_request h + (case data of None \<Rightarrow> 0 | Some d \<Rightarrow> length d)) st"
proof (cases "ntohl (rq_type rq) = NBD_CMD_READ h")
  case True
  with assms have "data = None" by (auto simp: payload_def Let_def)
  with True assms that [of "tcp_in (np_socket (nbd_proxy m))"] show ?thesis
    by (simp add: np_switch_def cpp_simps with_input_def nbd_input_def)
next
  case False
  let ?n = "unat (ntohl (rq_len rq))"
  from False assms have t: "ntohl (rq_type rq) = NBD_CMD_WRITE h" and n: "?n \<le> length (nbd_input m)"
    and d: "data = Some (take ?n (nbd_input m))"
    by (auto simp: payload_def Let_def split: if_splits)
  from n obtain evs where "on_nbd (np_Receive ?n) m = Inr (Inr (take ?n (nbd_input m)), with_input evs m)"
    "stream_of evs = drop ?n (nbd_input m)" by (rule on_nbd_Receive)
  with False t n d assms(3,4) that [of evs] show ?thesis
    by (simp add: np_switch_def cpp_simps cbind_run add.commute)
qed

lemma np_Create_run:
  assumes "wired m"
  shows "np_Create (if data = None then MODE_READ else MODE_WRITE)
      (new_TaskArgs (Ntohll (rq_from rq)) (ucast (ntohl (rq_len rq))) data) m =
    Inr (Inr (task_of rq (s_counter m) data), m\<lparr>s_counter := s_counter m + 1\<rparr>)"
  using assms
  by (cases data) (auto simp: np_Create_def cpp_simps wired_def proxy_registered_def Factory_Create_def
      new_NBDReadArgs_def new_NBDWriteArgs_def UID_next_def task_of_def Let_def)

lemma args_GetUID_task_of [simp]: "args_GetUID (task_of rq c data) = UID c"
  by (simp add: task_of_def Let_def split: option.split)

lemma GetTaskArgs_run:
  assumes "wired m" and st: "nbd_input m = st" "sizeof_request h \<le> length st"
    and rq: "rq = request_of h (take (sizeof_request h) st)" "rq_magic rq = htonl (NBD_REQUEST_MAGIC h)"
    and data: "payload h st = Some data" "unat (ntohl (rq_len rq)) \<le> heap_max"
  obtains evs where "NBDProxy_GetTaskArgs h heap_max notify_new_task m =
      Inr (Inr (Some (task_of rq (s_counter m) data)), accept_request (UID (s_counter m)) (reply_to h rq)
        (with_input evs (m\<lparr>s_counter := s_counter m + 1\<rparr>)))"
    "stream_of evs = drop (sizeof_request h + (case data of None \<Rightarrow> 0 | Some d \<Rightarrow> length d)) st"
proof -
  from st obtain evs where r: "on_nbd (np_Receive (sizeof_request h)) m =
      Inr (Inr (take (sizeof_request h) st), with_input evs m)"
    and in1: "nbd_input (with_input evs m) = drop (sizeof_request h) st"
    using on_nbd_Receive [of "sizeof_request h" m] by auto
  obtain evs' where s: "np_switch h heap_max (ntohl (rq_type rq)) (ntohl (rq_len rq)) (with_input evs m) =
      Inr (Inr (Some data), with_input evs' m)"
    and ev: "stream_of evs' = drop (sizeof_request h + (case data of None \<Rightarrow> 0 | Some d \<Rightarrow> length d)) st"
    using np_switch_run [OF data(1) rq(1) in1 data(2)] by auto
  have w: "wired (with_input evs' m)" using assms(1) by simp
  have c: "(with_input evs' m)\<lparr>s_counter := s_counter m + 1\<rparr> = with_input evs' (m\<lparr>s_counter := s_counter m + 1\<rparr>)"
    by (simp add: with_input_def)
  have w2: "wired (with_input evs' (m\<lparr>s_counter := s_counter m + 1\<rparr>))"
    using assms(1) by (simp add: wired_def with_input_def proxy_registered_def)
  show ?thesis
    using store_reply_run [OF w2, of "task_of rq (s_counter m) data" "reply_to h rq"]
      np_Create_run [OF w, of data rq] rq(2)
    by (intro that [OF _ ev])
      (simp add: NBDProxy_GetTaskArgs_def r s rq(1) [symmetric] Let_def c reply_to_def cbind_run(1))
qed

lemma nbd_readable_run:
  assumes "wired m" and "nbd_input m = st" "sizeof_request (e_h e) \<le> length st"
    and "rq = request_of (e_h e) (take (sizeof_request (e_h e)) st)"
      "rq_magic rq = htonl (NBD_REQUEST_MAGIC (e_h e))"
    and "payload (e_h e) st = Some data" "unat (ntohl (rq_len rq)) \<le> e_heap_max e"
  obtains evs where "nbd_readable e m =
      Inr (Inr (), (accept_request (UID (s_counter m)) (reply_to (e_h e) rq)
        (with_input evs (m\<lparr>s_counter := s_counter m + 1\<rparr>)))\<lparr>tasks := tasks m @ [task_of rq (s_counter m) data]\<rparr>)"
    "stream_of evs = drop (sizeof_request (e_h e) + (case data of None \<Rightarrow> 0 | Some d \<Rightarrow> length d)) st"
proof -
  obtain evs where "NBDProxy_GetTaskArgs (e_h e) (e_heap_max e) notify_new_task m =
      Inr (Inr (Some (task_of rq (s_counter m) data)), accept_request (UID (s_counter m))
        (reply_to (e_h e) rq) (with_input evs (m\<lparr>s_counter := s_counter m + 1\<rparr>)))"
    "stream_of evs = drop (sizeof_request (e_h e) + (case data of None \<Rightarrow> 0 | Some d \<Rightarrow> length d)) st"
    using GetTaskArgs_run [OF assms(1-7)] by metis
  then show ?thesis
    by (intro that [of evs]) (simp_all add: nbd_readable_def cbind_run(1) cpp_simps accept_request_def with_input_def)
qed

section \<open>A task becomes messages to two minions\<close>

text \<open>The effect of handing a request to the proxy of minion \<open>i\<close>.\<close>

definition submit :: "nat \<Rightarrow> UID \<Rightarrow> onDone \<Rightarrow> byte list \<times> log_entry list \<Rightarrow> master \<Rightarrow> master" where
  "submit i uid c b m =
     (let p = get_minion i m
      in put_minion i (p\<lparr>m_map := (m_map p)(uid \<mapsto> c),
           mp_sent := mp_sent p @ [(m_serveraddr (m_socket p), fst b)],
           mp_log := mp_log p @ snd b\<rparr>) m)"

lemma length_minions_submit [simp]:
  "length (m_minions (manager (submit i uid c bs m))) = length (m_minions (manager m))"
  by (simp add: submit_def put_minion_def Let_def)

lemma length_minions_opened [simp]:
  "length (m_minions (manager (opened uid opr len segs m))) = length (m_minions (manager m))"
  by (simp add: opened_def)

lemma submit_read:
  assumes "accepts sendto" and "unat idx < length (m_minions (manager m))"
  shows "at_minion idx (MinionProxy_AddReadTask sendto g uid off len c) m =
    Inr (Inr (), submit (unat idx) uid c (wire [] (MessageReadSend (GetID uid) off len),
      [(SEV_DEBUG, sent_line (MessageReadSend (GetID uid) off len))]) m)"
proof -
  have "length (wire [] (MessageReadSend (GetID uid) off len)) < BUFSIZ"
    by (simp add: wire_def BUFSIZ_def)
  with assms(1) have "sendto (addr, wire [] (MessageReadSend (GetID uid) off len))" for addr
    by (simp add: accepts_def)
  with assms(2) show ?thesis
    by (simp add: at_minion_def cpp_simps AddReadTask_run submit_def Let_def)
qed

lemma submit_write:
  assumes "accepts sendto" and "unat idx < length (m_minions (manager m))"
    and d: "length d = unat len" "unat len + 33 < BUFSIZ" "past \<noteq> []"
  shows "at_minion idx (MinionProxy_AddWriteTask sendto g past uid off len (Some d) c) m =
    Inr (Inr (), submit (unat idx) uid c (wire past (MessageWriteSend (GetID uid) off len (Some d)), []) m)"
proof -
  let ?q = "MessageWriteSend (GetID uid) off len (Some d)"
  have s: "sendable past ?q" using d by (simp add: BUFSIZ_def)
  have "length (wire past ?q) < BUFSIZ"
    using d length_wire [OF s] by (simp add: unat_GetSize BUFSIZ_def)
  with assms(1) have "sendto (addr, wire past ?q)" for addr
    by (simp add: accepts_def)
  with assms(2) s show ?thesis
    by (simp add: at_minion_def cpp_simps AddWriteTask_run submit_def Let_def)
qed

text \<open>A request inside one chunk of the drive.\<close>

definition in_chunk :: "size_t \<Rightarrow> size_t \<Rightarrow> MinionManager \<Rightarrow> bool" where
  "in_chunk off len mm \<longleftrightarrow> len \<noteq> 0 \<and> unat off mod unat (m_MBMinion mm) + unat len \<le> unat (m_MBMinion mm) \<and>
     unat off + unat len \<le> unat (m_driveSize mm) \<and> m_MBMinion mm \<noteq> 0 \<and>
     2 \<le> length (m_minions mm) \<and>
     unat (m_driveSize mm) = length (m_minions mm) * unat (m_MBMinion mm)"

definition primary_of :: "size_t \<Rightarrow> MinionManager \<Rightarrow> nat" where
  "primary_of off mm = unat off div unat (m_MBMinion mm)"

definition backup_of :: "size_t \<Rightarrow> MinionManager \<Rightarrow> nat" where
  "backup_of off mm = (primary_of off mm + 1) mod length (m_minions mm)"

text \<open>When the drive size did not wrap around, neither does the number of minions, nor a range inside the drive.\<close>

lemma minion_count_fits:
  assumes "unat (m_driveSize mm) = length (m_minions mm) * unat (m_MBMinion mm)" and "m_MBMinion mm \<noteq> 0"
  shows "unat (word_of_nat (length (m_minions mm)) :: size_t) = length (m_minions mm)"
proof -
  have "0 < unat (m_MBMinion mm)" using assms(2) by (simp add: unat_gt_0)
  then have "length (m_minions mm) * 1 \<le> unat (m_driveSize mm)"
    unfolding assms(1) by (intro mult_le_mono) auto
  then have "length (m_minions mm) * 1 < 18446744073709551616" by (rule le_less_trans) (rule unat_bound64)
  then show ?thesis by (simp add: unat_of_nat)
qed

lemma range_valid:
  assumes "unat off + unat len \<le> unat (m_driveSize mm)"
  shows "unat off + unat len < 2 ^ 64" "ValidateRange off len mm = Inr ()"
proof -
  show nov: "unat off + unat len < 2 ^ 64" using assms by (rule le_less_trans) simp
  show "ValidateRange off len mm = Inr ()"
    using assms unat_add_64 [OF nov] by (simp add: ValidateRange_def word_less_nat_alt)
qed

lemma in_chunk_segment:
  assumes "in_chunk off len mm"
  obtains seg where
    "rbind (ValidateRange off len mm) (\<lambda>_. Split off len (m_MBMinion mm) (word_of_nat (length (m_minions mm)))) =
      Inr [seg]"
    "unat (localOffset seg) = unat off mod unat (m_MBMinion mm)" "segLength seg = len" "bufferOffset seg = 0"
    "unat (primaryMinionIndex seg) = primary_of off mm" "unat (backupMinionIndex seg) = backup_of off mm"
    "primary_of off mm < length (m_minions mm)" "backup_of off mm < length (m_minions mm)"
    "primary_of off mm \<noteq> backup_of off mm"
proof -
  let ?c = "m_MBMinion mm" and ?n = "length (m_minions mm)"
  from assms have a: "len \<noteq> 0" "unat off mod unat ?c + unat len \<le> unat ?c"
    "unat off + unat len \<le> unat (m_driveSize mm)" "?c \<noteq> 0" "2 \<le> ?n"
    "unat (m_driveSize mm) = ?n * unat ?c"
    by (auto simp: in_chunk_def)
  have c: "0 < unat ?c" and l: "0 < unat len" using a by (simp_all add: unat_gt_0)
  note nov = range_valid(1) [OF a(3)] and v = range_valid(2) [OF a(3)]
  note n64 = minion_count_fits [OF a(6,4)]
  then have n0: "(word_of_nat ?n :: size_t) \<noteq> 0" using a(5) by (auto simp flip: unat_eq_0)
  have p: "primary_of off mm < ?n"
    using a(3,6) l c unfolding primary_of_def by (metis add_lessD1 le_less_trans less_add_same_cancel1
        less_mult_imp_div_less less_le_trans not_le)
  have neq: "primary_of off mm \<noteq> backup_of off mm"
    using p a(5) unfolding backup_of_def by (cases "primary_of off mm + 1 = ?n") auto
  have b: "backup_of off mm < ?n"
    unfolding backup_of_def using a(5) by (intro mod_less_divisor) linarith
  show ?thesis
  proof (rule stripe.within_chunk [OF a(4) n0 nov a(1,2)])
    fix s assume "Split off len ?c (word_of_nat ?n) = Inr [s]"
      "unat (localOffset s) = unat off mod unat ?c" "segLength s = len" "bufferOffset s = 0"
      "unat (primaryMinionIndex s) = unat off div unat ?c"
      "unat (backupMinionIndex s) = (unat off div unat ?c + 1) mod unat (word_of_nat ?n :: size_t)"
    with v p neq b n64 show ?thesis
      by (intro that [of s]) (auto simp: primary_of_def backup_of_def)
  qed
qed

text \<open>The callback's ticket and the two submissions of a one-segment request.\<close>

definition mirrored :: "nat \<Rightarrow> nat \<Rightarrow> UID \<Rightarrow> TicketOp \<Rightarrow> size_t \<Rightarrow> StripeSegment
    \<Rightarrow> byte list \<times> log_entry list \<Rightarrow> master \<Rightarrow> master" where
  "mirrored p b uid opr len seg bytes m =
     submit b uid (length (tickets m), 0, BACKUP) bytes
      (submit p uid (length (tickets m), 0, PRIMARY) bytes (opened uid opr len [seg] m))"

lemma read_task_run:
  assumes w: "wired m" and acc: "accepts (e_sendto e)" and ic: "in_chunk off len (manager m)"
    and ts: "tasks m = [NBDReadArgs uid (new_TaskArgs off len None)]"
  obtains seg lo where "run_task e 0 m = Inr (Inr (), mirrored (primary_of off (manager m)) (backup_of off (manager m))
      uid OP_READ len seg (wire [] (MessageReadSend (GetID uid) lo len),
        [(SEV_DEBUG, sent_line (MessageReadSend (GetID uid) lo len))]) (m\<lparr>tasks := []\<rparr>))"
    "unat lo = unat off mod unat (m_MBMinion (manager m))" "segLength seg = len" "bufferOffset seg = 0"
proof -
  obtain seg where seg: "rbind (ValidateRange off len (manager m)) (\<lambda>_. Split off len (m_MBMinion (manager m))
      (word_of_nat (length (m_minions (manager m))))) = Inr [seg]"
    "unat (localOffset seg) = unat off mod unat (m_MBMinion (manager m))" "segLength seg = len" "bufferOffset seg = 0"
    "unat (primaryMinionIndex seg) = primary_of off (manager m)" "unat (backupMinionIndex seg) = backup_of off (manager m)"
    "primary_of off (manager m) < length (m_minions (manager m))" "backup_of off (manager m) < length (m_minions (manager m))"
    using in_chunk_segment [OF ic] by blast
  have d: "mm_dispatcher (manager (m\<lparr>tasks := []\<rparr>)) = [m_newTicketCallback]"
    using w by (simp add: wired_def)
  have o: "open_ticket notify_new_ticket uid OP_READ off len (m\<lparr>tasks := []\<rparr>) =
      Inr (Inr (length (tickets m), [seg]), opened uid OP_READ len [seg] (m\<lparr>tasks := []\<rparr>))"
    using open_ticket_run [OF d] seg(1) by simp
  have "MinionManager_AddReadTask (e_sendto e) (e_g e) notify_new_ticket uid off len (m\<lparr>tasks := []\<rparr>) =
      Inr (Inr (), mirrored (primary_of off (manager m)) (backup_of off (manager m)) uid OP_READ len seg
        (wire [] (MessageReadSend (GetID uid) (localOffset seg) len),
         [(SEV_DEBUG, sent_line (MessageReadSend (GetID uid) (localOffset seg) len))]) (m\<lparr>tasks := []\<rparr>))"
    using submit_read [OF acc, of "primaryMinionIndex seg"] submit_read [OF acc, of "backupMinionIndex seg"] seg
    by (simp add: MinionManager_AddReadTask_def cbind_run(1) o mirrored_def cpp_simps)
  then show ?thesis
    using that [OF _ seg(2,3,4)] ts w
    by (simp add: run_task_def FW_TPTask_Run_def cpp_simps wired_def Factory_Create_def ReadCommand_Run_def
        new_TaskArgs_def ctry_run)
qed

lemma write_task_run:
  assumes w: "wired m" and acc: "accepts (e_sendto e)" and ic: "in_chunk off len (manager m)"
    and ts: "tasks m = [NBDWriteArgs uid (new_TaskArgs off len (Some d))]"
    and d: "length d = unat len" "unat len + 33 < BUFSIZ" "e_past e \<noteq> []" "BUFSIZ \<le> e_heap_max e"
  obtains seg lo where "run_task e 0 m = Inr (Inr (), mirrored (primary_of off (manager m)) (backup_of off (manager m))
      uid OP_WRITE len seg (wire (e_past e) (MessageWriteSend (GetID uid) lo len (Some d)), []) (m\<lparr>tasks := []\<rparr>))"
    "unat lo = unat off mod unat (m_MBMinion (manager m))" "segLength seg = len" "bufferOffset seg = 0"
proof -
  obtain seg where seg: "rbind (ValidateRange off len (manager m)) (\<lambda>_. Split off len (m_MBMinion (manager m))
      (word_of_nat (length (m_minions (manager m))))) = Inr [seg]"
    "unat (localOffset seg) = unat off mod unat (m_MBMinion (manager m))" "segLength seg = len" "bufferOffset seg = 0"
    "unat (primaryMinionIndex seg) = primary_of off (manager m)" "unat (backupMinionIndex seg) = backup_of off (manager m)"
    "primary_of off (manager m) < length (m_minions (manager m))" "backup_of off (manager m) < length (m_minions (manager m))"
    using in_chunk_segment [OF ic] by blast
  have ds: "mm_dispatcher (manager (m\<lparr>tasks := []\<rparr>)) = [m_newTicketCallback]"
    using w by (simp add: wired_def)
  have o: "open_ticket notify_new_ticket uid OP_WRITE off len (m\<lparr>tasks := []\<rparr>) =
      Inr (Inr (length (tickets m), [seg]), opened uid OP_WRITE len [seg] (m\<lparr>tasks := []\<rparr>))"
    using open_ticket_run [OF ds] seg(1) by simp
  have sl: "slice_of (e_g e) (e_heap_max e) (Some d) seg = Inr d"
    using seg(3,4) d by (simp add: slice_of_def memcpy_def)
  have "MinionManager_AddWriteTask (e_sendto e) (e_g e) (e_past e) (e_heap_max e) notify_new_ticket uid off len
      (Some d) (m\<lparr>tasks := []\<rparr>) =
      Inr (Inr (), mirrored (primary_of off (manager m)) (backup_of off (manager m)) uid OP_WRITE len seg
        (wire (e_past e) (MessageWriteSend (GetID uid) (localOffset seg) len (Some d)), []) (m\<lparr>tasks := []\<rparr>))"
    using submit_write [OF acc _ d(1-3), of "primaryMinionIndex seg"]
      submit_write [OF acc _ d(1-3), of "backupMinionIndex seg"] seg
    by (simp add: MinionManager_AddWriteTask_def cbind_run(1) o mirrored_def cpp_simps sl)
  then show ?thesis
    using that [OF _ seg(2,3,4)] ts w
    by (simp add: run_task_def FW_TPTask_Run_def cpp_simps wired_def Factory_Create_def WriteCommand_Run_def
        new_TaskArgs_def ctry_run)
qed

section \<open>Answers become the reply\<close>

lemma get_put_minion [simp]:
  "i < length (m_minions (manager m)) \<Longrightarrow> get_minion i (put_minion i p m) = p"
  "i \<noteq> j \<Longrightarrow> get_minion j (put_minion i p m) = get_minion j m"
  by (simp_all add: get_minion_def put_minion_def)

lemma put_minion_fields [simp]:
  "tickets (put_minion i p m) = tickets m" "nbd_proxy (put_minion i p m) = nbd_proxy m"
  "responses (put_minion i p m) = responses m" "tasks (put_minion i p m) = tasks m"
  "s_counter (put_minion i p m) = s_counter m"
  "m_MBMinion (manager (put_minion i p m)) = m_MBMinion (manager m)"
  "m_driveSize (manager (put_minion i p m)) = m_driveSize (manager m)"
  "mm_reactor (manager (put_minion i p m)) = mm_reactor (manager m)"
  "length (m_minions (manager (put_minion i p m))) = length (m_minions (manager m))"
  "wired (put_minion i p m) = wired m"
  by (simp_all add: put_minion_def wired_def)

lemma get_minion_other [simp]:
  "get_minion i (m\<lparr>tickets := ts\<rparr>) = get_minion i m" "get_minion i (m\<lparr>s_counter := c\<rparr>) = get_minion i m"
  "get_minion i (m\<lparr>responses := rm\<rparr>) = get_minion i m" "get_minion i (m\<lparr>nbd_proxy := np\<rparr>) = get_minion i m"
  "get_minion i (m\<lparr>tasks := tk\<rparr>) = get_minion i m" "get_minion i (m\<lparr>ms_log := l\<rparr>) = get_minion i m"
  by (simp_all add: get_minion_def)

text \<open>The state in which the callback of an answer has run, and the removal of its entry.\<close>

definition retick :: "nat \<Rightarrow> sockaddr \<Rightarrow> nat \<Rightarrow> Ticket \<Rightarrow> master \<Rightarrow> master" where
  "retick i addr t T m =
     (put_minion i (retarget addr (get_minion i m)) m)\<lparr>tickets := (tickets m)[t := T],
       s_counter := (if t_completed T \<and> \<not> t_completed (tickets m ! t) then s_counter m + 1 else s_counter m)\<rparr>"

definition erase_at :: "nat \<Rightarrow> UID \<Rightarrow> master \<Rightarrow> master" where
  "erase_at i uid m =
     put_minion i ((get_minion i m)\<lparr>m_map := map_erase uid (m_map (get_minion i m))\<rparr>) m"

lemma minion_answer_run:
  assumes w: "wired m" and i: "i < length (m_minions (manager m))" "mm_reactor (manager m) (fd, MODE_READ) = Some i"
    and msg: "GetMessageType msg \<in> {READ_RECEIVE, WRITE_RECEIVE}" "sendable [] msg"
      "unat (GetSize msg) < BUFSIZ" "BUFSIZ \<le> heap_max"
    and cb: "m_map (get_minion i m) (UID (GetUID msg)) = Some (t, k, role)"
    and tk: "OnMirrorResponse g k role (Some msg) (tickets m ! t) = Inr (T, out)"
  shows "minion_readable g (notify_done h) stack heap_max fd (Some (addr, wire [] msg)) m =
    cbind (cforeach (\<lambda>(cb, result). notify_done h cb result) out)
      (\<lambda>_. cmodify (erase_at i (UID (GetUID msg)))) (retick i addr t T m)"
proof -
  have f: "mm_factory (manager m) (type_code (GetMessageType msg)) = Some (GetMessageType msg)"
    using w msg(1) by (auto simp: wired_def)
  have z: "zoom (get_minion i) (put_minion i) (cmodify (\<lambda>p. p\<lparr>m_map := map_erase (UID (GetUID msg)) (m_map p)\<rparr>)) =
      cmodify (erase_at i (UID (GetUID msg)))"
    by (rule ext) (simp add: cpp_simps erase_at_def)
  have "as_received [] msg = msg" using msg(1) by (cases msg) auto
  from wakeup_answer [where msg = msg and factory = "mm_factory (manager m)" and get = "get_minion i"
      and put = "put_minion i" and s = m and addr = addr and heap_max = heap_max] this msg i(1) f
  have "OnMinionFDWakeUp (get_minion i) (put_minion i) (call_onDone g (notify_done h)) (mm_factory (manager m))
      stack heap_max (Some (addr, wire [] msg)) m =
    cbind (call_onDone g (notify_done h) (t, k, role) msg) (\<lambda>_. cmodify (erase_at i (UID (GetUID msg))))
      (put_minion i (retarget addr (get_minion i m)) m)"
    by (simp add: cb z)
  also have "\<dots> = cbind (cforeach (\<lambda>(cb, result). notify_done h cb result) out)
      (\<lambda>_. cmodify (erase_at i (UID (GetUID msg)))) (retick i addr t T m)"
    by (simp add: call_onDone_def cpp_simps tk retick_def UID_next_def)
  finally show ?thesis by (simp add: minion_readable_def cpp_simps i(2))
qed

definition settled :: "UID \<Rightarrow> TCPClient \<Rightarrow> log_entry list \<Rightarrow> master \<Rightarrow> master" where
  "settled u s l m = m\<lparr>responses := (responses m)\<lparr>m_tickets := map_erase u (m_tickets (responses m)),
       m_requests := map_erase u (m_requests (responses m))\<rparr>,
     ms_log := l,
     nbd_proxy := (nbd_proxy m)\<lparr>np_socket := s, m_responses := map_erase u (m_responses (nbd_proxy m))\<rparr>\<rparr>"

lemma OnTicketDone_run:
  assumes "wired m" and "m_requests (responses m) (res_uid r) \<noteq> None"
    and rp: "m_responses (nbd_proxy m) (res_uid r) = Some rp" and ok: "sends_ok (np_socket (nbd_proxy m))"
    and b: "\<And>b. res_buffer r = Some b \<Longrightarrow> unat (res_length r) \<le> length b"
  obtains s l where "OnTicketDone h r m = Inr (Inr (), settled (res_uid r) s l m)" "sends_ok s"
    "tcp_in s = tcp_in (np_socket (nbd_proxy m))"
    "tcp_out s = tcp_out (np_socket (nbd_proxy m)) @ answer_bytes h rp r"
proof -
  define l where "l = ms_log m @ [if res_result r then (SEV_DEBUG, ''Task succeeded'') else (SEV_WARNING, ''Task failed'')]"
  define m1 where "m1 = m\<lparr>ms_log := l, responses := (responses m)\<lparr>
    m_tickets := map_erase (res_uid r) (m_tickets (responses m)),
    m_requests := map_erase (res_uid r) (m_requests (responses m))\<rparr>\<rparr>"
  have "OnTicketDone h r m = OnNBDResponse h r m1"
    using assms(1,2)
    by (cases "res_result r") (auto simp: OnTicketDone_def OnSuccess_def OnFailure_def cpp_simps m1_def l_def wired_def)
  moreover have "m_responses (nbd_proxy m1) (res_uid r) = Some rp" "sends_ok (np_socket (nbd_proxy m1))"
    using rp ok by (simp_all add: m1_def)
  note OnNBDResponse_run [OF this b, of h]
  ultimately show ?thesis
    using that [where l = "l @ [(SEV_DEBUG, ''reply sent!'')]"] by (auto simp: settled_def m1_def)
qed

end
