(* ===== verification/File_Manager.thy ===== *)
theory File_Manager
  imports Iot_Prelude
begin

text \<open>
  \<open>concrete/src/FileManager.cpp\<close>: a minion's backing file behind one \<open>std::fstream\<close>.  The stream has one
  position, shared by reading and writing, and a state that is good or not: a short read sets the
  end-of-file and the fail bit together, a failed seek sets the fail bit, and nothing in the program
  clears the fail bit.  On a stream that is not good, seeking, reading and writing do nothing.
  Offsets are converted to signed 64-bit stream offsets, so the upper half of \<open>size_t\<close> fails to seek.
  The file system is taken to accept every write to an open file.
\<close>

section \<open>Model\<close>

record FileManager =
  fm_data :: "byte list"
  fm_pos :: nat
  fm_open :: bool
  fm_good :: bool

definition new_FileManager :: FileManager where
  "new_FileManager = \<lparr>fm_data = [], fm_pos = 0, fm_open = False, fm_good = True\<rparr>"

text \<open>\<open>m_stream.seekg(off)\<close> and \<open>m_stream.seekp(off)\<close>\<close>

definition stream_seek :: "size_t \<Rightarrow> FileManager \<Rightarrow> FileManager" where
  "stream_seek off fm =
     (if \<not> fm_good fm then fm
      else if fm_open fm \<and> 0 \<le> sint off then fm\<lparr>fm_pos := unat off\<rparr>
      else fm\<lparr>fm_good := False\<rparr>)"

text \<open>
  \<open>m_stream.read(buffer, n)\<close>: what the file has is copied to the front of the buffer.
\<close>

definition stream_read :: "size_t \<Rightarrow> byte list \<Rightarrow> FileManager \<Rightarrow> (FileManager \<times> byte list) res" where
  "stream_read n buffer fm =
     (if \<not> fm_good fm then Inr (fm, buffer)
      else if sint n < 0 then Inr (fm\<lparr>fm_good := False\<rparr>, buffer)
      else let bytes = take (unat n) (drop (fm_pos fm) (fm_data fm));
               k = length bytes
           in if k > length buffer then Inl (UB OutOfBoundsWrite)
              else Inr (fm\<lparr>fm_pos := fm_pos fm + k, fm_good := (k = unat n)\<rparr>,
                        bytes @ drop k buffer))"

text \<open>\<open>m_stream.write(buffer, n)\<close>: a write behind the end of the file fills the gap with zeros.\<close>

definition stream_write :: "size_t \<Rightarrow> byte list \<Rightarrow> FileManager \<Rightarrow> FileManager res" where
  "stream_write n buffer fm =
     (if \<not> fm_good fm \<or> n = 0 then Inr fm
      else if unat n > length buffer then Inl (UB OutOfBoundsRead)
      else let base = fm_data fm @ replicate (fm_pos fm - length (fm_data fm)) 0
           in Inr (fm\<lparr>fm_data := splice base (fm_pos fm) (take (unat n) buffer),
                      fm_pos := fm_pos fm + unat n\<rparr>))"

definition ReadFromFile :: "size_t \<Rightarrow> size_t \<Rightarrow> byte list \<Rightarrow> FileManager
    \<Rightarrow> (bool \<times> FileManager \<times> byte list) res" where
  "ReadFromFile offset len buffer fm =
     rbind (stream_read len buffer (stream_seek offset fm)) (\<lambda>(fm, buffer).
     Inr (fm_good fm, fm, buffer))"

text \<open>The buffer comes as a shared pointer that may be null.\<close>

definition WriteToFile :: "size_t \<Rightarrow> size_t \<Rightarrow> char_array \<Rightarrow> FileManager
    \<Rightarrow> (bool \<times> FileManager) res" where
  "WriteToFile offset len buffer fm =
     (let fm = stream_seek offset fm
      in rbind (case buffer of
                  Some b \<Rightarrow> stream_write len b fm
                | None \<Rightarrow> if fm_good fm \<and> len \<noteq> 0 then Inl (UB NullPointer) else Inr fm) (\<lambda>fm.
         Inr (fm_good fm, fm)))"

text \<open>
  \<open>Init(file, size)\<close>: \<open>created\<close> and \<open>opened\<close> say whether the two opens succeed.  The first one truncates
  the file; the byte written at \<open>size - 1\<close> gives it its size.
\<close>

definition FileManager_Init :: "bool \<Rightarrow> bool \<Rightarrow> size_t \<Rightarrow> FileManager \<Rightarrow> FileManager res" where
  "FileManager_Init created opened sz fm =
     rbind (guard created (Throw (runtime_error ''FileManager: failed to create file''))) (\<lambda>_.
     rbind (guard opened (Throw (runtime_error ''FileManager: failed to open file''))) (\<lambda>_.
       let fm = fm\<lparr>fm_data := [], fm_pos := 0, fm_open := True\<rparr>;
           fm = stream_seek (sz - 1) fm
       in rbind (stream_write 1 [0] fm) (\<lambda>fm. Inr (stream_seek 0 fm))))"

section \<open>The contract of a byte store\<close>

text \<open>
  What the minion's command handlers rely on: inside the stored range, loading returns the stored bytes
  and changes nothing, storing overwrites exactly its range.
\<close>

locale byte_store =
  fixes load :: "size_t \<Rightarrow> size_t \<Rightarrow> 's \<Rightarrow> (byte list \<times> 's) option"
    and store :: "size_t \<Rightarrow> size_t \<Rightarrow> byte list \<Rightarrow> 's \<Rightarrow> 's option"
    and contents :: "'s \<Rightarrow> byte list"
    and ready :: "'s \<Rightarrow> bool"
  assumes load_in_range: "ready s \<Longrightarrow> unat off + unat len \<le> length (contents s) \<Longrightarrow>
      \<exists>s'. load off len s = Some (take (unat len) (drop (unat off) (contents s)), s') \<and>
        ready s' \<and> contents s' = contents s"
    and store_in_range: "ready s \<Longrightarrow> unat off + unat len \<le> length (contents s) \<Longrightarrow>
      unat len \<le> length d \<Longrightarrow>
      \<exists>s'. store off len d s = Some s' \<and> ready s' \<and>
        contents s' = splice (contents s) (unat off) (take (unat len) d)"
begin

text \<open>The bytes just stored are the bytes loaded.\<close>

lemma load_after_store:
  assumes "ready s" "unat off + unat len \<le> length (contents s)" "length d = unat len"
  shows "\<exists>s1 s2. store off len d s = Some s1 \<and> load off len s1 = Some (d, s2) \<and> ready s2"
proof -
  from store_in_range [OF assms(1,2), of d] assms(3) obtain s1 where s1: "store off len d s = Some s1"
    "ready s1" "contents s1 = splice (contents s) (unat off) d" by auto
  with assms have "unat off + unat len \<le> length (contents s1)" by simp
  from load_in_range [OF s1(2) this] s1 assms show ?thesis
    using slice_splice_same [of "unat off" d "contents s"] by auto
qed

text \<open>Storing leaves every other range alone.\<close>

lemma load_other_after_store:
  assumes "ready s" "unat off + unat len \<le> length (contents s)" "length d = unat len"
    and "unat o' + unat l' \<le> length (contents s)"
    and "unat o' + unat l' \<le> unat off \<or> unat off + unat len \<le> unat o'"
  shows "\<exists>s1 s2. store off len d s = Some s1 \<and>
    load o' l' s1 = Some (take (unat l') (drop (unat o') (contents s)), s2)"
proof -
  from store_in_range [OF assms(1,2), of d] assms(3) obtain s1 where s1: "store off len d s = Some s1"
    "ready s1" "contents s1 = splice (contents s) (unat off) d" by auto
  with assms have "unat o' + unat l' \<le> length (contents s1)" by simp
  from load_in_range [OF s1(2) this] s1 assms show ?thesis
    using slice_splice_other [of "unat off" d "contents s" "unat o'" "unat l'"] by auto
qed

end

section \<open>The file is a byte store\<close>

text \<open>A file that is open, good and of a size that a stream offset can address.\<close>

definition fm_ready :: "FileManager \<Rightarrow> bool" where
  "fm_ready fm \<longleftrightarrow> fm_open fm \<and> fm_good fm \<and> length (fm_data fm) < 2 ^ 63"

definition fm_load :: "(nat \<Rightarrow> byte) \<Rightarrow> size_t \<Rightarrow> size_t \<Rightarrow> FileManager \<Rightarrow> (byte list \<times> FileManager) option"
  where
  "fm_load g off len fm =
     (case ReadFromFile off len (new_char g (unat len)) fm of
        Inr (True, fm', b) \<Rightarrow> Some (b, fm') | _ \<Rightarrow> None)"

definition fm_store :: "size_t \<Rightarrow> size_t \<Rightarrow> byte list \<Rightarrow> FileManager \<Rightarrow> FileManager option" where
  "fm_store off len d fm =
     (case WriteToFile off len (Some d) fm of Inr (True, fm') \<Rightarrow> Some fm' | _ \<Rightarrow> None)"

lemma sint_nonneg: "unat (w :: size_t) < 2 ^ 63 \<Longrightarrow> 0 \<le> sint w"
proof -
  assume "unat w < 2 ^ 63"
  then have "int (unat w) < int (2 ^ 63)" by (simp only: of_nat_less_iff)
  then have "uint w < 2 ^ 63" by simp
  then have "\<not> bit (uint w) 63" by (simp add: bit_iff_odd)
  then show ?thesis by (simp add: sint_uint)
qed

lemma stream_seek_ready:
  "fm_ready fm \<Longrightarrow> unat off \<le> length (fm_data fm) \<Longrightarrow> stream_seek off fm = fm\<lparr>fm_pos := unat off\<rparr>"
  by (simp add: stream_seek_def fm_ready_def sint_nonneg)

lemma ReadFromFile_ready:
  assumes "fm_ready fm" "unat off + unat len \<le> length (fm_data fm)" "unat len \<le> length buffer"
  shows "ReadFromFile off len buffer fm =
    Inr (True, fm\<lparr>fm_pos := unat off + unat len\<rparr>,
      take (unat len) (drop (unat off) (fm_data fm)) @ drop (unat len) buffer)"
proof -
  from assms(1,2) have "unat len < 2 ^ 63" by (simp add: fm_ready_def)
  with assms sint_nonneg show ?thesis
    by (simp add: ReadFromFile_def stream_seek_ready stream_read_def fm_ready_def Let_def not_less)
qed

lemma WriteToFile_ready:
  assumes "fm_ready fm" "unat off + unat len \<le> length (fm_data fm)" "unat len \<le> length d"
  shows "\<exists>p. WriteToFile off len (Some d) fm =
    Inr (True, fm\<lparr>fm_data := splice (fm_data fm) (unat off) (take (unat len) d), fm_pos := p\<rparr>)"
proof (cases "len = 0")
  case True
  then have "splice (fm_data fm) (unat off) (take (unat len) d) = fm_data fm"
    by (simp add: splice_def)
  with True assms show ?thesis
    by (auto simp: WriteToFile_def stream_seek_ready stream_write_def fm_ready_def)
next
  case False
  with assms show ?thesis
    by (auto simp: WriteToFile_def stream_seek_ready stream_write_def fm_ready_def Let_def)
qed

interpretation minion_file: byte_store "fm_load g" fm_store fm_data fm_ready for g
proof (unfold_locales, goal_cases)
  case (1 s off len)
  then show ?case
    by (simp add: fm_load_def ReadFromFile_ready) (simp add: fm_ready_def)
next
  case (2 s off len d)
  then obtain p where "WriteToFile off len (Some d) s =
      Inr (True, s\<lparr>fm_data := splice (fm_data s) (unat off) (take (unat len) d), fm_pos := p\<rparr>)"
    using WriteToFile_ready by blast
  with 2 show ?case by (simp add: fm_store_def) (simp add: fm_ready_def)
qed

lemma not_good_ReadFromFile: "\<not> fm_good fm \<Longrightarrow> ReadFromFile off len buffer fm = Inr (False, fm, buffer)"
  by (simp add: ReadFromFile_def stream_seek_def stream_read_def)

lemma not_good_WriteToFile: "\<not> fm_good fm \<Longrightarrow> WriteToFile off len buffer fm = Inr (False, fm)"
  by (simp add: WriteToFile_def stream_seek_def stream_write_def Let_def split: option.split)

lemma short_read_fails:
  assumes "fm_good fm" and "length (fm_data fm) < unat off + unat len" and "len \<noteq> 0"
    and "ReadFromFile off len buffer fm = Inr (ok, fm', buffer')"
  shows "\<not> ok \<and> \<not> fm_good fm' \<and> fm_data fm' = fm_data fm"
proof -
  have "0 < unat len" using assms(3) by (simp add: unat_gt_0)
  then have "min (length (fm_data fm) - unat off) (unat len) \<noteq> unat len"
    using assms(2) by arith
  with assms(1,4) show ?thesis
    by (auto simp: ReadFromFile_def stream_seek_def stream_read_def Let_def split: if_splits)
qed

lemma init_zeroed:
  assumes "fm_good fm" and sz: "0 < unat sz" "unat sz < 2 ^ 63"
  shows "\<exists>fm'. FileManager_Init True True sz fm = Inr fm' \<and> fm_ready fm' \<and>
      fm_data fm' = replicate (unat sz) 0"
proof -
  have u: "unat (sz - 1) = unat sz - 1"
    using sz(1) by (simp add: unat_minus_one unat_gt_0)
  then have "0 \<le> sint (sz - 1)" using sz by (intro sint_nonneg) simp
  moreover have "replicate (unat sz - 1) 0 @ [0] = (replicate (unat sz) 0 :: byte list)"
    using sz(1) by (metis Suc_diff_1 replicate_Suc replicate_append_same)
  ultimately show ?thesis
    using sz assms
    by (simp add: FileManager_Init_def stream_seek_def stream_write_def fm_ready_def splice_def u)
qed

section \<open>Properties\<close>

text \<open>
  On a healthy file, bytes written inside the file are the bytes read back from the same place,
  and a range that does not overlap the write still reads as before.
\<close>

theorem file_read_after_write:
  assumes "fm_ready fm" and "unat off + unat len \<le> length (fm_data fm)" and "length d = unat len"
    and "length b = unat len" and "length b' = unat l'"
    and "unat o' + unat l' \<le> length (fm_data fm)"
    and "unat o' + unat l' \<le> unat off \<or> unat off + unat len \<le> unat o'"
  shows "\<exists>fm1 fm2 fm3. WriteToFile off len (Some d) fm = Inr (True, fm1) \<and>
    ReadFromFile off len b fm1 = Inr (True, fm2, d) \<and>
    ReadFromFile o' l' b' fm1 = Inr (True, fm3, take (unat l') (drop (unat o') (fm_data fm)))"
proof -
  obtain p where w: "WriteToFile off len (Some d) fm =
      Inr (True, fm\<lparr>fm_data := splice (fm_data fm) (unat off) d, fm_pos := p\<rparr>)"
    using WriteToFile_ready [OF assms(1,2), of d] assms(3) by auto
  let ?fm = "fm\<lparr>fm_data := splice (fm_data fm) (unat off) d, fm_pos := p\<rparr>"
  from assms have r: "fm_ready ?fm" by (simp add: fm_ready_def)
  show ?thesis
    using w ReadFromFile_ready [OF r, of off len b] ReadFromFile_ready [OF r, of o' l' b'] assms
      slice_splice_same [of "unat off" d "fm_data fm"]
      slice_splice_other [of "unat off" d "fm_data fm" "unat o'" "unat l'"]
    by auto
qed

text \<open>
  One read past the end of the file disables the minion for good: it reports failure, and from then
  on every read and every write, wherever it points, reports failure and leaves the file unchanged.
\<close>

theorem short_read_disables_file:
  assumes "fm_good fm" and "length (fm_data fm) < unat off + unat len" and "len \<noteq> 0"
    and "ReadFromFile off len buffer fm = Inr (ok, fm', buffer')"
  shows "\<not> ok \<and> fm_data fm' = fm_data fm \<and>
    ReadFromFile o' l' b' fm' = Inr (False, fm', b') \<and> WriteToFile o' l' d' fm' = Inr (False, fm')"
  using short_read_fails [OF assms] not_good_ReadFromFile not_good_WriteToFile by simp

text \<open>
  \<open>Init\<close> gives a file of exactly \<open>size\<close> zero bytes, ready for use, whatever the file held before,
  for every size of at least 1 and below \<open>2 ^ 63\<close>; size 0 leaves a stream on which every operation fails.
\<close>

theorem init_gives_zeroed_file:
  assumes "fm_good fm"
  shows "(0 < unat sz \<and> unat sz < 2 ^ 63 \<longrightarrow>
      (\<exists>fm'. FileManager_Init True True sz fm = Inr fm' \<and> fm_ready fm' \<and>
        fm_data fm' = replicate (unat sz) 0)) \<and>
    (\<exists>fm'. FileManager_Init True True 0 fm = Inr fm' \<and> \<not> fm_good fm')"
proof -
  have z: "sint (0 - 1 :: size_t) < 0" by simp
  then have "\<exists>fm'. FileManager_Init True True 0 fm = Inr fm' \<and> \<not> fm_good fm'"
    using assms by (auto simp: FileManager_Init_def stream_seek_def stream_write_def Let_def)
  with init_zeroed [OF assms] show ?thesis by blast
qed

section \<open>Witnesses\<close>

definition ex_file :: FileManager where
  "ex_file = \<lparr>fm_data = [10, 20, 30, 40, 50, 60, 70, 80], fm_pos = 0, fm_open = True, fm_good = True\<rparr>"

theorem file_read_after_write_witness:
  "\<exists>fm1 fm2 fm3. WriteToFile 2 3 (Some [1, 2, 3]) ex_file = Inr (True, fm1) \<and>
     ReadFromFile 2 3 [0, 0, 0] fm1 = Inr (True, fm2, [1, 2, 3]) \<and>
     ReadFromFile 5 2 [0, 0] fm1 = Inr (True, fm3, [60, 70])"
  using file_read_after_write [of ex_file 2 3 "[1, 2, 3]" "[0, 0, 0]" "[0, 0]" 2 5]
  by (simp add: ex_file_def fm_ready_def)

theorem short_read_disables_file_witness:
  "\<exists>fm'. ReadFromFile 6 4 [0, 0, 0, 0] ex_file = Inr (False, fm', [70, 80, 0, 0]) \<and>
     WriteToFile 0 1 (Some [1]) fm' = Inr (False, fm')"
proof -
  let ?fm = "ex_file\<lparr>fm_pos := 8, fm_good := False\<rparr>"
  have r: "ReadFromFile 6 4 [0, 0, 0, 0] ex_file = Inr (False, ?fm, [70, 80, 0, 0])"
    by (simp add: ReadFromFile_def stream_seek_def stream_read_def ex_file_def)
  from short_read_disables_file [OF _ _ _ r, of 0 1 "[1]" "Some [1]"] r
  show ?thesis by (simp add: ex_file_def)
qed

theorem init_gives_zeroed_file_witness:
  "\<exists>fm'. FileManager_Init True True 4 new_FileManager = Inr fm' \<and> fm_ready fm' \<and>
     fm_data fm' = [0, 0, 0, 0]"
proof -
  have "unat (4 :: size_t) = Suc (Suc (Suc (Suc 0)))" by simp
  then have "replicate (unat (4 :: size_t)) 0 = ([0, 0, 0, 0] :: byte list)"
    by (simp only: replicate.simps)
  with init_gives_zeroed_file [of new_FileManager 4] show ?thesis
    by (simp add: new_FileManager_def)
qed

end
