(* ===== verification/Minion_Server.thy ===== *)
theory Minion_Server
  imports Task_Args File_Manager
begin

text \<open>
  The minion process: \<open>MasterProxy\<close> receives request datagrams and sends the answers
  (\<open>concrete/src/MasterProxy.cpp\<close>), \<open>MinionReadCommand\<close> and \<open>MinionWriteCommand\<close> carry them out on the
  file (\<open>MinionCommands.cpp\<close>), and the framework's reactor callback and \<open>FW_TPTask\<close> connect the two
  (\<open>framework/src/Framework.cpp\<close>, \<open>FW_TPTask.cpp\<close>).  The state is the process's singletons.  Parameters:
  \<open>sendto\<close> says which datagrams the socket accepts, \<open>stack\<close> is the indeterminate content of the receive
  buffer, \<open>g\<close> that of heap blocks, \<open>heap_max\<close> the largest block that can be allocated.  Log entries of
  severity DEBUG are left out.
\<close>

section \<open>Model\<close>

datatype minion_command = MinionReadCommand | MinionWriteCommand

record minion =
  mn_socket :: "UDPSocket option"
  mn_args_factory :: "(uint32_t, size_t \<Rightarrow> TaskArgs \<Rightarrow> ATaskArgs) Factory"
  mn_msg_factory :: "(uint32_t, MESSAGE_TYPE) Factory"
  mn_cmd_factory :: "(int, minion_command) Factory"
  mn_file :: FileManager
  mn_tasks :: "ATaskArgs list"
  mn_sent :: "datagram list"
  mn_log :: "log_entry list"

definition mn_Log :: "string \<Rightarrow> Severity \<Rightarrow> minion \<Rightarrow> minion" where
  "mn_Log text sev m = m\<lparr>mn_log := mn_log m @ [(sev, text)]\<rparr>"

definition MasterProxy_Init :: "UDPSocket res \<Rightarrow> minion \<Rightarrow> minion res" where
  "MasterProxy_Init socket m =
     rbind socket (\<lambda>sock.
     Inr (m\<lparr>mn_socket := Some sock,
       mn_args_factory :=
         Factory_Register (type_code WRITE_SEND) new_MinionWriteArgs
         (Factory_Register (type_code READ_SEND) new_MinionReadArgs (mn_args_factory m)),
       mn_msg_factory :=
         Factory_Register (type_code WRITE_SEND) WRITE_SEND
         (Factory_Register (type_code READ_SEND) READ_SEND (mn_msg_factory m))\<rparr>))"

text \<open>\<open>m_socket.value()\<close>\<close>

definition socket_value :: "minion \<Rightarrow> UDPSocket res" where
  "socket_value m =
     (case mn_socket m of None \<Rightarrow> Inl (Throw bad_optional_access) | Some s \<Rightarrow> Inr s)"

definition got_line :: "AMessage \<Rightarrow> string" where
  "got_line msg = ''Minion got: '' @ to_string (GetUID msg) @ '' '' @ to_string (GetOffset msg) @ '' '' @
     to_string (GetLength msg)"

definition MasterProxy_GetTaskArgs :: "byte list \<Rightarrow> nat \<Rightarrow> datagram option \<Rightarrow> minion
    \<Rightarrow> (ATaskArgs option \<times> minion) res" where
  "MasterProxy_GetTaskArgs stack heap_max recvfrom m =
     rbind (socket_value m) (\<lambda>sock.
     rbind (ReceiveFrom (BUFSIZ - 1) recvfrom sock) (\<lambda>(received, sock).
     let m = m\<lparr>mn_socket := Some sock\<rparr>
     in rbind (read_frame stack received) (\<lambda>fr.
       case fr of
         ShortPacket \<Rightarrow> Inr (None, mn_Log ''MasterProxy: short UDP packet'' SEV_WARNING m)
       | SizeMismatch \<Rightarrow> Inr (None, mn_Log ''MasterProxy: UDP packet size mismatch'' SEV_WARNING m)
       | Frame messageType runner \<Rightarrow>
           rbind (Factory_Create (mn_msg_factory m) messageType) (\<lambda>cls.
           rbind (FromBuffer heap_max cls runner) (\<lambda>(inputMessage, rest).
           let m = mn_Log (got_line inputMessage) SEV_DEBUG m
           in rbind (Factory_Create (mn_args_factory m) messageType) (\<lambda>creator.
           Inr (Some (creator (GetUID inputMessage) (new_TaskArgs (GetOffset inputMessage)
                  (GetLength inputMessage) (GetData inputMessage))), m)))))))"

definition mn_send :: "(datagram \<Rightarrow> bool) \<Rightarrow> (nat \<Rightarrow> byte) \<Rightarrow> AMessage \<Rightarrow> minion \<Rightarrow> minion res" where
  "mn_send sendto g msg m =
     rbind (serialize g [] msg) (\<lambda>buffer.
     rbind (socket_value m) (\<lambda>sock.
     rbind (SendTo sendto buffer sock) (\<lambda>dg.
     Inr (m\<lparr>mn_sent := mn_sent m @ [dg]\<rparr>))))"

definition SendReadResponse :: "(datagram \<Rightarrow> bool) \<Rightarrow> (nat \<Rightarrow> byte) \<Rightarrow> UID \<Rightarrow> bool \<Rightarrow> size_t
    \<Rightarrow> char_array \<Rightarrow> minion \<Rightarrow> minion res" where
  "SendReadResponse sendto g uid result len data m =
     mn_send sendto g (new_MessageReadReceive (GetID uid) result len data) m"

definition SendWriteResponse :: "(datagram \<Rightarrow> bool) \<Rightarrow> (nat \<Rightarrow> byte) \<Rightarrow> UID \<Rightarrow> bool \<Rightarrow> minion
    \<Rightarrow> minion res" where
  "SendWriteResponse sendto g uid result m =
     mn_send sendto g (new_MessageWriteReceive (GetID uid) result) m"

text \<open>
  \<open>MinionReadCommand::Run\<close>: allocate, read, answer; an exception is logged, with the file as it is then.
\<close>

definition MinionReadCommand_Run :: "(datagram \<Rightarrow> bool) \<Rightarrow> (nat \<Rightarrow> byte) \<Rightarrow> nat \<Rightarrow> ATaskArgs
    \<Rightarrow> minion \<Rightarrow> minion res" where
  "MinionReadCommand_Run sendto g heap_max args m =
     (case args of
        MinionReadArgs uid ta \<Rightarrow>
          if unat (MinionReadArgs_GetLength ta) > heap_max
          then Inr (mn_Log (''MinionReadCommand: '' @ what bad_alloc) SEV_ERROR m)
          else
            rbind (ReadFromFile (MinionReadArgs_GetOffset ta) (MinionReadArgs_GetLength ta)
                     (new_char g (unat (MinionReadArgs_GetLength ta))) (mn_file m)) (\<lambda>(result, file, readBuffer).
            let m = m\<lparr>mn_file := file\<rparr>
            in try_catch (SendReadResponse sendto g uid result (MinionReadArgs_GetLength ta) (Some readBuffer) m)
                 (\<lambda>e. Inr (mn_Log (''MinionReadCommand: '' @ what e) SEV_ERROR m)))
      | _ \<Rightarrow> Inr (mn_Log ''MinionReadCommand: invalid task args'' SEV_ERROR m))"

definition MinionWriteCommand_Run :: "(datagram \<Rightarrow> bool) \<Rightarrow> (nat \<Rightarrow> byte) \<Rightarrow> ATaskArgs
    \<Rightarrow> minion \<Rightarrow> minion res" where
  "MinionWriteCommand_Run sendto g args m =
     (case args of
        MinionWriteArgs uid ta \<Rightarrow>
          rbind (WriteToFile (MinionWriteArgs_GetOffset ta) (MinionWriteArgs_GetLength ta) (MinionWriteArgs_GetBuffer ta)
                   (mn_file m)) (\<lambda>(result, file).
          let m = m\<lparr>mn_file := file\<rparr>
          in try_catch (SendWriteResponse sendto g uid result m)
               (\<lambda>e. Inr (mn_Log (''MinionWriteCommand: '' @ what e) SEV_ERROR m)))
      | _ \<Rightarrow> Inr (mn_Log ''MinionWriteCommand: invalid task args'' SEV_ERROR m))"

text \<open>The callback that \<open>Framework\<close> registers for the proxy's socket.\<close>

definition minion_on_readable :: "byte list \<Rightarrow> nat \<Rightarrow> datagram option \<Rightarrow> minion \<Rightarrow> minion res" where
  "minion_on_readable stack heap_max recvfrom m =
     rbind (MasterProxy_GetTaskArgs stack heap_max recvfrom m) (\<lambda>(pTaskArgs, m).
     case pTaskArgs of
       None \<Rightarrow> Inr (mn_Log ''Framework: failed to get task args'' SEV_WARNING m)
     | Some args \<Rightarrow> Inr (m\<lparr>mn_tasks := mn_tasks m @ [args]\<rparr>))"

text \<open>\<open>FW_TPTask::Run\<close> with the minion's commands, which never return an asynchronous part.\<close>

definition minion_FW_TPTask_Run :: "(datagram \<Rightarrow> bool) \<Rightarrow> (nat \<Rightarrow> byte) \<Rightarrow> nat \<Rightarrow> ATaskArgs
    \<Rightarrow> minion \<Rightarrow> minion res" where
  "minion_FW_TPTask_Run sendto g heap_max args m =
     try_catch
       (rbind (Factory_Create (mn_cmd_factory m) (GetKey args)) (\<lambda>pCommand.
          case pCommand of
            MinionReadCommand \<Rightarrow> MinionReadCommand_Run sendto g heap_max args m
          | MinionWriteCommand \<Rightarrow> MinionWriteCommand_Run sendto g args m))
       (\<lambda>e. Inr (mn_Log (''FW_TPTask: '' @ what e) SEV_ERROR m))"

text \<open>One worker takes one task.\<close>

definition minion_run_task :: "(datagram \<Rightarrow> bool) \<Rightarrow> (nat \<Rightarrow> byte) \<Rightarrow> nat \<Rightarrow> minion \<Rightarrow> minion res" where
  "minion_run_task sendto g heap_max m =
     (case mn_tasks m of
        [] \<Rightarrow> Inr m
      | args # rest \<Rightarrow> minion_FW_TPTask_Run sendto g heap_max args (m\<lparr>mn_tasks := rest\<rparr>))"

text \<open>The minion's \<open>main\<close> (\<open>TestFirstMinion.cpp\<close>): initialise proxy and file, register the commands.\<close>

definition minion_start :: "UDPSocket res \<Rightarrow> bool \<Rightarrow> bool \<Rightarrow> size_t \<Rightarrow> minion res" where
  "minion_start socket created opened chunkSize =
     (let m = \<lparr>mn_socket = None, mn_args_factory = Map.empty, mn_msg_factory = Map.empty,
            mn_cmd_factory = Map.empty, mn_file = new_FileManager, mn_tasks = [], mn_sent = [],
            mn_log = []\<rparr>
      in rbind (MasterProxy_Init socket m) (\<lambda>m.
         rbind (FileManager_Init created opened chunkSize (mn_file m)) (\<lambda>file.
         Inr (m\<lparr>mn_file := file,
           mn_cmd_factory := Factory_Register 1 MinionReadCommand
             (Factory_Register 0 MinionWriteCommand (mn_cmd_factory m))\<rparr>))))"

text \<open>A request datagram received and its task run to the end.\<close>

definition minion_serve :: "(datagram \<Rightarrow> bool) \<Rightarrow> (nat \<Rightarrow> byte) \<Rightarrow> byte list \<Rightarrow> nat \<Rightarrow> datagram \<Rightarrow> minion
    \<Rightarrow> minion res" where
  "minion_serve sendto g stack heap_max dg m =
     rbind (minion_on_readable stack heap_max (Some dg) m) (\<lambda>m.
     minion_run_task sendto g heap_max m)"

text \<open>The requests of a list of datagrams, one after the other.\<close>

fun minion_serve_all :: "(datagram \<Rightarrow> bool) \<Rightarrow> (nat \<Rightarrow> byte) \<Rightarrow> byte list \<Rightarrow> nat \<Rightarrow> datagram list
    \<Rightarrow> minion \<Rightarrow> minion res" where
  "minion_serve_all sendto g stack heap_max [] m = Inr m"
| "minion_serve_all sendto g stack heap_max (dg # dgs) m =
     rbind (minion_serve sendto g stack heap_max dg m)
       (minion_serve_all sendto g stack heap_max dgs)"

section \<open>What a minion promises\<close>

text \<open>The minion as a disk that answers one message per request.\<close>

fun spec_serve :: "byte list \<Rightarrow> AMessage \<Rightarrow> byte list \<times> AMessage" where
  "spec_serve disk (MessageReadSend u off l) =
     (disk, MessageReadReceive u 1 l (Some (take (unat l) (drop (unat off) disk))))"
| "spec_serve disk (MessageWriteSend u off l (Some d)) =
     (splice disk (unat off) (take (unat l) d), MessageWriteReceive u 1)"
| "spec_serve disk msg = (disk, MessageWriteReceive (m_uid msg) 0)"

fun spec_serve_all :: "byte list \<Rightarrow> AMessage list \<Rightarrow> byte list \<times> AMessage list" where
  "spec_serve_all disk [] = (disk, [])"
| "spec_serve_all disk (msg # msgs) =
     (let (disk, answer) = spec_serve disk msg; (disk, answers) = spec_serve_all disk msgs
      in (disk, answer # answers))"

text \<open>A request the channel can carry, for a range of a disk of \<open>n\<close> bytes.\<close>

fun good_request :: "byte list \<Rightarrow> nat \<Rightarrow> nat \<Rightarrow> AMessage \<Rightarrow> bool" where
  "good_request past heap_max n (MessageReadSend u off l) =
     (unat off + unat l \<le> n \<and> unat l + 25 < BUFSIZ \<and> BUFSIZ \<le> heap_max)"
| "good_request past heap_max n (MessageWriteSend u off l (Some d)) =
     (unat off + unat l \<le> n \<and> unat l + 33 < BUFSIZ \<and> BUFSIZ \<le> heap_max \<and> length d = unat l \<and> past \<noteq> [])"
| "good_request past heap_max n msg = False"

text \<open>A started minion between two requests.\<close>

definition minion_registered :: "minion \<Rightarrow> bool" where
  "minion_registered m \<longleftrightarrow> mn_socket m \<noteq> None \<and> mn_tasks m = [] \<and>
     mn_args_factory m 0 = Some new_MinionReadArgs \<and> mn_args_factory m 1 = Some new_MinionWriteArgs \<and>
     mn_msg_factory m 0 = Some READ_SEND \<and> mn_msg_factory m 1 = Some WRITE_SEND \<and>
     mn_cmd_factory m 1 = Some MinionReadCommand \<and> mn_cmd_factory m 0 = Some MinionWriteCommand"

definition minion_ready :: "minion \<Rightarrow> bool" where
  "minion_ready m \<longleftrightarrow> minion_registered m \<and> fm_ready (mn_file m)"

section \<open>Lemmas\<close>

text \<open>The arguments a request message becomes.\<close>

definition request_args :: "byte list \<Rightarrow> AMessage \<Rightarrow> ATaskArgs" where
  "request_args past msg =
     (let ta = new_TaskArgs (GetOffset msg) (GetLength msg) (GetData (as_received past msg))
      in if GetMessageType msg = READ_SEND then new_MinionReadArgs (m_uid msg) ta
         else new_MinionWriteArgs (m_uid msg) ta)"

definition is_request :: "AMessage \<Rightarrow> bool" where
  "is_request msg \<longleftrightarrow> GetMessageType msg \<in> {READ_SEND, WRITE_SEND}"

lemma intake_request:
  assumes reg: "minion_registered m" and sock: "mn_socket m = Some s"
    and msg: "sendable past msg" "unat (GetSize msg) \<le> heap_max" "unat (GetSize msg) < BUFSIZ"
      "is_request msg"
  shows "minion_on_readable stack heap_max (Some (addr, wire past msg)) m =
    Inr (m\<lparr>mn_socket := Some (s\<lparr>m_serveraddr := addr\<rparr>), mn_tasks := [request_args past msg],
      mn_log := mn_log m @ [(SEV_DEBUG, got_line (as_received past msg))]\<rparr>)"
proof -
  have e: "serialize (\<lambda>_. 0) past msg = Inr (wire past msg)" using msg(1) by (rule serialize_wire)
  have "length (wire past msg) < BUFSIZ" using msg by (simp add: length_wire)
  from wire.delivered [OF conjI [OF msg(1,2)] e this, of stack]
  obtain runner rest where
    "read_frame stack (take (BUFSIZ - 1) (wire past msg)) =
       Inr (Frame (type_code (GetMessageType msg)) runner)"
    "FromBuffer heap_max (GetMessageType msg) runner = Inr (as_received past msg, rest)"
    by blast
  with reg sock msg(4) show ?thesis
    by (cases msg)
      (simp_all add: minion_on_readable_def MasterProxy_GetTaskArgs_def socket_value_def
        ReceiveFrom_def Factory_Create_def minion_registered_def is_request_def request_args_def
        GetUID_def mn_Log_def Let_def)
qed

text \<open>The two commands on a registered minion, for any outcome of the file operation.\<close>

lemma serve_read:
  assumes "minion_registered m" "mn_socket m = Some s" "accepts sendto"
    and l: "unat l + 25 < BUFSIZ" "BUFSIZ \<le> heap_max"
    and "ReadFromFile off l (new_char g (unat l)) (mn_file m) = Inr (ok, fm, b)" "length b = unat l"
  shows "minion_serve sendto g stack heap_max (addr, wire past (MessageReadSend u off l)) m =
    Inr (m\<lparr>mn_socket := Some (s\<lparr>m_serveraddr := addr\<rparr>), mn_file := fm,
      mn_log := mn_log m @ [(SEV_DEBUG, got_line (MessageReadSend u off l))],
      mn_sent := mn_sent m @ [(addr, wire [] (MessageReadReceive u (of_bool ok) l (Some b)))]\<rparr>)"
proof -
  let ?r = "MessageReadReceive u (of_bool ok) l (Some b)"
  have s: "sendable [] ?r" using l(1) assms(7) by (simp add: BUFSIZ_def)
  have "length (wire [] ?r) < BUFSIZ"
    using l(1) length_wire [OF s] by (simp add: unat_GetSize BUFSIZ_def)
  with assms(3) have "sendto (addr, wire [] ?r)" by (simp add: accepts_def)
  moreover have "minion_on_readable stack heap_max (Some (addr, wire past (MessageReadSend u off l))) m =
    Inr (m\<lparr>mn_socket := Some (s\<lparr>m_serveraddr := addr\<rparr>),
      mn_tasks := [request_args past (MessageReadSend u off l)],
      mn_log := mn_log m @ [(SEV_DEBUG, got_line (as_received past (MessageReadSend u off l)))]\<rparr>)"
    using l by (intro intake_request [OF assms(1,2)]) (simp_all add: unat_GetSize BUFSIZ_def is_request_def)
  ultimately show ?thesis
    using assms serialize_wire [OF s, of g] l
    by (simp add: minion_serve_def minion_run_task_def minion_FW_TPTask_Run_def request_args_def
        new_MinionReadArgs_def Factory_Create_def minion_registered_def MinionReadCommand_Run_def
        new_TaskArgs_def SendReadResponse_def new_MessageReadReceive_def mn_send_def socket_value_def
        SendTo_def Let_def)
qed

lemma serve_write:
  assumes "minion_registered m" "mn_socket m = Some s" "accepts sendto"
    and l: "unat l + 33 < BUFSIZ" "BUFSIZ \<le> heap_max" "length d = unat l" "past \<noteq> []"
    and "WriteToFile off l (Some (d @ take 1 past)) (mn_file m) = Inr (ok, fm)"
  shows "minion_serve sendto g stack heap_max (addr, wire past (MessageWriteSend u off l (Some d))) m =
    Inr (m\<lparr>mn_socket := Some (s\<lparr>m_serveraddr := addr\<rparr>), mn_file := fm,
      mn_log := mn_log m @ [(SEV_DEBUG, got_line (as_received past (MessageWriteSend u off l (Some d))))],
      mn_sent := mn_sent m @ [(addr, wire [] (MessageWriteReceive u (of_bool ok)))]\<rparr>)"
proof -
  let ?r = "MessageWriteReceive u (of_bool ok)" and ?q = "MessageWriteSend u off l (Some d)"
  have s: "sendable [] ?r" by simp
  have "length (wire [] ?r) < BUFSIZ" by (simp add: wire_def BUFSIZ_def)
  with assms(3) have "sendto (addr, wire [] ?r)" by (simp add: accepts_def)
  moreover have "minion_on_readable stack heap_max (Some (addr, wire past ?q)) m =
    Inr (m\<lparr>mn_socket := Some (s\<lparr>m_serveraddr := addr\<rparr>), mn_tasks := [request_args past ?q],
      mn_log := mn_log m @ [(SEV_DEBUG, got_line (as_received past ?q))]\<rparr>)"
    using l by (intro intake_request [OF assms(1,2)]) (simp_all add: unat_GetSize BUFSIZ_def is_request_def)
  ultimately show ?thesis
    using assms serialize_wire [OF s, of g] l
    by (simp add: minion_serve_def minion_run_task_def minion_FW_TPTask_Run_def request_args_def
        new_MinionWriteArgs_def Factory_Create_def minion_registered_def MinionWriteCommand_Run_def
        new_TaskArgs_def SendWriteResponse_def new_MessageWriteReceive_def mn_send_def socket_value_def
        SendTo_def Let_def)
qed

lemma minion_ready_update:
  assumes "minion_ready m" and "fm_ready fm"
  shows "minion_ready (m\<lparr>mn_socket := Some s, mn_file := fm, mn_log := l, mn_sent := ds\<rparr>)"
  using assms by (simp add: minion_ready_def minion_registered_def)

text \<open>One good request on a ready minion is one step of the disk.\<close>

lemma serve_good_request:
  assumes "minion_ready m" and acc: "accepts sendto"
    and "good_request past heap_max (length (fm_data (mn_file m))) msg"
  shows "\<exists>m'. minion_serve sendto g stack heap_max (addr, wire past msg) m = Inr m' \<and> minion_ready m' \<and>
    fm_data (mn_file m') = fst (spec_serve (fm_data (mn_file m)) msg) \<and>
    mn_sent m' = mn_sent m @ [(addr, wire [] (snd (spec_serve (fm_data (mn_file m)) msg)))]"
proof -
  from assms(1) obtain s where reg: "minion_registered m" and s: "mn_socket m = Some s"
    and f: "fm_ready (mn_file m)"
    by (auto simp: minion_ready_def minion_registered_def)
  consider (r) u off l where "msg = MessageReadSend u off l"
    | (w) u off l d where "msg = MessageWriteSend u off l (Some d)"
    using assms(3) by (cases "(past, heap_max, length (fm_data (mn_file m)), msg)"
        rule: good_request.cases) auto
  then show ?thesis
  proof cases
    case r
    with assms(3) have l: "unat l + 25 < BUFSIZ" "BUFSIZ \<le> heap_max"
      and range: "unat off + unat l \<le> length (fm_data (mn_file m))" by auto
    let ?fm = "(mn_file m)\<lparr>fm_pos := unat off + unat l\<rparr>"
    have "ReadFromFile off l (new_char g (unat l)) (mn_file m) =
        Inr (True, ?fm, take (unat l) (drop (unat off) (fm_data (mn_file m))))"
      using ReadFromFile_ready [OF f range] by simp
    moreover have "fm_ready ?fm" using f by (simp add: fm_ready_def)
    ultimately show ?thesis
      using serve_read [OF reg s acc l] minion_ready_update [OF assms(1)] range by (simp add: r)
  next
    case w
    with assms(3) have l: "unat l + 33 < BUFSIZ" "BUFSIZ \<le> heap_max" "length d = unat l" "past \<noteq> []"
      and range: "unat off + unat l \<le> length (fm_data (mn_file m))" by auto
    from WriteToFile_ready [OF f range, of "d @ take 1 past"] l(3) obtain p where
      wr: "WriteToFile off l (Some (d @ take 1 past)) (mn_file m) =
        Inr (True, (mn_file m)\<lparr>fm_data := splice (fm_data (mn_file m)) (unat off) d, fm_pos := p\<rparr>)"
      by auto
    moreover have "fm_ready ((mn_file m)\<lparr>fm_data := splice (fm_data (mn_file m)) (unat off) d, fm_pos := p\<rparr>)"
      using f range l(3) by (simp add: fm_ready_def)
    ultimately show ?thesis
      using serve_write [OF reg s acc l wr] minion_ready_update [OF assms(1)] l(3) by (simp add: w)
  qed
qed

lemma length_spec_serve:
  "good_request past heap_max (length disk) msg \<Longrightarrow> length (fst (spec_serve disk msg)) = length disk"
  by (cases "(disk, msg)" rule: spec_serve.cases) auto

lemma serve_all_good_requests:
  assumes "minion_ready m" and "accepts sendto"
    and "\<forall>msg \<in> set msgs. good_request past heap_max (length (fm_data (mn_file m))) msg"
  shows "\<exists>m'. minion_serve_all sendto g stack heap_max (map (\<lambda>msg. (addr, wire past msg)) msgs) m = Inr m' \<and>
    minion_ready m' \<and> fm_data (mn_file m') = fst (spec_serve_all (fm_data (mn_file m)) msgs) \<and>
    mn_sent m' = mn_sent m @
      map (\<lambda>answer. (addr, wire [] answer)) (snd (spec_serve_all (fm_data (mn_file m)) msgs))"
  using assms
proof (induction msgs arbitrary: m)
  case Nil
  then show ?case by simp
next
  case (Cons msg msgs)
  let ?d = "fm_data (mn_file m)"
  from Cons.prems have good: "good_request past heap_max (length ?d) msg" by simp
  from serve_good_request [OF Cons.prems(1,2) this] obtain m1 where
    m1: "minion_serve sendto g stack heap_max (addr, wire past msg) m = Inr m1" "minion_ready m1"
      "fm_data (mn_file m1) = fst (spec_serve ?d msg)"
      "mn_sent m1 = mn_sent m @ [(addr, wire [] (snd (spec_serve ?d msg)))]"
    by blast
  have "\<forall>msg \<in> set msgs. good_request past heap_max (length (fm_data (mn_file m1))) msg"
    using Cons.prems(3) length_spec_serve [OF good] m1(3) by simp
  from Cons.IH [OF m1(2) Cons.prems(2) this] m1 show ?case
    by (auto simp: split_beta Let_def)
qed

text \<open>Reading into a buffer of the requested length never leaves it.\<close>

lemma ReadFromFile_total:
  assumes "length b = unat len"
  obtains ok fm' b' where "ReadFromFile off len b fm = Inr (ok, fm', b')" "length b' = unat len"
proof -
  have "\<exists>ok fm' b'. ReadFromFile off len b fm = Inr (ok, fm', b') \<and> length b' = unat len"
    using assms by (auto simp: ReadFromFile_def stream_read_def Let_def)
  then show ?thesis using that by blast
qed

section \<open>Properties\<close>

text \<open>
  C8. A minion refines a disk that answers one message per request: for every sequence of read and
  write requests that the channel can carry and that stay inside the file, the minion ends with the
  disk's contents, and has sent exactly the disk's answers, one per request, in order, to the
  requester; it is then ready for the next request.
\<close>

theorem minion_refines_disk:
  assumes "minion_ready m" and "accepts sendto" and "fm_data (mn_file m) = disk"
    and "\<forall>msg \<in> set msgs. good_request past heap_max (length disk) msg"
    and "spec_serve_all disk msgs = (disk', answers)"
  shows "\<exists>m'. minion_serve_all sendto g stack heap_max (map (\<lambda>msg. (addr, wire past msg)) msgs) m = Inr m' \<and>
    minion_ready m' \<and> fm_data (mn_file m') = disk' \<and>
    mn_sent m' = mn_sent m @ map (\<lambda>answer. (addr, wire [] answer)) answers"
  using serve_all_good_requests [OF assms(1,2), of msgs past heap_max g stack addr] assms(3-5) by simp

text \<open>
  A minion started on a file of at least one and less than \<open>2 ^ 63\<close> bytes is ready, serves a zeroed
  disk of exactly that size, and has sent and logged nothing; a start that fails to open its socket or its file ends
  in that exception.
\<close>

theorem minion_start_ready:
  "(0 < unat sz \<and> unat sz < 2 ^ 63 \<longrightarrow>
     (\<exists>m. minion_start (Inr sock) True True sz = Inr m \<and> minion_ready m \<and>
        fm_data (mn_file m) = replicate (unat sz) 0 \<and> mn_sent m = [] \<and> mn_log m = [])) \<and>
   minion_start (Inl e) created opened sz = Inl e \<and>
   minion_start (Inr sock) False opened sz =
     Inl (Throw (runtime_error ''FileManager: failed to create file''))"
proof (intro conjI impI)
  assume sz: "0 < unat sz \<and> unat sz < 2 ^ 63"
  have "fm_good new_FileManager" by (simp add: new_FileManager_def)
  from init_zeroed [OF this] sz obtain fm where
    "FileManager_Init True True sz new_FileManager = Inr fm" "fm_ready fm"
    "fm_data fm = replicate (unat sz) 0" by blast
  then show "\<exists>m. minion_start (Inr sock) True True sz = Inr m \<and> minion_ready m \<and>
      fm_data (mn_file m) = replicate (unat sz) 0 \<and> mn_sent m = [] \<and> mn_log m = []"
    by (simp add: minion_start_def MasterProxy_Init_def minion_ready_def minion_registered_def
        Factory_Register_def)
qed (simp_all add: minion_start_def MasterProxy_Init_def FileManager_Init_def)

text \<open>
  One read request past the end of the file disables a minion: it is answered with a failure, and
  every later request, of any range and content, is answered with a failure too, the file unchanged;
  a failed read answers with the indeterminate contents of a fresh heap block.
\<close>

theorem minion_disabled_by_short_read:
  assumes "minion_ready m" and "accepts sendto" and "BUFSIZ \<le> heap_max"
    and "length (fm_data (mn_file m)) < unat off + unat l" and "l \<noteq> 0" and "unat l + 25 < BUFSIZ"
    and "unat l' + 33 < BUFSIZ" and "length d = unat l'" and "past \<noteq> []"
  shows "\<exists>b m1 m2 m3.
    minion_serve sendto g stack heap_max (addr, wire past (MessageReadSend u off l)) m = Inr m1 \<and>
    mn_sent m1 = mn_sent m @ [(addr, wire [] (MessageReadReceive u 0 l (Some b)))] \<and>
    minion_serve sendto g stack heap_max (addr, wire past (MessageReadSend u' off' l')) m1 = Inr m2 \<and>
    mn_sent m2 = mn_sent m1 @ [(addr, wire [] (MessageReadReceive u' 0 l' (Some (new_char g (unat l')))))] \<and>
    minion_serve sendto g stack heap_max (addr, wire past (MessageWriteSend u' off' l' (Some d))) m1 = Inr m3 \<and>
    mn_sent m3 = mn_sent m1 @ [(addr, wire [] (MessageWriteReceive u' 0))] \<and>
    fm_data (mn_file m3) = fm_data (mn_file m)"
proof -
  from assms(1) obtain s where reg: "minion_registered m" and s: "mn_socket m = Some s"
    and good: "fm_good (mn_file m)"
    by (auto simp: minion_ready_def minion_registered_def fm_ready_def)
  obtain ok fm b where rd: "ReadFromFile off l (new_char g (unat l)) (mn_file m) = Inr (ok, fm, b)"
    "length b = unat l"
    by (rule ReadFromFile_total [OF length_new_char])
  note bad = short_read_fails [OF good assms(4,5) rd(1)]
  define m1 where "m1 = m\<lparr>mn_socket := Some (s\<lparr>m_serveraddr := addr\<rparr>), mn_file := fm,
    mn_log := mn_log m @ [(SEV_DEBUG, got_line (MessageReadSend u off l))],
    mn_sent := mn_sent m @ [(addr, wire [] (MessageReadReceive u 0 l (Some b)))]\<rparr>"
  have "minion_serve sendto g stack heap_max (addr, wire past (MessageReadSend u off l)) m = Inr m1"
    using serve_read [OF reg s assms(2,6,3) rd] bad by (simp add: m1_def)
  moreover have reg1: "minion_registered m1" "mn_socket m1 = Some (s\<lparr>m_serveraddr := addr\<rparr>)"
    and f1: "\<not> fm_good (mn_file m1)" "fm_data (mn_file m1) = fm_data (mn_file m)"
    and "mn_sent m1 = mn_sent m @ [(addr, wire [] (MessageReadReceive u 0 l (Some b)))]"
    using reg bad by (simp_all add: m1_def minion_registered_def)
  moreover obtain m2 where "minion_serve sendto g stack heap_max
      (addr, wire past (MessageReadSend u' off' l')) m1 = Inr m2"
    "mn_sent m2 = mn_sent m1 @
      [(addr, wire [] (MessageReadReceive u' 0 l' (Some (new_char g (unat l')))))]"
    using serve_read [OF reg1 assms(2) _ assms(3) not_good_ReadFromFile [OF f1(1)] length_new_char,
      of l' g stack addr past u' off'] assms(7) by simp
  moreover obtain m3 where "minion_serve sendto g stack heap_max
      (addr, wire past (MessageWriteSend u' off' l' (Some d))) m1 = Inr m3"
    "mn_sent m3 = mn_sent m1 @ [(addr, wire [] (MessageWriteReceive u' 0))]"
    "fm_data (mn_file m3) = fm_data (mn_file m)"
    using serve_write [OF reg1 assms(2,7,3,8,9) not_good_WriteToFile [OF f1(1)],
      of g stack addr u' off'] f1(2) by simp
  ultimately show ?thesis by blast
qed

text \<open>
  A datagram of a message class the minion did not register ends the intake with an
  \<open>std::out_of_range\<close> that no caller up to the reactor loop handles: a stray answer stops a minion.
\<close>

theorem stray_answer_throws:
  assumes "minion_start (Inr sock) True True sz = Inr m" and "17 \<le> heap_max"
  shows "minion_on_readable stack heap_max (Some (addr, wire past (MessageWriteReceive u r))) m =
    Inl (Throw (out_of_range ''Key doesn't exist.''))"
proof -
  let ?msg = "MessageWriteReceive u r"
  have e: "serialize (\<lambda>_. 0) past ?msg = Inr (wire past ?msg)" by (rule serialize_wire) simp
  have "length (wire past ?msg) < BUFSIZ" by (simp add: wire_def BUFSIZ_def)
  from wire.delivered [OF _ e this, of heap_max stack] assms(2) obtain runner where
    "read_frame stack (take (BUFSIZ - 1) (wire past ?msg)) = Inr (Frame 3 runner)"
    by (auto simp: unat_GetSize)
  moreover from assms(1) obtain s where "mn_socket m = Some s" "mn_msg_factory m 3 = None"
    by (auto simp: minion_start_def MasterProxy_Init_def res_simps Factory_Register_def)
  ultimately show ?thesis
    by (simp add: minion_on_readable_def MasterProxy_GetTaskArgs_def socket_value_def ReceiveFrom_def
        Factory_Create_def)
qed

section \<open>Witnesses\<close>

definition ex_socket :: UDPSocket where
  "ex_socket = \<lparr>udp_fd = 4, m_serveraddr = []\<rparr>"

lemma ex_start:
  obtains m where "minion_start (Inr ex_socket) True True 8 = Inr m" "minion_ready m"
    "fm_data (mn_file m) = replicate 8 0" "mn_sent m = []"
proof -
  have "fm_good new_FileManager" by (simp add: new_FileManager_def)
  from init_zeroed [OF this, of 8] obtain fm where
    "FileManager_Init True True 8 new_FileManager = Inr fm" "fm_ready fm"
    "fm_data fm = replicate 8 0" by auto
  then show ?thesis
    by (intro that) (auto simp: minion_start_def MasterProxy_Init_def minion_ready_def minion_registered_def
        Factory_Register_def)
qed

lemma replicate_8: "replicate 8 (0 :: byte) = [0, 0, 0, 0, 0, 0, 0, 0]"
  by (simp add: eval_nat_numeral)

theorem minion_refines_disk_witness:
  "\<exists>m m'. minion_start (Inr ex_socket) True True 8 = Inr m \<and>
    minion_serve_all (\<lambda>_. True) (\<lambda>_. 9) [] BUFSIZ
      (map (\<lambda>msg. ([1], wire [7] msg)) [MessageWriteSend 1 2 3 (Some [5, 6, 7]), MessageReadSend 2 1 4]) m =
      Inr m' \<and>
    mn_sent m' = [([1], wire [] (MessageWriteReceive 1 1)),
      ([1], wire [] (MessageReadReceive 2 1 4 (Some [0, 5, 6, 7])))]"
proof -
  obtain m where m: "minion_start (Inr ex_socket) True True 8 = Inr m" "minion_ready m"
    "fm_data (mn_file m) = replicate 8 0" "mn_sent m = []" using ex_start .
  have s: "spec_serve_all (replicate 8 0) [MessageWriteSend 1 2 3 (Some [5, 6, 7]), MessageReadSend 2 1 4] =
    (splice (replicate 8 0) 2 [5, 6, 7],
      [MessageWriteReceive 1 1, MessageReadReceive 2 1 4 (Some [0, 5, 6, 7])])"
    by (simp add: splice_def replicate_8)
  show ?thesis
    using minion_refines_disk [OF m(2) _ m(3) _ s, of "\<lambda>_. True" "[7]" BUFSIZ "\<lambda>_. 9" "[]" "[1]"] m(1,4)
    by (auto simp: accepts_def BUFSIZ_def)
qed

theorem minion_start_ready_witness:
  "\<exists>m. minion_start (Inr ex_socket) True True 8 = Inr m \<and> minion_ready m \<and>
     fm_data (mn_file m) = replicate 8 0"
  using minion_start_ready [of 8 ex_socket "UB NullPointer" True True] by auto

theorem minion_disabled_by_short_read_witness:
  "\<exists>m b m1 m2. minion_start (Inr ex_socket) True True 8 = Inr m \<and>
    minion_serve (\<lambda>_. True) (\<lambda>_. 9) [] BUFSIZ ([1], wire [7] (MessageReadSend 1 6 3)) m = Inr m1 \<and>
    mn_sent m1 = [([1], wire [] (MessageReadReceive 1 0 3 (Some b)))] \<and>
    minion_serve (\<lambda>_. True) (\<lambda>_. 9) [] BUFSIZ ([1], wire [7] (MessageReadSend 2 0 2)) m1 = Inr m2 \<and>
    mn_sent m2 = mn_sent m1 @ [([1], wire [] (MessageReadReceive 2 0 2 (Some [9, 9])))]"
proof -
  obtain m where m: "minion_start (Inr ex_socket) True True 8 = Inr m" "minion_ready m"
    "fm_data (mn_file m) = replicate 8 0" "mn_sent m = []" using ex_start .
  have g: "new_char (\<lambda>_. 9) 2 = [9, 9]" by (simp add: new_char_def numeral_eq_Suc)
  show ?thesis
    using minion_disabled_by_short_read [OF m(2), of "\<lambda>_. True" BUFSIZ 6 3 2 "[0, 0]" "[7]" "\<lambda>_. 9" "[]"
      "[1]" 1 2 0] m g
    by (auto simp: accepts_def BUFSIZ_def)
qed

theorem stray_answer_throws_witness:
  "\<exists>m. minion_start (Inr ex_socket) True True 8 = Inr m \<and>
    minion_on_readable [] BUFSIZ (Some ([1], wire [] (MessageWriteReceive 5 1))) m =
      Inl (Throw (out_of_range ''Key doesn't exist.''))"
proof -
  obtain m where m: "minion_start (Inr ex_socket) True True 8 = Inr m" using ex_start .
  with stray_answer_throws [OF m, of BUFSIZ "[]" "[1]" "[]" 5 1] show ?thesis by (simp add: BUFSIZ_def)
qed

end
