(* ===== verification/Raid_System.thy ===== *)
theory Raid_System
  imports Master_Runs Minion_Server
begin

text \<open>
  The whole drive: one master and its minions, joined by a network that delivers.  A request of the NBD
  client is received, its task is run, and then the minions involved are served one after the other in
  a given order: the request datagram reaches the minion, the minion carries it out and answers, the
  answer reaches the master.  The theorems say what the NBD client gets and what the minions' files hold
  afterwards.
\<close>

section \<open>The system\<close>

record raid =
  rd_master :: master
  rd_minions :: "minion list"

definition handled :: "env \<Rightarrow> event \<Rightarrow> raid \<Rightarrow> raid res" where
  "handled e ev S =
     (case handle e ev (rd_master S) of
        Inl u \<Rightarrow> Inl (UB u)
      | Inr (Inl ex, m) \<Rightarrow> Inl (Throw ex)
      | Inr (Inr _, m) \<Rightarrow> Inr (S\<lparr>rd_master := m\<rparr>))"

text \<open>
  The last request sent to minion \<open>i\<close> is delivered from the master's address \<open>maddr\<close>, served, and its
  answer delivered.
\<close>

definition exchange :: "env \<Rightarrow> sockaddr \<Rightarrow> nat \<Rightarrow> raid \<Rightarrow> raid res" where
  "exchange e maddr i S =
     (let p = get_minion i (rd_master S); (addr, request) = last (mp_sent p)
      in rbind (minion_serve (e_sendto e) (e_g e) (e_stack e) (e_heap_max e) (maddr, request)
                  (rd_minions S ! i)) (\<lambda>mn.
         handled e (MinionReadable (GetMinionFD p) (Some (addr, snd (last (mn_sent mn)))))
           (S\<lparr>rd_minions := (rd_minions S)[i := mn]\<rparr>)))"

fun exchange_all :: "env \<Rightarrow> sockaddr \<Rightarrow> nat list \<Rightarrow> raid \<Rightarrow> raid res" where
  "exchange_all e maddr [] S = Inr S"
| "exchange_all e maddr (i # is) S = rbind (exchange e maddr i S) (exchange_all e maddr is)"

definition serve_request :: "env \<Rightarrow> sockaddr \<Rightarrow> nat list \<Rightarrow> raid \<Rightarrow> raid res" where
  "serve_request e maddr order S =
     rbind (handled e NbdReadable S) (\<lambda>S.
     rbind (handled e (RunTask 0) S)
       (exchange_all e maddr order))"

definition disk :: "raid \<Rightarrow> nat \<Rightarrow> byte list" where
  "disk S i = fm_data (mn_file (rd_minions S ! i))"

text \<open>A drive with no request under way.\<close>

definition master_idle :: "master \<Rightarrow> bool" where
  "master_idle m \<longleftrightarrow> master_inv m \<and> tasks m = [] \<and> m_responses (nbd_proxy m) = Map.empty \<and>
     m_requests (responses m) = Map.empty \<and> sends_ok (np_socket (nbd_proxy m)) \<and>
     (\<forall>i < length (m_minions (manager m)).
        mm_reactor (manager m) (GetMinionFD (get_minion i m), MODE_READ) = Some i) \<and>
     2 \<le> length (m_minions (manager m)) \<and>
     unat (m_driveSize (manager m)) = length (m_minions (manager m)) * unat (m_MBMinion (manager m))"

definition raid_idle :: "raid \<Rightarrow> bool" where
  "raid_idle S \<longleftrightarrow> master_idle (rd_master S) \<and>
     length (rd_minions S) = length (m_minions (manager (rd_master S))) \<and>
     (\<forall>mn \<in> set (rd_minions S). minion_ready mn \<and>
        length (fm_data (mn_file mn)) = unat (m_MBMinion (manager (rd_master S))))"

definition env_ok :: "env \<Rightarrow> bool" where
  "env_ok e \<longleftrightarrow> accepts (e_sendto e) \<and> BUFSIZ \<le> e_heap_max e \<and> e_past e \<noteq> []"

section \<open>The parts of the state each step leaves alone\<close>

lemma submit_fields [simp]:
  "tickets (submit i u c bs m) = tickets m" "nbd_proxy (submit i u c bs m) = nbd_proxy m"
  "responses (submit i u c bs m) = responses m" "tasks (submit i u c bs m) = tasks m"
  "m_MBMinion (manager (submit i u c bs m)) = m_MBMinion (manager m)"
  "m_driveSize (manager (submit i u c bs m)) = m_driveSize (manager m)"
  "mm_reactor (manager (submit i u c bs m)) = mm_reactor (manager m)"
  "wired (submit i u c bs m) = wired m"
  "i < length (m_minions (manager m)) \<Longrightarrow> get_minion j (submit i u c bs m) =
    (if j = i then (get_minion i m)\<lparr>m_map := (m_map (get_minion i m))(u \<mapsto> c), mp_sent :=
       mp_sent (get_minion i m) @ [(m_serveraddr (m_socket (get_minion i m)), fst bs)],
       mp_log := mp_log (get_minion i m) @ snd bs\<rparr> else get_minion j m)"
  by (simp_all add: submit_def Let_def)

lemma opened_fields [simp]:
  "tickets (opened u opr l segs m) =
     tickets m @ [RegisterToResultDispatcher m_ticketDoneCallback (new_Ticket u opr l segs)]"
  "nbd_proxy (opened u opr l segs m) = nbd_proxy m"
  "m_requests (responses (opened u opr l segs m)) = m_requests (responses m)"
  "tasks (opened u opr l segs m) = tasks m" "manager (opened u opr l segs m) = manager m"
  "wired (opened u opr l segs m) = wired m" "get_minion j (opened u opr l segs m) = get_minion j m"
  by (simp_all add: opened_def wired_def get_minion_def)

lemma retick_fields [simp]:
  "tickets (retick i addr t T m) = (tickets m)[t := T]" "nbd_proxy (retick i addr t T m) = nbd_proxy m"
  "responses (retick i addr t T m) = responses m" "tasks (retick i addr t T m) = tasks m"
  "m_MBMinion (manager (retick i addr t T m)) = m_MBMinion (manager m)"
  "m_driveSize (manager (retick i addr t T m)) = m_driveSize (manager m)"
  "mm_reactor (manager (retick i addr t T m)) = mm_reactor (manager m)"
  "length (m_minions (manager (retick i addr t T m))) = length (m_minions (manager m))"
  "wired (retick i addr t T m) = wired m"
  "i < length (m_minions (manager m)) \<Longrightarrow> get_minion j (retick i addr t T m) =
    (if j = i then retarget addr (get_minion i m) else get_minion j m)"
  by (simp_all add: retick_def) (simp_all add: wired_def put_minion_def)

lemma erase_at_fields [simp]:
  "tickets (erase_at i u m) = tickets m" "nbd_proxy (erase_at i u m) = nbd_proxy m"
  "responses (erase_at i u m) = responses m" "tasks (erase_at i u m) = tasks m"
  "m_MBMinion (manager (erase_at i u m)) = m_MBMinion (manager m)"
  "m_driveSize (manager (erase_at i u m)) = m_driveSize (manager m)"
  "mm_reactor (manager (erase_at i u m)) = mm_reactor (manager m)"
  "length (m_minions (manager (erase_at i u m))) = length (m_minions (manager m))"
  "wired (erase_at i u m) = wired m"
  "i < length (m_minions (manager m)) \<Longrightarrow> get_minion j (erase_at i u m) =
    (if j = i then (get_minion i m)\<lparr>m_map := map_erase u (m_map (get_minion i m))\<rparr> else get_minion j m)"
  by (simp_all add: erase_at_def)

lemma settled_fields [simp]:
  "tickets (settled u s l m) = tickets m" "tasks (settled u s l m) = tasks m"
  "manager (settled u s l m) = manager m" "wired (settled u s l m) = wired m"
  "m_responses (nbd_proxy (settled u s l m)) = map_erase u (m_responses (nbd_proxy m))"
  "np_socket (nbd_proxy (settled u s l m)) = s"
  "m_requests (responses (settled u s l m)) = map_erase u (m_requests (responses m))"
  "get_minion j (settled u s l m) = get_minion j m"
  by (simp_all add: settled_def wired_def proxy_registered_def get_minion_def)

lemma accept_request_fields [simp]:
  "tickets (accept_request u rp m) = tickets m" "tasks (accept_request u rp m) = tasks m"
  "manager (accept_request u rp m) = manager m" "wired (accept_request u rp m) = wired m"
  "m_responses (nbd_proxy (accept_request u rp m)) = map_emplace u rp (m_responses (nbd_proxy m))"
  "np_socket (nbd_proxy (accept_request u rp m)) = np_socket (nbd_proxy m)"
  "m_requests (responses (accept_request u rp m)) = map_emplace u () (m_requests (responses m))"
  "get_minion j (accept_request u rp m) = get_minion j m"
  by (simp_all add: accept_request_def wired_def proxy_registered_def get_minion_def)

lemma with_input_fields [simp]:
  "tickets (with_input evs m) = tickets m" "tasks (with_input evs m) = tasks m"
  "manager (with_input evs m) = manager m" "responses (with_input evs m) = responses m"
  "m_responses (nbd_proxy (with_input evs m)) = m_responses (nbd_proxy m)"
  "np_socket (nbd_proxy (with_input evs m)) = (np_socket (nbd_proxy m))\<lparr>tcp_in := evs\<rparr>"
  "get_minion j (with_input evs m) = get_minion j m"
  by (simp_all add: with_input_def get_minion_def)

lemma wired_other [simp]:
  "wired (m\<lparr>tasks := ts\<rparr>) = wired m" "wired (m\<lparr>s_counter := c\<rparr>) = wired m"
  by (simp_all add: wired_def)

lemma GetMinionFD_update [simp]:
  "GetMinionFD (retarget addr p) = GetMinionFD p" "GetMinionFD (p\<lparr>m_map := f\<rparr>) = GetMinionFD p"
  "GetMinionFD (p\<lparr>m_map := f, mp_sent := ds\<rparr>) = GetMinionFD p"
  by (simp_all add: GetMinionFD_def)

lemma sends_ok_input [simp]: "sends_ok (s\<lparr>tcp_in := evs\<rparr>) = sends_ok s"
  by (simp add: sends_ok_def)

section \<open>One answer\<close>

lemma answer_quiet:
  assumes "wired m" "i < length (m_minions (manager m))" "mm_reactor (manager m) (fd, MODE_READ) = Some i"
    "GetMessageType msg \<in> {READ_RECEIVE, WRITE_RECEIVE}" "sendable [] msg" "unat (GetSize msg) < BUFSIZ"
    "BUFSIZ \<le> e_heap_max e" "m_map (get_minion i m) (UID (GetUID msg)) = Some (t, k, role)"
    "OnMirrorResponse (e_g e) k role (Some msg) (tickets m ! t) = Inr (T, [])"
  shows "handle e (MinionReadable fd (Some (addr, wire [] msg))) m =
    Inr (Inr (), erase_at i (UID (GetUID msg)) (retick i addr t T m))"
  using minion_answer_run [OF assms] by (simp add: handle_def cpp_simps)

lemma answer_done:
  assumes "wired m" "i < length (m_minions (manager m))" "mm_reactor (manager m) (fd, MODE_READ) = Some i"
    "GetMessageType msg \<in> {READ_RECEIVE, WRITE_RECEIVE}" "sendable [] msg" "unat (GetSize msg) < BUFSIZ"
    "BUFSIZ \<le> e_heap_max e" "m_map (get_minion i m) (UID (GetUID msg)) = Some (t, k, role)"
    "OnMirrorResponse (e_g e) k role (Some msg) (tickets m ! t) = Inr (T, [(m_ticketDoneCallback, r)])"
    and "m_requests (responses m) (res_uid r) \<noteq> None" "m_responses (nbd_proxy m) (res_uid r) = Some rp"
    "sends_ok (np_socket (nbd_proxy m))" "\<And>b. res_buffer r = Some b \<Longrightarrow> unat (res_length r) \<le> length b"
  obtains s l where "handle e (MinionReadable fd (Some (addr, wire [] msg))) m =
    Inr (Inr (), erase_at i (UID (GetUID msg)) (settled (res_uid r) s l (retick i addr t T m)))"
    "sends_ok s" "tcp_in s = tcp_in (np_socket (nbd_proxy m))"
    "tcp_out s = tcp_out (np_socket (nbd_proxy m)) @ answer_bytes (e_h e) rp r"
proof -
  let ?m = "retick i addr t T m"
  obtain s l where "OnTicketDone (e_h e) r ?m = Inr (Inr (), settled (res_uid r) s l ?m)" "sends_ok s"
    "tcp_in s = tcp_in (np_socket (nbd_proxy m))"
    "tcp_out s = tcp_out (np_socket (nbd_proxy m)) @ answer_bytes (e_h e) rp r"
    using OnTicketDone_run [of ?m r rp "e_h e"] assms(1,10-13) by auto
  with minion_answer_run [OF assms(1-9)] that show ?thesis
    by (simp add: handle_def cpp_simps notify_done_def cbind_run(1))
qed

section \<open>One request under way\<close>

text \<open>
  The master while request \<open>u\<close> is under way, compared with the idle state \<open>M0\<close> before it: its ticket is
  \<open>T\<close> at \<open>t\<close>, the minions in \<open>rest\<close> have not answered yet and were sent \<open>bytes\<close>, and \<open>owed\<close> says whether
  the reply \<open>rp\<close> is still to be sent.
\<close>

definition same_minions :: "master \<Rightarrow> master \<Rightarrow> bool" where
  "same_minions M0 M \<longleftrightarrow> m_MBMinion (manager M) = m_MBMinion (manager M0) \<and>
     m_driveSize (manager M) = m_driveSize (manager M0) \<and> mm_reactor (manager M) = mm_reactor (manager M0) \<and>
     length (m_minions (manager M)) = length (m_minions (manager M0)) \<and>
     (\<forall>j < length (m_minions (manager M0)). GetMinionFD (get_minion j M) = GetMinionFD (get_minion j M0))"

definition inflight :: "master \<Rightarrow> UID \<Rightarrow> nbd_reply \<Rightarrow> nat \<Rightarrow> Ticket \<Rightarrow> bool \<Rightarrow> (nat \<times> MirrorRole) list \<Rightarrow> byte list
    \<Rightarrow> master \<Rightarrow> bool" where
  "inflight M0 u rp t T owed rest bytes M \<longleftrightarrow>
     master_inv M \<and> same_minions M0 M \<and> tasks M = [] \<and> t < length (tickets M) \<and> tickets M ! t = T \<and>
     m_responses (nbd_proxy M) = (if owed then [u \<mapsto> rp] else Map.empty) \<and>
     m_requests (responses M) = (if owed then [u \<mapsto> ()] else Map.empty) \<and> sends_ok (np_socket (nbd_proxy M)) \<and>
     (\<forall>(j, role) \<in> set rest. m_map (get_minion j M) u = Some (t, 0, role) \<and>
        mp_sent (get_minion j M) \<noteq> [] \<and> snd (last (mp_sent (get_minion j M))) = bytes)"

lemma inflight_idle:
  assumes "master_idle M0" and "inflight M0 u rp t T False rest bytes M"
  shows "master_idle M"
  using assms by (simp add: master_idle_def inflight_def same_minions_def)

text \<open>An answer of a minion: what it has to be, and the exchange that brings it.\<close>

definition answer_ok :: "UID \<Rightarrow> AMessage \<Rightarrow> bool" where
  "answer_ok u msg \<longleftrightarrow> GetMessageType msg \<in> {READ_RECEIVE, WRITE_RECEIVE} \<and> sendable [] msg \<and>
     unat (GetSize msg) < BUFSIZ \<and> UID (GetUID msg) = u"

lemma inflight_head:
  assumes "inflight M0 u rp t T owed ((i, role) # rest) bytes M" and "master_idle M0"
    and "i < length (m_minions (manager M0))"
  shows "wired M" "i < length (m_minions (manager M))"
    "mm_reactor (manager M) (GetMinionFD (get_minion i M), MODE_READ) = Some i"
    "m_map (get_minion i M) u = Some (t, 0, role)"
    "snd (last (mp_sent (get_minion i M))) = bytes"
  using assms by (auto simp: inflight_def same_minions_def master_idle_def master_inv_def)

lemma exchange_answer:
  assumes fl: "inflight M0 u rp t T owed ((i, role) # rest) bytes (rd_master S)"
    and i: "i < length (m_minions (manager M0))" "master_idle M0"
    and mn: "minion_serve (e_sendto e) (e_g e) (e_stack e) (e_heap_max e) (maddr, bytes) (rd_minions S ! i) = Inr mn"
      "mn_sent mn = xs @ [(maddr, wire [] msg)]"
    and h: "handle e (MinionReadable (GetMinionFD (get_minion i (rd_master S)))
        (Some (fst (last (mp_sent (get_minion i (rd_master S)))), wire [] msg))) (rd_master S) = Inr (Inr (), M')"
  shows "exchange e maddr i S = Inr \<lparr>rd_master = M', rd_minions = (rd_minions S)[i := mn]\<rparr>"
proof -
  let ?l = "last (mp_sent (get_minion i (rd_master S)))"
  have "?l = (fst ?l, bytes)" using inflight_head(5) [OF fl i(2,1)] by (metis prod.collapse)
  then obtain addr where "?l = (addr, bytes)" by blast
  with mn h show ?thesis by (simp add: exchange_def handled_def)
qed

lemma exchange_quiet:
  assumes fl: "inflight M0 u rp t T owed ((i, role) # rest) bytes (rd_master S)"
    and i: "i < length (m_minions (manager M0))" "i \<notin> fst ` set rest" "master_idle M0" "BUFSIZ \<le> e_heap_max e"
    and mn: "minion_serve (e_sendto e) (e_g e) (e_stack e) (e_heap_max e) (maddr, bytes) (rd_minions S ! i) = Inr mn"
      "mn_sent mn = xs @ [(maddr, wire [] msg)]" "answer_ok u msg"
    and tk: "OnMirrorResponse (e_g e) 0 role (Some msg) T = Inr (T', [])"
  shows "\<exists>M'. exchange e maddr i S = Inr \<lparr>rd_master = M', rd_minions = (rd_minions S)[i := mn]\<rparr> \<and>
    inflight M0 u rp t T' owed rest bytes M' \<and> np_socket (nbd_proxy M') = np_socket (nbd_proxy (rd_master S))"
proof -
  let ?M = "rd_master S"
  let ?addr = "fst (last (mp_sent (get_minion i ?M)))" and ?M' = "erase_at i u (retick i
    (fst (last (mp_sent (get_minion i ?M)))) t T' ?M)"
  note hd = inflight_head [OF fl i(3,1)]
  have T: "t < length (tickets ?M)" "tickets ?M ! t = T" using fl by (simp_all add: inflight_def)
  have msg: "GetMessageType msg \<in> {READ_RECEIVE, WRITE_RECEIVE}" "sendable [] msg" "unat (GetSize msg) < BUFSIZ"
    "UID (GetUID msg) = u" using mn(3) by (simp_all add: answer_ok_def)
  have run: "handle e (MinionReadable (GetMinionFD (get_minion i ?M)) (Some (?addr, wire [] msg))) ?M =
      Inr (Inr (), ?M')"
    using answer_quiet [OF hd(1-3) msg(1-3) i(4)] hd(4) tk T msg(4) by simp
  have "master_inv ?M'"
    using tripleD [OF keeps_handle run] fl by (simp add: inflight_def)
  moreover have sm: "same_minions M0 ?M'"
    using fl hd(2) by (auto simp: inflight_def same_minions_def)
  moreover have "\<forall>(j, role) \<in> set rest. m_map (get_minion j ?M') u = Some (t, 0, role) \<and> mp_sent (get_minion j ?M') \<noteq> [] \<and>
      snd (last (mp_sent (get_minion j ?M'))) = bytes"
    using fl i(2) hd(2) by (force simp: inflight_def)
  ultimately have "inflight M0 u rp t T' owed rest bytes ?M'"
    using fl T by (simp add: inflight_def)
  with exchange_answer [OF fl i(1,3) mn(1,2) run] show ?thesis by auto
qed

lemma exchange_done:
  assumes fl: "inflight M0 u rp t T True ((i, role) # rest) bytes (rd_master S)"
    and i: "i < length (m_minions (manager M0))" "i \<notin> fst ` set rest" "master_idle M0" "BUFSIZ \<le> e_heap_max e"
    and mn: "minion_serve (e_sendto e) (e_g e) (e_stack e) (e_heap_max e) (maddr, bytes) (rd_minions S ! i) = Inr mn"
      "mn_sent mn = xs @ [(maddr, wire [] msg)]" "answer_ok u msg"
    and tk: "OnMirrorResponse (e_g e) 0 role (Some msg) T = Inr (T', [(m_ticketDoneCallback, r)])"
    and r: "res_uid r = u" "\<And>b. res_buffer r = Some b \<Longrightarrow> unat (res_length r) \<le> length b"
  shows "\<exists>M'. exchange e maddr i S = Inr \<lparr>rd_master = M', rd_minions = (rd_minions S)[i := mn]\<rparr> \<and>
    inflight M0 u rp t T' False rest bytes M' \<and> nbd_input M' = nbd_input (rd_master S) \<and>
    nbd_output M' = nbd_output (rd_master S) @ answer_bytes (e_h e) rp r"
proof -
  let ?M = "rd_master S"
  let ?addr = "fst (last (mp_sent (get_minion i ?M)))"
  note hd = inflight_head [OF fl i(3,1)]
  have T: "t < length (tickets ?M)" "tickets ?M ! t = T" using fl by (simp_all add: inflight_def)
  have msg: "GetMessageType msg \<in> {READ_RECEIVE, WRITE_RECEIVE}" "sendable [] msg" "unat (GetSize msg) < BUFSIZ"
    "UID (GetUID msg) = u" using mn(3) by (simp_all add: answer_ok_def)
  have cb: "m_map (get_minion i ?M) (UID (GetUID msg)) = Some (t, 0, role)" using hd(4) msg(4) by simp
  have tk': "OnMirrorResponse (e_g e) 0 role (Some msg) (tickets ?M ! t) = Inr (T', [(m_ticketDoneCallback, r)])"
    using tk T by simp
  have ow: "m_requests (responses ?M) (res_uid r) \<noteq> None" "m_responses (nbd_proxy ?M) (res_uid r) = Some rp"
    "sends_ok (np_socket (nbd_proxy ?M))" using fl r(1) by (simp_all add: inflight_def)
  obtain s l where run: "handle e (MinionReadable (GetMinionFD (get_minion i ?M)) (Some (?addr, wire [] msg))) ?M =
      Inr (Inr (), erase_at i u (settled u s l (retick i ?addr t T' ?M)))"
    and s: "sends_ok s" "tcp_in s = tcp_in (np_socket (nbd_proxy ?M))"
      "tcp_out s = tcp_out (np_socket (nbd_proxy ?M)) @ answer_bytes (e_h e) rp r"
    using answer_done [OF hd(1-3) msg(1-3) i(4) cb tk' ow r(2)] r(1) msg(4) by metis
  let ?M' = "erase_at i u (settled u s l (retick i ?addr t T' ?M))"
  have "master_inv ?M'"
    using tripleD [OF keeps_handle run] fl by (simp add: inflight_def)
  moreover have sm: "same_minions M0 ?M'"
    using fl hd(2) by (auto simp: inflight_def same_minions_def)
  moreover have "\<forall>(j, role) \<in> set rest. m_map (get_minion j ?M') u = Some (t, 0, role) \<and> mp_sent (get_minion j ?M') \<noteq> [] \<and>
      snd (last (mp_sent (get_minion j ?M'))) = bytes"
    using fl i(2) hd(2) by (force simp: inflight_def)
  ultimately have "inflight M0 u rp t T' False rest bytes ?M'"
    using fl T s(1) by (simp add: inflight_def map_erase_def)
  with exchange_answer [OF fl i(1,3) mn(1,2) run] s(2,3) show ?thesis
    by (auto simp: nbd_input_def nbd_output_def)
qed

section \<open>The ticket of a one-segment request\<close>

abbreviation new_request :: "UID \<Rightarrow> TicketOp \<Rightarrow> size_t \<Rightarrow> StripeSegment \<Rightarrow> Ticket" where
  "new_request u opr len seg \<equiv> RegisterToResultDispatcher m_ticketDoneCallback (new_Ticket u opr len [seg])"

lemmas ticket_defs = new_Ticket_def RegisterToResultDispatcher_def OnMirrorResponse_def TryComplete_def
  set_response_def IsSegmentResolved_def IsSegmentSuccessful_def SelectSegmentMessage_def msg_ok_def
  memcpy_def Let_def

lemma write_ticket_steps:
  assumes "r1 \<noteq> r2"
  shows "\<exists>T1 T2. OnMirrorResponse g 0 r1 (Some a1) (new_request u OP_WRITE len seg) = Inr (T1, []) \<and>
    OnMirrorResponse g 0 r2 (Some a2) T1 = Inr (T2, [(m_ticketDoneCallback,
       \<lparr>res_uid = u, res_result = GetResult a1 \<and> GetResult a2, res_length = len, res_buffer = None\<rparr>)])"
  using assms by (cases r1; cases r2) (simp_all add: ticket_defs conj_commute)

lemma read_ticket_step:
  assumes "GetResult a" "GetData a = Some d" "length d = unat len" "segLength seg = len" "bufferOffset seg = 0"
  shows "\<exists>T. OnMirrorResponse g 0 role (Some a) (new_request u OP_READ len seg) =
      Inr (T, [(m_ticketDoneCallback, \<lparr>res_uid = u, res_result = True, res_length = len, res_buffer = Some d\<rparr>)]) \<and>
    t_completed T"
  using assms by (cases role) (simp_all add: ticket_defs)

section \<open>From the idle drive to the minions\<close>

lemma inflight_swap:
  assumes "inflight M0 u rp t T owed [(p, r), (b, r')] bytes M" and "p \<noteq> b"
  shows "inflight M0 u rp t T owed [(b, r'), (p, r)] bytes M"
  using assms by (auto simp: inflight_def split: if_splits)

lemma mirrored_inflight:
  assumes idle: "master_idle M0" and inv: "master_inv (mirrored p b u opr len seg bytes M1)"
    and M1: "M1 = (accept_request u rp (with_input evs (M0\<lparr>s_counter := c\<rparr>)))\<lparr>tasks := []\<rparr>"
    and pb: "p < length (m_minions (manager M0))" "b < length (m_minions (manager M0))" "p \<noteq> b"
  shows "inflight M0 u rp (length (tickets M0)) (new_request u opr len seg) True [(p, PRIMARY), (b, BACKUP)] (fst bytes)
      (mirrored p b u opr len seg bytes M1)"
proof -
  have M1f: "tickets M1 = tickets M0" "manager M1 = manager M0" "m_responses (nbd_proxy M1) = [u \<mapsto> rp]"
    "m_requests (responses M1) = [u \<mapsto> ()]" "tasks M1 = []" "get_minion j M1 = get_minion j M0"
    "np_socket (nbd_proxy M1) = (np_socket (nbd_proxy M0))\<lparr>tcp_in := evs\<rparr>" for j
    using idle by (simp_all add: M1 master_idle_def map_emplace_def)
  have len: "length (m_minions (manager (opened u opr len [seg] M1))) = length (m_minions (manager M0))"
    by (simp add: M1f)
  have ok: "sends_ok (np_socket (nbd_proxy M0))"
    using idle by (simp add: master_idle_def)
  have sm: "same_minions M0 (mirrored p b u opr len seg bytes M1)"
    using pb by (auto simp: same_minions_def mirrored_def M1f GetMinionFD_def)
  show ?thesis
    unfolding inflight_def
    using inv sm pb ok by (auto simp: mirrored_def M1f nth_append)
qed

text \<open>The master up to the moment when both minions have been asked.\<close>

lemma read_request_sent:
  assumes idle: "master_idle M" and e: "env_ok e" and st: "nbd_input M = st" "sizeof_request (e_h e) \<le> length st"
    and rq: "rq = request_of (e_h e) (take (sizeof_request (e_h e)) st)"
      "rq_magic rq = htonl (NBD_REQUEST_MAGIC (e_h e))"
    and pl: "payload (e_h e) st = Some None" "off = Ntohll (rq_from rq)" "len = ucast (ntohl (rq_len rq))"
    and ic: "in_chunk off len (manager M)" "unat len < BUFSIZ"
  obtains M1 M2 seg lo where
    "handle e NbdReadable M = Inr (Inr (), M1)" "handle e (RunTask 0) M1 = Inr (Inr (), M2)"
    "inflight M (UID (s_counter M)) (reply_to (e_h e) rq) (length (tickets M))
      (new_request (UID (s_counter M)) OP_READ len seg) True
      [(primary_of off (manager M), PRIMARY), (backup_of off (manager M), BACKUP)]
      (wire [] (MessageReadSend (s_counter M) lo len)) M2"
    "unat lo = unat off mod unat (m_MBMinion (manager M))" "segLength seg = len" "bufferOffset seg = 0"
    "nbd_input M2 = drop (sizeof_request (e_h e)) st" "nbd_output M2 = nbd_output M"
proof -
  let ?u = "UID (s_counter M)" and ?rp = "reply_to (e_h e) rq"
  have w: "wired M" and inv: "master_inv M" and ts: "tasks M = []"
    using idle by (simp_all add: master_idle_def master_inv_def)
  have hm: "unat (ntohl (rq_len rq)) \<le> e_heap_max e"
    using ic(2) e pl(3) by (simp add: env_ok_def)
  obtain evs where r1: "nbd_readable e M = Inr (Inr (), (accept_request ?u ?rp
      (with_input evs (M\<lparr>s_counter := s_counter M + 1\<rparr>)))\<lparr>tasks := tasks M @ [task_of rq (s_counter M) None]\<rparr>)"
    and ev: "stream_of evs = drop (sizeof_request (e_h e)) st"
    using nbd_readable_run [OF w st rq pl(1) hm] by auto
  let ?M1 = "(accept_request ?u ?rp (with_input evs (M\<lparr>s_counter := s_counter M + 1\<rparr>)))\<lparr>tasks :=
      tasks M @ [task_of rq (s_counter M) None]\<rparr>"
  have t1: "tasks ?M1 = [NBDReadArgs ?u (new_TaskArgs off len None)]"
    by (simp add: ts task_of_def pl)
  have w1: "wired ?M1" using w by simp
  have ic1: "in_chunk off len (manager ?M1)" using ic(1) by simp
  have acc: "accepts (e_sendto e)" using e by (simp add: env_ok_def)
  obtain seg lo where r2: "run_task e 0 ?M1 = Inr (Inr (), mirrored (primary_of off (manager ?M1))
      (backup_of off (manager ?M1)) ?u OP_READ len seg (wire [] (MessageReadSend (GetID ?u) lo len),
       [(SEV_DEBUG, sent_line (MessageReadSend (GetID ?u) lo len))]) (?M1\<lparr>tasks := []\<rparr>))"
    and lo: "unat lo = unat off mod unat (m_MBMinion (manager ?M1))" "segLength seg = len" "bufferOffset seg = 0"
    using read_task_run [OF w1 acc ic1 t1] by metis
  let ?M2 = "mirrored (primary_of off (manager M)) (backup_of off (manager M)) ?u OP_READ len seg
      (wire [] (MessageReadSend (s_counter M) lo len),
       [(SEV_DEBUG, sent_line (MessageReadSend (s_counter M) lo len))]) (?M1\<lparr>tasks := []\<rparr>)"
  have inv1: "master_inv ?M1" using tripleD [OF keeps_nbd_readable r1 inv] .
  have inv2: "master_inv ?M2" using tripleD [OF keeps_run_task r2 inv1] by simp
  obtain sg where "primary_of off (manager M) < length (m_minions (manager M))"
    "backup_of off (manager M) < length (m_minions (manager M))" "primary_of off (manager M) \<noteq> backup_of off (manager M)"
    using in_chunk_segment [OF ic(1)] by metis
  then have "inflight M ?u ?rp (length (tickets M)) (new_request ?u OP_READ len seg) True
      [(primary_of off (manager M), PRIMARY), (backup_of off (manager M), BACKUP)]
      (wire [] (MessageReadSend (s_counter M) lo len)) ?M2"
    using mirrored_inflight [OF idle inv2, where evs = evs and c = "s_counter M + 1"] by simp
  then show ?thesis
    using r1 r2 lo ev
    by (intro that [of ?M1 ?M2]) (auto simp: handle_def nbd_input_def nbd_output_def mirrored_def)
qed

lemma write_request_sent:
  assumes idle: "master_idle M" and e: "env_ok e" and st: "nbd_input M = st" "sizeof_request (e_h e) \<le> length st"
    and rq: "rq = request_of (e_h e) (take (sizeof_request (e_h e)) st)"
      "rq_magic rq = htonl (NBD_REQUEST_MAGIC (e_h e))"
    and pl: "payload (e_h e) st = Some (Some d)" "off = Ntohll (rq_from rq)" "len = ucast (ntohl (rq_len rq))"
    and ic: "in_chunk off len (manager M)" "unat len + 33 < BUFSIZ"
  obtains M1 M2 seg lo where
    "handle e NbdReadable M = Inr (Inr (), M1)" "handle e (RunTask 0) M1 = Inr (Inr (), M2)"
    "inflight M (UID (s_counter M)) (reply_to (e_h e) rq) (length (tickets M))
      (new_request (UID (s_counter M)) OP_WRITE len seg) True
      [(primary_of off (manager M), PRIMARY), (backup_of off (manager M), BACKUP)]
      (wire (e_past e) (MessageWriteSend (s_counter M) lo len (Some d))) M2"
    "unat lo = unat off mod unat (m_MBMinion (manager M))" "length d = unat len"
    "nbd_input M2 = drop (sizeof_request (e_h e) + length d) st" "nbd_output M2 = nbd_output M"
proof -
  let ?u = "UID (s_counter M)" and ?rp = "reply_to (e_h e) rq"
  have w: "wired M" and inv: "master_inv M" and ts: "tasks M = []"
    using idle by (simp_all add: master_idle_def master_inv_def)
  have hm: "unat (ntohl (rq_len rq)) \<le> e_heap_max e"
    using ic(2) e pl(3) by (simp add: env_ok_def)
  have d: "length d = unat len"
    using pl rq by (auto simp: payload_def Let_def split: if_splits)
  obtain evs where r1: "nbd_readable e M = Inr (Inr (), (accept_request ?u ?rp
      (with_input evs (M\<lparr>s_counter := s_counter M + 1\<rparr>)))\<lparr>tasks := tasks M @ [task_of rq (s_counter M) (Some d)]\<rparr>)"
    and ev: "stream_of evs = drop (sizeof_request (e_h e) + length d) st"
    using nbd_readable_run [OF w st rq pl(1) hm] by auto
  let ?M1 = "(accept_request ?u ?rp (with_input evs (M\<lparr>s_counter := s_counter M + 1\<rparr>)))\<lparr>tasks :=
      tasks M @ [task_of rq (s_counter M) (Some d)]\<rparr>"
  have t1: "tasks ?M1 = [NBDWriteArgs ?u (new_TaskArgs off len (Some d))]"
    by (simp add: ts task_of_def pl)
  have w1: "wired ?M1" using w by simp
  have ic1: "in_chunk off len (manager ?M1)" using ic(1) by simp
  have acc: "accepts (e_sendto e)" "e_past e \<noteq> []" "BUFSIZ \<le> e_heap_max e" using e by (simp_all add: env_ok_def)
  obtain seg lo where r2: "run_task e 0 ?M1 = Inr (Inr (), mirrored (primary_of off (manager ?M1))
      (backup_of off (manager ?M1)) ?u OP_WRITE len seg
      (wire (e_past e) (MessageWriteSend (GetID ?u) lo len (Some d)), []) (?M1\<lparr>tasks := []\<rparr>))"
    and lo: "unat lo = unat off mod unat (m_MBMinion (manager ?M1))"
    using write_task_run [OF w1 acc(1) ic1 t1 d ic(2) acc(2,3)] by metis
  let ?M2 = "mirrored (primary_of off (manager M)) (backup_of off (manager M)) ?u OP_WRITE len seg
      (wire (e_past e) (MessageWriteSend (s_counter M) lo len (Some d)), []) (?M1\<lparr>tasks := []\<rparr>)"
  have inv1: "master_inv ?M1" using tripleD [OF keeps_nbd_readable r1 inv] .
  have inv2: "master_inv ?M2" using tripleD [OF keeps_run_task r2 inv1] by simp
  obtain sg where "primary_of off (manager M) < length (m_minions (manager M))"
    "backup_of off (manager M) < length (m_minions (manager M))" "primary_of off (manager M) \<noteq> backup_of off (manager M)"
    using in_chunk_segment [OF ic(1)] by metis
  then have "inflight M ?u ?rp (length (tickets M)) (new_request ?u OP_WRITE len seg) True
      [(primary_of off (manager M), PRIMARY), (backup_of off (manager M), BACKUP)]
      (wire (e_past e) (MessageWriteSend (s_counter M) lo len (Some d))) ?M2"
    using mirrored_inflight [OF idle inv2, where evs = evs and c = "s_counter M + 1"] by simp
  then show ?thesis
    using r1 r2 lo ev d
    by (intro that [of ?M1 ?M2]) (auto simp: handle_def nbd_input_def nbd_output_def mirrored_def)
qed

section \<open>The minions' part\<close>

lemma wire_read_past: "wire past (MessageReadSend u off l) = wire [] (MessageReadSend u off l)"
  by (simp add: wire_def wire_header_def)

lemma raid_minion:
  assumes "raid_idle S" and "i < length (m_minions (manager (rd_master S)))"
  shows "minion_ready (rd_minions S ! i)"
    "length (disk S i) = unat (m_MBMinion (manager (rd_master S)))"
    "i < length (rd_minions S)"
  using assms by (auto simp: raid_idle_def disk_def)

lemma minion_reads:
  assumes "minion_ready mn" "env_ok e" "unat lo + unat len \<le> length (fm_data (mn_file mn))" "unat len + 25 < BUFSIZ"
  shows "\<exists>mn'. minion_serve (e_sendto e) (e_g e) (e_stack e) (e_heap_max e)
      (maddr, wire [] (MessageReadSend c lo len)) mn = Inr mn' \<and> minion_ready mn' \<and>
    fm_data (mn_file mn') = fm_data (mn_file mn) \<and>
    mn_sent mn' = mn_sent mn @
      [(maddr, wire [] (MessageReadReceive c 1 len (Some (take (unat len) (drop (unat lo) (fm_data (mn_file mn)))))))]"
proof -
  have "good_request [] (e_heap_max e) (length (fm_data (mn_file mn))) (MessageReadSend c lo len)"
    using assms by (simp add: env_ok_def)
  from serve_good_request [OF assms(1) _ this] assms(2) show ?thesis
    by (simp add: env_ok_def)
qed

lemma minion_writes:
  assumes "minion_ready mn" "env_ok e" "unat lo + unat len \<le> length (fm_data (mn_file mn))" "unat len + 33 < BUFSIZ"
    and "length d = unat len"
  shows "\<exists>mn'. minion_serve (e_sendto e) (e_g e) (e_stack e) (e_heap_max e)
      (maddr, wire (e_past e) (MessageWriteSend c lo len (Some d))) mn = Inr mn' \<and> minion_ready mn' \<and>
    fm_data (mn_file mn') = splice (fm_data (mn_file mn)) (unat lo) d \<and>
    mn_sent mn' = mn_sent mn @ [(maddr, wire [] (MessageWriteReceive c 1))]"
proof -
  have "good_request (e_past e) (e_heap_max e) (length (fm_data (mn_file mn))) (MessageWriteSend c lo len (Some d))"
    using assms by (simp add: env_ok_def)
  from serve_good_request [OF assms(1) _ this] assms(2,5) show ?thesis
    by (simp add: env_ok_def)
qed

lemma answer_ok_read:
  assumes "length b = unat len" "unat len + 25 < BUFSIZ"
  shows "answer_ok (UID c) (MessageReadReceive c r len (Some b))"
  using assms by (simp add: answer_ok_def GetUID_def unat_GetSize BUFSIZ_def)

lemma answer_ok_write: "answer_ok (UID c) (MessageWriteReceive c r)"
  by (simp add: answer_ok_def GetUID_def unat_GetSize BUFSIZ_def)

lemma handled_run: "handle e ev (rd_master S) = Inr (Inr (), M) \<Longrightarrow> handled e ev S = Inr (S\<lparr>rd_master := M\<rparr>)"
  by (simp add: handled_def)

lemma raid_idle_after:
  assumes "raid_idle S" and "master_idle M" and "same_minions (rd_master S) M"
    and "minion_ready mn" "length (fm_data (mn_file mn)) = unat (m_MBMinion (manager (rd_master S)))"
  shows "raid_idle \<lparr>rd_master = M, rd_minions = (rd_minions S)[i := mn]\<rparr>"
  using assms set_update_subset_insert [of "rd_minions S" i mn]
  by (auto simp: raid_idle_def same_minions_def)

lemma raid_idle_after2:
  assumes "raid_idle S" and "master_idle M" and "same_minions (rd_master S) M"
    and "minion_ready mn" "length (fm_data (mn_file mn)) = unat (m_MBMinion (manager (rd_master S)))"
    and "minion_ready mn'" "length (fm_data (mn_file mn')) = unat (m_MBMinion (manager (rd_master S)))"
  shows "raid_idle \<lparr>rd_master = M, rd_minions = (rd_minions S)[i := mn, j := mn']\<rparr>"
  using raid_idle_after [OF raid_idle_after [OF assms(1-5), of i], of M mn' j] assms
  by (simp add: same_minions_def)

section \<open>Both minions\<close>

lemma write_exchanges:
  assumes S: "raid_idle S" "rd_minions S2 = rd_minions S" and e: "env_ok e"
    and i: "i1 < length (m_minions (manager (rd_master S)))" "i2 < length (m_minions (manager (rd_master S)))"
      "i1 \<noteq> i2" "r1 \<noteq> r2"
    and fl: "inflight (rd_master S) (UID c) rp t (new_request (UID c) OP_WRITE len seg) True [(i1, r1), (i2, r2)]
      (wire (e_past e) (MessageWriteSend c lo len (Some d))) (rd_master S2)"
    and l: "unat lo + unat len \<le> unat (m_MBMinion (manager (rd_master S)))" "unat len + 33 < BUFSIZ" "length d = unat len"
  shows "\<exists>S'. exchange_all e maddr [i1, i2] S2 = Inr S' \<and> raid_idle S' \<and> same_minions (rd_master S) (rd_master S') \<and>
    nbd_input (rd_master S') = nbd_input (rd_master S2) \<and>
    nbd_output (rd_master S') = nbd_output (rd_master S2) @ reply_bytes (e_h e) rp \<and>
    (\<forall>j < length (m_minions (manager (rd_master S))). disk S' j =
       (if j \<in> {i1, i2} then splice (disk S j) (unat lo) d else disk S j))"
proof -
  have idle: "master_idle (rd_master S)" using S by (simp add: raid_idle_def)
  have hm: "BUFSIZ \<le> e_heap_max e" using e by (simp add: env_ok_def)
  note mn1 = raid_minion [OF S(1) i(1)] and mn2 = raid_minion [OF S(1) i(2)]
  obtain T1 T2 where T: "OnMirrorResponse (e_g e) 0 r1 (Some (MessageWriteReceive c 1))
        (new_request (UID c) OP_WRITE len seg) = Inr (T1, [])"
      "OnMirrorResponse (e_g e) 0 r2 (Some (MessageWriteReceive c 1)) T1 = Inr (T2, [(m_ticketDoneCallback,
         \<lparr>res_uid = UID c, res_result = True, res_length = len, res_buffer = None\<rparr>)])"
    using write_ticket_steps [OF i(4), of "e_g e" "MessageWriteReceive c 1" "UID c" len seg "MessageWriteReceive c 1"]
    by auto
  obtain w1 where w1: "minion_serve (e_sendto e) (e_g e) (e_stack e) (e_heap_max e)
      (maddr, wire (e_past e) (MessageWriteSend c lo len (Some d))) (rd_minions S2 ! i1) = Inr w1" "minion_ready w1"
    "fm_data (mn_file w1) = splice (disk S i1) (unat lo) d"
    "mn_sent w1 = mn_sent (rd_minions S ! i1) @ [(maddr, wire [] (MessageWriteReceive c 1))]"
    using minion_writes [OF mn1(1) e _ l(2,3), of lo] l(1) mn1(2) S(2) by (auto simp: disk_def)
  from exchange_quiet [OF fl i(1) _ idle hm w1(1,4) answer_ok_write T(1)] i(3) obtain M3 where
    x1: "exchange e maddr i1 S2 = Inr \<lparr>rd_master = M3, rd_minions = (rd_minions S)[i1 := w1]\<rparr>"
    and f3: "inflight (rd_master S) (UID c) rp t T1 True [(i2, r2)]
      (wire (e_past e) (MessageWriteSend c lo len (Some d))) M3"
    and s3: "np_socket (nbd_proxy M3) = np_socket (nbd_proxy (rd_master S2))" using S(2) by auto
  let ?S3 = "\<lparr>rd_master = M3, rd_minions = (rd_minions S)[i1 := w1]\<rparr>"
  obtain w2 where w2: "minion_serve (e_sendto e) (e_g e) (e_stack e) (e_heap_max e)
      (maddr, wire (e_past e) (MessageWriteSend c lo len (Some d))) (rd_minions ?S3 ! i2) = Inr w2" "minion_ready w2"
    "fm_data (mn_file w2) = splice (disk S i2) (unat lo) d"
    "mn_sent w2 = mn_sent (rd_minions S ! i2) @ [(maddr, wire [] (MessageWriteReceive c 1))]"
    using minion_writes [OF mn2(1) e _ l(2,3), of lo] l(1) mn2(2) i(3) by (auto simp: disk_def)
  have f3': "inflight (rd_master S) (UID c) rp t T1 True [(i2, r2)]
      (wire (e_past e) (MessageWriteSend c lo len (Some d))) (rd_master ?S3)" using f3 by simp
  from exchange_done [OF f3' i(2) _ idle hm w2(1,4) answer_ok_write T(2)] obtain M4 where
    x2: "exchange e maddr i2 ?S3 = Inr \<lparr>rd_master = M4, rd_minions = (rd_minions S)[i1 := w1, i2 := w2]\<rparr>"
    and f4: "inflight (rd_master S) (UID c) rp t T2 False []
      (wire (e_past e) (MessageWriteSend c lo len (Some d))) M4"
    and o4: "nbd_input M4 = nbd_input M3" "nbd_output M4 = nbd_output M3 @ reply_bytes (e_h e) rp"
    by (auto simp: answer_bytes_def)
  have "raid_idle \<lparr>rd_master = M4, rd_minions = (rd_minions S)[i1 := w1, i2 := w2]\<rparr>"
    using raid_idle_after2 [OF S(1) inflight_idle [OF idle f4]] f4 w1 w2 mn1 mn2 l by (simp add: inflight_def)
  with x1 x2 o4 s3 f4 w1(3) w2(3) mn1(3) mn2(3) show ?thesis
    by (auto simp: nbd_input_def nbd_output_def inflight_def disk_def nth_list_update)
qed

text \<open>The first answer to a read completes it, whether or not another one follows.\<close>

lemma read_first:
  assumes S: "raid_idle S" "rd_minions S2 = rd_minions S" and e: "env_ok e"
    and i: "i < length (m_minions (manager (rd_master S)))" "i \<notin> fst ` set rest"
    and fl: "inflight (rd_master S) (UID c) rp t (new_request (UID c) OP_READ len seg) True ((i, role) # rest)
      (wire [] (MessageReadSend c lo len)) (rd_master S2)"
    and l: "unat lo + unat len \<le> unat (m_MBMinion (manager (rd_master S)))" "unat len + 25 < BUFSIZ"
      "segLength seg = len" "bufferOffset seg = 0"
  shows "\<exists>S' T. exchange e maddr i S2 = Inr S' \<and> raid_idle S' \<and> t_completed T \<and>
    inflight (rd_master S) (UID c) rp t T False rest (wire [] (MessageReadSend c lo len)) (rd_master S') \<and>
    nbd_input (rd_master S') = nbd_input (rd_master S2) \<and>
    nbd_output (rd_master S') = nbd_output (rd_master S2) @ reply_bytes (e_h e) rp @
      take (unat len) (drop (unat lo) (disk S i)) \<and>
    (\<forall>j < length (m_minions (manager (rd_master S))). disk S' j = disk S j)"
proof -
  have idle: "master_idle (rd_master S)" using S by (simp add: raid_idle_def)
  have hm: "BUFSIZ \<le> e_heap_max e" using e by (simp add: env_ok_def)
  note mn = raid_minion [OF S(1) i(1)]
  let ?d = "take (unat len) (drop (unat lo) (disk S i))"
  have len: "length ?d = unat len" "unat len \<le> length (disk S i) - unat lo" using l(1) mn(2) by auto
  obtain T where T: "OnMirrorResponse (e_g e) 0 role (Some (MessageReadReceive c 1 len (Some ?d)))
      (new_request (UID c) OP_READ len seg) = Inr (T, [(m_ticketDoneCallback,
         \<lparr>res_uid = UID c, res_result = True, res_length = len, res_buffer = Some ?d\<rparr>)])" "t_completed T"
    using read_ticket_step [OF _ _ len(1) l(3,4), of "MessageReadReceive c 1 len (Some ?d)" "e_g e" role "UID c"]
    by auto
  obtain w where w: "minion_serve (e_sendto e) (e_g e) (e_stack e) (e_heap_max e)
      (maddr, wire [] (MessageReadSend c lo len)) (rd_minions S2 ! i) = Inr w" "minion_ready w"
    "fm_data (mn_file w) = disk S i"
    "mn_sent w = mn_sent (rd_minions S ! i) @ [(maddr, wire [] (MessageReadReceive c 1 len (Some ?d)))]"
    using minion_reads [OF mn(1) e _ l(2), of lo] l(1) mn(2) S(2) by (auto simp: disk_def)
  from exchange_done [OF fl i idle hm w(1,4) answer_ok_read [OF len(1) l(2)] T(1)] len obtain M' where
    x: "exchange e maddr i S2 = Inr \<lparr>rd_master = M', rd_minions = (rd_minions S)[i := w]\<rparr>"
    and fl': "inflight (rd_master S) (UID c) rp t T False rest (wire [] (MessageReadSend c lo len)) M'"
    and io: "nbd_input M' = nbd_input (rd_master S2)"
      "nbd_output M' = nbd_output (rd_master S2) @ reply_bytes (e_h e) rp @ ?d"
    using S(2) by (auto simp: answer_bytes_def)
  have "raid_idle \<lparr>rd_master = M', rd_minions = (rd_minions S)[i := w]\<rparr>"
    using raid_idle_after [OF S(1) inflight_idle [OF idle fl']] fl' w mn by (simp add: inflight_def)
  with x fl' io w(3) mn(3) T(2) show ?thesis by (force simp: disk_def nth_list_update)
qed

text \<open>A late answer to a read changes nothing.\<close>

lemma read_late:
  assumes S: "raid_idle S" and e: "env_ok e" and idle: "master_idle M0" and sm: "same_minions M0 (rd_master S)"
    and i: "i < length (m_minions (manager M0))" "i \<notin> fst ` set rest" and T: "t_completed T"
    and fl: "inflight M0 (UID c) rp t T False ((i, role) # rest) (wire [] (MessageReadSend c lo len)) (rd_master S)"
    and l: "unat lo + unat len \<le> unat (m_MBMinion (manager M0))" "unat len + 25 < BUFSIZ"
  shows "\<exists>S'. exchange e maddr i S = Inr S' \<and> raid_idle S' \<and> same_minions M0 (rd_master S') \<and>
    nbd_input (rd_master S') = nbd_input (rd_master S) \<and> nbd_output (rd_master S') = nbd_output (rd_master S) \<and>
    (\<forall>j < length (m_minions (manager M0)). disk S' j = disk S j)"
proof -
  have hm: "BUFSIZ \<le> e_heap_max e" using e by (simp add: env_ok_def)
  have i': "i < length (m_minions (manager (rd_master S)))" using i(1) sm by (simp add: same_minions_def)
  note mn = raid_minion [OF S i']
  have l': "unat lo + unat len \<le> length (disk S i)" using l(1) mn(2) sm by (simp add: same_minions_def)
  let ?d = "take (unat len) (drop (unat lo) (disk S i))"
  have len: "length ?d = unat len" using l' by simp
  obtain w where w: "minion_serve (e_sendto e) (e_g e) (e_stack e) (e_heap_max e)
      (maddr, wire [] (MessageReadSend c lo len)) (rd_minions S ! i) = Inr w" "minion_ready w"
    "fm_data (mn_file w) = disk S i"
    "mn_sent w = mn_sent (rd_minions S ! i) @ [(maddr, wire [] (MessageReadReceive c 1 len (Some ?d)))]"
    using minion_reads [OF mn(1) e _ l(2), of lo] l' by (auto simp: disk_def)
  from exchange_quiet [OF fl i idle hm w(1,4) answer_ok_read [OF len l(2)] OnMirrorResponse_completed [OF T]]
  obtain M' where x: "exchange e maddr i S = Inr \<lparr>rd_master = M', rd_minions = (rd_minions S)[i := w]\<rparr>"
    and fl': "inflight M0 (UID c) rp t T False rest (wire [] (MessageReadSend c lo len)) M'"
    and so: "np_socket (nbd_proxy M') = np_socket (nbd_proxy (rd_master S))" by auto
  have sm': "same_minions M0 M'" using fl' by (simp add: inflight_def)
  then have "same_minions (rd_master S) M'" using sm by (simp add: same_minions_def)
  then have "raid_idle \<lparr>rd_master = M', rd_minions = (rd_minions S)[i := w]\<rparr>"
    using raid_idle_after [OF S inflight_idle [OF idle fl']] w mn by simp
  with x so w(3) mn(3) sm' show ?thesis
    by (auto simp: nbd_input_def nbd_output_def disk_def nth_list_update)
qed

lemma read_exchanges:
  assumes S: "raid_idle S" "rd_minions S2 = rd_minions S" and e: "env_ok e"
    and i: "i1 < length (m_minions (manager (rd_master S)))" "i2 < length (m_minions (manager (rd_master S)))" "i1 \<noteq> i2"
    and fl: "inflight (rd_master S) (UID c) rp t (new_request (UID c) OP_READ len seg) True [(i1, r1), (i2, r2)]
      (wire [] (MessageReadSend c lo len)) (rd_master S2)"
    and l: "unat lo + unat len \<le> unat (m_MBMinion (manager (rd_master S)))" "unat len + 25 < BUFSIZ"
      "segLength seg = len" "bufferOffset seg = 0"
    and order: "order \<in> {[i1], [i1, i2]}"
  shows "\<exists>S'. exchange_all e maddr order S2 = Inr S' \<and> raid_idle S' \<and> same_minions (rd_master S) (rd_master S') \<and>
    nbd_input (rd_master S') = nbd_input (rd_master S2) \<and>
    nbd_output (rd_master S') = nbd_output (rd_master S2) @ reply_bytes (e_h e) rp @
      take (unat len) (drop (unat lo) (disk S (hd order))) \<and>
    (\<forall>j < length (m_minions (manager (rd_master S))). disk S' j = disk S j)"
proof -
  have idle: "master_idle (rd_master S)" using S by (simp add: raid_idle_def)
  obtain S' T where S': "exchange e maddr i1 S2 = Inr S'" "raid_idle S'" "t_completed T"
    "inflight (rd_master S) (UID c) rp t T False [(i2, r2)] (wire [] (MessageReadSend c lo len)) (rd_master S')"
    and out: "nbd_input (rd_master S') = nbd_input (rd_master S2)"
    "nbd_output (rd_master S') = nbd_output (rd_master S2) @ reply_bytes (e_h e) rp @
      take (unat len) (drop (unat lo) (disk S i1))"
    "\<forall>j < length (m_minions (manager (rd_master S))). disk S' j = disk S j"
    using read_first [OF S e i(1) _ fl l, of maddr] i(3) by auto
  have sm: "same_minions (rd_master S) (rd_master S')" using S'(4) by (simp add: inflight_def)
  show ?thesis
  proof (cases "order = [i1]")
    case True
    with S' out sm show ?thesis by simp
  next
    case False
    with order have "order = [i1, i2]" by simp
    with read_late [OF S'(2) e idle sm i(2) _ S'(3,4) l(1,2), of maddr] S'(1) out show ?thesis by auto
  qed
qed

section \<open>One request from beginning to end\<close>

text \<open>A request at the front of a stream of the NBD client, for a range inside one chunk.\<close>

definition request_on :: "env \<Rightarrow> master \<Rightarrow> byte list \<Rightarrow> nbd_request \<Rightarrow> char_array \<Rightarrow> bool" where
  "request_on e M st rq data \<longleftrightarrow>
     sizeof_request (e_h e) \<le> length st \<and> rq = request_of (e_h e) (take (sizeof_request (e_h e)) st) \<and>
     rq_magic rq = htonl (NBD_REQUEST_MAGIC (e_h e)) \<and> payload (e_h e) st = Some data \<and>
     in_chunk (Ntohll (rq_from rq)) (ucast (ntohl (rq_len rq))) (manager M) \<and>
     unat (ntohl (rq_len rq)) + 33 < BUFSIZ"

abbreviation request_waiting :: "env \<Rightarrow> raid \<Rightarrow> nbd_request \<Rightarrow> char_array \<Rightarrow> bool" where
  "request_waiting e S rq data \<equiv> request_on e (rd_master S) (nbd_input (rd_master S)) rq data"

definition chunk_of :: "nbd_request \<Rightarrow> raid \<Rightarrow> nat" where
  "chunk_of rq S = primary_of (Ntohll (rq_from rq)) (manager (rd_master S))"

definition mirror_of :: "nbd_request \<Rightarrow> raid \<Rightarrow> nat" where
  "mirror_of rq S = backup_of (Ntohll (rq_from rq)) (manager (rd_master S))"

definition place_of :: "nbd_request \<Rightarrow> raid \<Rightarrow> nat" where
  "place_of rq S = unat (Ntohll (rq_from rq)) mod unat (m_MBMinion (manager (rd_master S)))"

text \<open>What a request uses up of the client's stream.\<close>

definition used_by :: "env \<Rightarrow> char_array \<Rightarrow> nat" where
  "used_by e data = sizeof_request (e_h e) + (case data of None \<Rightarrow> 0 | Some d \<Rightarrow> length d)"

text \<open>
  The orders in which the minions of a request can answer: both, in either order; for a read also one of
  them alone, the other one having failed.
\<close>

definition orders_of :: "nbd_request \<Rightarrow> raid \<Rightarrow> nat list set" where
  "orders_of rq S = {[chunk_of rq S, mirror_of rq S], [mirror_of rq S, chunk_of rq S]}"

definition read_orders_of :: "nbd_request \<Rightarrow> raid \<Rightarrow> nat list set" where
  "read_orders_of rq S = {[chunk_of rq S], [chunk_of rq S, mirror_of rq S], [mirror_of rq S],
     [mirror_of rq S, chunk_of rq S]}"

lemma write_served:
  assumes "raid_idle S" and "env_ok e" and "request_waiting e S rq (Some d)"
    and "order \<in> {[chunk_of rq S, mirror_of rq S], [mirror_of rq S, chunk_of rq S]}"
  shows "\<exists>S'. serve_request e maddr order S = Inr S' \<and> raid_idle S' \<and>
    same_minions (rd_master S) (rd_master S') \<and>
    nbd_input (rd_master S') = drop (used_by e (Some d)) (nbd_input (rd_master S)) \<and>
    nbd_output (rd_master S') = nbd_output (rd_master S) @ reply_bytes (e_h e) (reply_to (e_h e) rq) \<and>
    (\<forall>j < length (m_minions (manager (rd_master S))). disk S' j =
       (if j = chunk_of rq S \<or> j = mirror_of rq S then splice (disk S j) (place_of rq S) d else disk S j)) \<and>
    length d = unat (ntohl (rq_len rq))"
proof -
  let ?M = "rd_master S" and ?off = "Ntohll (rq_from rq)" and ?len = "ucast (ntohl (rq_len rq)) :: size_t"
  have idle: "master_idle ?M" using assms(1) by (simp add: raid_idle_def)
  from assms(3) have st: "sizeof_request (e_h e) \<le> length (nbd_input ?M)"
    "rq = request_of (e_h e) (take (sizeof_request (e_h e)) (nbd_input ?M))"
    "rq_magic rq = htonl (NBD_REQUEST_MAGIC (e_h e))" "payload (e_h e) (nbd_input ?M) = Some (Some d)"
    "in_chunk ?off ?len (manager ?M)" "unat ?len + 33 < BUFSIZ"
    unfolding request_on_def unat_ucast_32_64 by blast+
  obtain M1 M2 seg lo where h: "handle e NbdReadable ?M = Inr (Inr (), M1)" "handle e (RunTask 0) M1 = Inr (Inr (), M2)"
    and fl: "inflight ?M (UID (s_counter ?M)) (reply_to (e_h e) rq) (length (tickets ?M))
      (new_request (UID (s_counter ?M)) OP_WRITE ?len seg) True [(chunk_of rq S, PRIMARY), (mirror_of rq S, BACKUP)]
      (wire (e_past e) (MessageWriteSend (s_counter ?M) lo ?len (Some d))) M2"
    and lo: "unat lo = place_of rq S" and d: "length d = unat ?len"
    and io: "nbd_input M2 = drop (used_by e (Some d)) (nbd_input ?M)" "nbd_output M2 = nbd_output ?M"
    using write_request_sent [OF idle assms(2) refl st(1-4) refl refl st(5,6)]
    unfolding chunk_of_def mirror_of_def place_of_def used_by_def by (metis option.case(2))
  have pb: "chunk_of rq S < length (m_minions (manager ?M))" "mirror_of rq S < length (m_minions (manager ?M))"
    "chunk_of rq S \<noteq> mirror_of rq S"
    using in_chunk_segment [OF st(5)] unfolding chunk_of_def mirror_of_def by metis+
  have l: "unat lo + unat ?len \<le> unat (m_MBMinion (manager ?M))"
    using st(5) lo by (simp add: in_chunk_def place_of_def)
  have run: "serve_request e maddr order S = exchange_all e maddr order (S\<lparr>rd_master := M2\<rparr>)"
    using h by (simp add: serve_request_def handled_def)
  have S2: "rd_minions (S\<lparr>rd_master := M2\<rparr>) = rd_minions S" "rd_master (S\<lparr>rd_master := M2\<rparr>) = M2" by simp_all
  have r: "PRIMARY \<noteq> BACKUP" "BACKUP \<noteq> PRIMARY" by simp_all
  note wx = write_exchanges [OF assms(1) S2(1) assms(2), unfolded S2(2), OF _ _ _ _ _ l st(6) d]
  have "\<exists>S'. exchange_all e maddr order (S\<lparr>rd_master := M2\<rparr>) = Inr S' \<and> raid_idle S' \<and>
      same_minions ?M (rd_master S') \<and> nbd_input (rd_master S') = nbd_input M2 \<and>
      nbd_output (rd_master S') = nbd_output M2 @ reply_bytes (e_h e) (reply_to (e_h e) rq) \<and>
      (\<forall>j < length (m_minions (manager ?M)). disk S' j =
        (if j \<in> {chunk_of rq S, mirror_of rq S} then splice (disk S j) (unat lo) d else disk S j))"
    using assms(4) wx [OF pb(1,2,3) r(1) fl, of maddr]
      wx [OF pb(2,1) pb(3) [symmetric] r(2) inflight_swap [OF fl pb(3)], of maddr]
    by (elim insertE emptyE) (simp_all only: insert_commute [of "mirror_of rq S"])
  then show ?thesis unfolding run io lo using d by simp
qed

lemma read_served:
  assumes "raid_idle S" and "env_ok e" and "request_waiting e S rq None"
    and "order \<in> read_orders_of rq S"
  shows "\<exists>S'. serve_request e maddr order S = Inr S' \<and> raid_idle S' \<and>
    same_minions (rd_master S) (rd_master S') \<and>
    nbd_input (rd_master S') = drop (used_by e None) (nbd_input (rd_master S)) \<and>
    nbd_output (rd_master S') = nbd_output (rd_master S) @ reply_bytes (e_h e) (reply_to (e_h e) rq) @
      take (unat (ntohl (rq_len rq))) (drop (place_of rq S) (disk S (hd order))) \<and>
    (\<forall>j < length (m_minions (manager (rd_master S))). disk S' j = disk S j)"
proof -
  let ?M = "rd_master S" and ?off = "Ntohll (rq_from rq)" and ?len = "ucast (ntohl (rq_len rq)) :: size_t"
  have idle: "master_idle ?M" using assms(1) by (simp add: raid_idle_def)
  from assms(3) have st: "sizeof_request (e_h e) \<le> length (nbd_input ?M)"
    "rq = request_of (e_h e) (take (sizeof_request (e_h e)) (nbd_input ?M))"
    "rq_magic rq = htonl (NBD_REQUEST_MAGIC (e_h e))" "payload (e_h e) (nbd_input ?M) = Some None"
    "in_chunk ?off ?len (manager ?M)" and b: "unat ?len + 33 < BUFSIZ"
    unfolding request_on_def unat_ucast_32_64 by blast+
  from b have bl: "unat ?len < BUFSIZ" "unat ?len + 25 < BUFSIZ" by linarith+
  obtain M1 M2 seg lo where h: "handle e NbdReadable ?M = Inr (Inr (), M1)" "handle e (RunTask 0) M1 = Inr (Inr (), M2)"
    and fl: "inflight ?M (UID (s_counter ?M)) (reply_to (e_h e) rq) (length (tickets ?M))
      (new_request (UID (s_counter ?M)) OP_READ ?len seg) True [(chunk_of rq S, PRIMARY), (mirror_of rq S, BACKUP)]
      (wire [] (MessageReadSend (s_counter ?M) lo ?len)) M2"
    and lo: "unat lo = place_of rq S" and sg: "segLength seg = ?len" "bufferOffset seg = 0"
    and io: "nbd_input M2 = drop (used_by e None) (nbd_input ?M)" "nbd_output M2 = nbd_output ?M"
    using read_request_sent [OF idle assms(2) refl st(1-4) refl refl st(5) bl(1)]
    unfolding chunk_of_def mirror_of_def place_of_def used_by_def by (metis option.case(1) add.right_neutral)
  have pb: "chunk_of rq S < length (m_minions (manager ?M))" "mirror_of rq S < length (m_minions (manager ?M))"
    "chunk_of rq S \<noteq> mirror_of rq S"
    using in_chunk_segment [OF st(5)] unfolding chunk_of_def mirror_of_def by metis+
  have l: "unat lo + unat ?len \<le> unat (m_MBMinion (manager ?M))"
    using st(5) lo by (simp add: in_chunk_def place_of_def)
  have run: "serve_request e maddr order S = exchange_all e maddr order (S\<lparr>rd_master := M2\<rparr>)"
    using h by (simp add: serve_request_def handled_def)
  have S2: "rd_minions (S\<lparr>rd_master := M2\<rparr>) = rd_minions S" "rd_master (S\<lparr>rd_master := M2\<rparr>) = M2" by simp_all
  note rx = read_exchanges [OF assms(1) S2(1) assms(2), unfolded S2(2), OF _ _ _ _ l bl(2) sg, of _ _ _ _ _ _ _ order]
  have "\<exists>S'. exchange_all e maddr order (S\<lparr>rd_master := M2\<rparr>) = Inr S' \<and> raid_idle S' \<and>
      same_minions ?M (rd_master S') \<and> nbd_input (rd_master S') = nbd_input M2 \<and>
      nbd_output (rd_master S') = nbd_output M2 @ reply_bytes (e_h e) (reply_to (e_h e) rq) @
        take (unat ?len) (drop (unat lo) (disk S (hd order))) \<and>
      (\<forall>j < length (m_minions (manager ?M)). disk S' j = disk S j)"
    using assms(4) rx [OF pb(1,2,3) fl, of maddr]
      rx [OF pb(2,1) pb(3) [symmetric] inflight_swap [OF fl pb(3)], of maddr]
    unfolding read_orders_of_def by blast
  then show ?thesis unfolding run io lo by simp
qed

section \<open>Requests one after the other\<close>

fun serve_requests :: "env \<Rightarrow> sockaddr \<Rightarrow> nat list list \<Rightarrow> raid \<Rightarrow> raid res" where
  "serve_requests e maddr [] S = Inr S"
| "serve_requests e maddr (order # orders) S =
     rbind (serve_request e maddr order S) (serve_requests e maddr orders)"

lemma same_minions_requests:
  assumes "same_minions (rd_master S) (rd_master S')"
  shows "request_on e (rd_master S') st rq data = request_on e (rd_master S) st rq data"
    "chunk_of rq S' = chunk_of rq S" "mirror_of rq S' = mirror_of rq S" "place_of rq S' = place_of rq S"
    "orders_of rq S' = orders_of rq S" "read_orders_of rq S' = read_orders_of rq S"
  using assms by (simp_all add: same_minions_def request_on_def in_chunk_def chunk_of_def mirror_of_def
      place_of_def primary_of_def backup_of_def orders_of_def read_orders_of_def)

lemma same_minions_trans:
  "same_minions M0 M1 \<Longrightarrow> same_minions M1 M2 \<Longrightarrow> same_minions M0 M2"
  by (simp add: same_minions_def)

lemma request_minions:
  assumes "request_on e (rd_master S) st rq data"
  shows "chunk_of rq S < length (m_minions (manager (rd_master S)))"
    "mirror_of rq S < length (m_minions (manager (rd_master S)))"
    "place_of rq S + unat (ntohl (rq_len rq)) \<le> unat (m_MBMinion (manager (rd_master S)))"
proof -
  have ic: "in_chunk (Ntohll (rq_from rq)) (ucast (ntohl (rq_len rq))) (manager (rd_master S))"
    using assms unfolding request_on_def by blast
  from in_chunk_segment [OF ic] show "chunk_of rq S < length (m_minions (manager (rd_master S)))"
    "mirror_of rq S < length (m_minions (manager (rd_master S)))"
    unfolding chunk_of_def mirror_of_def by metis+
  from ic show "place_of rq S + unat (ntohl (rq_len rq)) \<le> unat (m_MBMinion (manager (rd_master S)))"
    by (simp add: in_chunk_def place_of_def)
qed

section \<open>Properties\<close>

text \<open>
  C2. A write request inside one chunk: whichever of the two minions answers first, the NBD client gets
  exactly one reply, a success with the handle of its request; the data is then in the files of the
  primary and of the backup minion at the place of the request, no other byte of any minion has
  changed, and the drive is ready for the next request.
\<close>

theorem drive_write:
  assumes "raid_idle S" and "env_ok e" and "request_waiting e S rq (Some d)" and "order \<in> orders_of rq S"
  shows "\<exists>S'. serve_request e maddr order S = Inr S' \<and> raid_idle S' \<and>
    nbd_output (rd_master S') = nbd_output (rd_master S) @ reply_bytes (e_h e) (reply_to (e_h e) rq) \<and>
    (\<forall>j < length (m_minions (manager (rd_master S))). disk S' j =
       (if j = chunk_of rq S \<or> j = mirror_of rq S then splice (disk S j) (place_of rq S) d else disk S j))"
  using write_served [OF assms(1-3)] assms(4) unfolding orders_of_def by blast

text \<open>
  C3. A read request inside one chunk: the NBD client gets one reply, a success with the handle of its
  request, followed by the bytes of the minion that answers first; no file changes.  One answer is enough:
  with the other minion dead the client gets the same reply, and the drive is ready for the next request.
\<close>

theorem drive_read:
  assumes "raid_idle S" and "env_ok e" and "request_waiting e S rq None" and "order \<in> read_orders_of rq S"
  shows "\<exists>S'. serve_request e maddr order S = Inr S' \<and> raid_idle S' \<and>
    nbd_output (rd_master S') = nbd_output (rd_master S) @ reply_bytes (e_h e) (reply_to (e_h e) rq) @
      take (unat (ntohl (rq_len rq))) (drop (place_of rq S) (disk S (hd order))) \<and>
    (\<forall>j < length (m_minions (manager (rd_master S))). disk S' j = disk S j)"
  using read_served [OF assms] by blast

text \<open>
  Read after write: a write followed by a read of the same range returns the written data,
  whichever minion answers first each time, and also when one of the two minions dies after the write.
\<close>

theorem drive_read_after_write:
  assumes "raid_idle S" and "env_ok e" and "request_waiting e S w (Some d)" and "o1 \<in> orders_of w S"
    and "request_on e (rd_master S) (drop (used_by e (Some d)) (nbd_input (rd_master S))) r None"
    and "rq_from r = rq_from w" and "rq_len r = rq_len w" and "o2 \<in> read_orders_of r S"
  shows "\<exists>S'. serve_requests e maddr [o1, o2] S = Inr S' \<and> raid_idle S' \<and>
    nbd_output (rd_master S') = nbd_output (rd_master S) @ reply_bytes (e_h e) (reply_to (e_h e) w) @
      reply_bytes (e_h e) (reply_to (e_h e) r) @ d"
proof -
  obtain S1 where S1: "serve_request e maddr o1 S = Inr S1" "raid_idle S1" and sm: "same_minions (rd_master S) (rd_master S1)"
    and io: "nbd_input (rd_master S1) = drop (used_by e (Some d)) (nbd_input (rd_master S))"
      "nbd_output (rd_master S1) = nbd_output (rd_master S) @ reply_bytes (e_h e) (reply_to (e_h e) w)"
    and dk: "\<forall>j < length (m_minions (manager (rd_master S))). disk S1 j =
       (if j = chunk_of w S \<or> j = mirror_of w S then splice (disk S j) (place_of w S) d else disk S j)"
    and d: "length d = unat (ntohl (rq_len w))"
    using write_served [OF assms(1-3)] assms(4) unfolding orders_of_def by blast
  note eq = same_minions_requests [OF sm]
  have "request_waiting e S1 r None" using assms(5) by (simp add: eq io)
  from read_served [OF S1(2) assms(2) this, of o2 maddr] obtain S2 where
    S2: "serve_request e maddr o2 S1 = Inr S2" "raid_idle S2"
      "nbd_output (rd_master S2) = nbd_output (rd_master S1) @ reply_bytes (e_h e) (reply_to (e_h e) r) @
        take (unat (ntohl (rq_len r))) (drop (place_of r S1) (disk S1 (hd o2)))"
    using assms(8) eq by auto
  have rw: "chunk_of r S = chunk_of w S" "mirror_of r S = mirror_of w S" "place_of r S = place_of w S"
    using assms(6) by (simp_all add: chunk_of_def mirror_of_def place_of_def)
  note pl = request_minions [OF assms(3)]
  have h: "hd o2 = chunk_of w S \<or> hd o2 = mirror_of w S" "hd o2 < length (m_minions (manager (rd_master S)))"
    using assms(8) pl(1,2) rw by (auto simp: read_orders_of_def)
  then have "disk S1 (hd o2) = splice (disk S (hd o2)) (place_of w S) d" using dk by auto
  moreover have "place_of w S + length d \<le> length (disk S (hd o2))"
    using pl(3) d raid_minion(2) [OF assms(1) h(2)] by simp
  ultimately have "take (unat (ntohl (rq_len r))) (drop (place_of r S1) (disk S1 (hd o2))) = d"
    using slice_splice_same [of "place_of w S" d "disk S (hd o2)"] d assms(7) rw eq by simp
  with S1 S2 io show ?thesis by simp
qed

text \<open>
  C18. The mirror copy of a chunk is destroyed by its neighbour: after a write to one chunk and a write of
  the same length to the same place of the next chunk, a read of the first range whose backup minion
  answers first returns the neighbour's data, with a success reply and with every minion working.
\<close>

theorem neighbour_overwrites_mirror:
  assumes "raid_idle S" and "env_ok e" and "st = nbd_input (rd_master S)"
    and "request_on e (rd_master S) st w1 (Some d1)" and "o1 \<in> orders_of w1 S"
    and "request_on e (rd_master S) (drop (used_by e (Some d1)) st) w2 (Some d2)" and "o2 \<in> orders_of w2 S"
    and "request_on e (rd_master S) (drop (used_by e (Some d2)) (drop (used_by e (Some d1)) st)) r None"
    and "unat (Ntohll (rq_from w2)) = unat (Ntohll (rq_from w1)) + unat (m_MBMinion (manager (rd_master S)))"
    and "rq_len w2 = rq_len w1" and "rq_from r = rq_from w1" and "rq_len r = rq_len w1"
  shows "\<exists>S'. serve_requests e maddr [o1, o2, [mirror_of r S, chunk_of r S]] S = Inr S' \<and>
    nbd_output (rd_master S') = nbd_output (rd_master S) @ reply_bytes (e_h e) (reply_to (e_h e) w1) @
      reply_bytes (e_h e) (reply_to (e_h e) w2) @ reply_bytes (e_h e) (reply_to (e_h e) r) @ d2"
proof -
  have rq1: "request_waiting e S w1 (Some d1)" using assms(3,4) by simp
  obtain S1 where S1: "serve_request e maddr o1 S = Inr S1" "raid_idle S1" and sm1: "same_minions (rd_master S) (rd_master S1)"
    and io1: "nbd_input (rd_master S1) = drop (used_by e (Some d1)) st"
      "nbd_output (rd_master S1) = nbd_output (rd_master S) @ reply_bytes (e_h e) (reply_to (e_h e) w1)"
    using write_served [OF assms(1,2) rq1] assms(3,5) unfolding orders_of_def by blast
  note eq1 = same_minions_requests [OF sm1]
  have rq2: "request_waiting e S1 w2 (Some d2)" using assms(6) by (simp add: eq1 io1)
  obtain S2 where S2: "serve_request e maddr o2 S1 = Inr S2" "raid_idle S2" and sm2: "same_minions (rd_master S1) (rd_master S2)"
    and io2: "nbd_input (rd_master S2) = drop (used_by e (Some d2)) (drop (used_by e (Some d1)) st)"
      "nbd_output (rd_master S2) = nbd_output (rd_master S1) @ reply_bytes (e_h e) (reply_to (e_h e) w2)"
    and dk: "\<forall>j < length (m_minions (manager (rd_master S1))). disk S2 j =
       (if j = chunk_of w2 S1 \<or> j = mirror_of w2 S1 then splice (disk S1 j) (place_of w2 S1) d2 else disk S1 j)"
    and d2: "length d2 = unat (ntohl (rq_len w2))"
    using write_served [OF S1(2) assms(2) rq2] assms(7) io1 eq1 unfolding orders_of_def by metis
  note eq2 = same_minions_requests [OF same_minions_trans [OF sm1 sm2]]
  have rq3: "request_waiting e S2 r None" using assms(8) by (simp add: eq2 io2)
  obtain S3 where S3: "serve_request e maddr [mirror_of r S, chunk_of r S] S2 = Inr S3"
    "nbd_output (rd_master S3) = nbd_output (rd_master S2) @ reply_bytes (e_h e) (reply_to (e_h e) r) @
      take (unat (ntohl (rq_len r))) (drop (place_of r S2) (disk S2 (mirror_of r S)))"
    using read_served [OF S2(2) assms(2) rq3, of "[mirror_of r S, chunk_of r S]" maddr] eq2
    by (auto simp: read_orders_of_def)
  have c: "0 < unat (m_MBMinion (manager (rd_master S)))"
    using assms(4) by (auto simp: request_on_def in_chunk_def unat_gt_0)
  have ch: "chunk_of w2 S = chunk_of r S + 1" "place_of w2 S = place_of r S"
    using assms(9,11) c by (simp_all add: chunk_of_def primary_of_def place_of_def div_add_self2)
  note m2 = request_minions [OF assms(6)]
  have mr: "mirror_of r S = chunk_of w2 S"
    using ch(1) m2(1) by (simp add: mirror_of_def backup_of_def chunk_of_def)
  have "disk S2 (mirror_of r S) = splice (disk S1 (mirror_of r S)) (place_of r S2) d2"
    using dk m2(1) eq1 eq2 sm1 by (simp add: mr ch(2) same_minions_def)
  moreover have "place_of r S2 + length d2 \<le> length (disk S1 (mirror_of r S))"
    using m2 d2 sm1 raid_minion(2) [OF S1(2), of "mirror_of r S"] eq2 by (simp add: mr ch(2) same_minions_def)
  ultimately have "take (unat (ntohl (rq_len r))) (drop (place_of r S2) (disk S2 (mirror_of r S))) = d2"
    using slice_splice_same [of "place_of r S2" d2 "disk S1 (mirror_of r S)"] d2 assms(10,12) by simp
  with S1 S2 S3 io1 io2 show ?thesis by simp
qed

section \<open>A concrete drive\<close>

text \<open>The values and layouts of \<open>linux/nbd.h\<close> on the little-endian targets.\<close>

definition linux_nbd :: nbd_h where
  "linux_nbd = \<lparr>sizeof_request = 28,
     request_of = (\<lambda>b. \<lparr>rq_magic = word_of_nat (le_value (take 4 b)),
       rq_type = word_of_nat (le_value (take 4 (drop 4 b))), rq_handle = take 8 (drop 8 b),
       rq_from = word_of_nat (le_value (take 8 (drop 16 b))),
       rq_len = word_of_nat (le_value (take 4 (drop 24 b)))\<rparr>),
     reply_bytes = (\<lambda>r. le_bytes 4 (unat (rp_magic r)) @ le_bytes 4 (unat (rp_error r)) @ rp_handle r),
     NBD_REQUEST_MAGIC = 0x25609513, NBD_REPLY_MAGIC = 0x67446698, NBD_CMD_READ = 0, NBD_CMD_WRITE = 1,
     NBD_CMD_DISC = 2, NBD_CMD_FLUSH = 3, NBD_CMD_TRIM = 4, EIO = 5\<rparr>"

definition ex_env :: env where
  "ex_env = \<lparr>e_h = linux_nbd, e_sendto = (\<lambda>_. True), e_g = (\<lambda>_. 0), e_past = [7], e_stack = [],
     e_heap_max = BUFSIZ\<rparr>"

text \<open>A request in network byte order.\<close>

definition ex_request :: "byte \<Rightarrow> byte \<Rightarrow> byte \<Rightarrow> byte \<Rightarrow> byte list" where
  "ex_request ty k off len = [0x25, 0x60, 0x95, 0x13, 0, 0, 0, ty, k, k, k, k, k, k, k, k,
     0, 0, 0, 0, 0, 0, 0, off, 0, 0, 0, len]"

definition ex_rq :: "byte \<Rightarrow> byte \<Rightarrow> byte \<Rightarrow> byte \<Rightarrow> nbd_request" where
  "ex_rq ty k off len = request_of linux_nbd (ex_request ty k off len)"

definition ex_stream :: "byte list" where
  "ex_stream = ex_request 1 1 2 2 @ [65, 66] @ ex_request 1 2 10 2 @ [67, 68] @ ex_request 0 3 2 2"

definition ex_proxy :: "int \<Rightarrow> onDone MinionProxy" where
  "ex_proxy fd = \<lparr>m_socket = \<lparr>udp_fd = fd, m_serveraddr = []\<rparr>, m_map = Map.empty, mp_sent = [], mp_log = []\<rparr>"

definition ex_master :: "byte list \<Rightarrow> master" where
  "ex_master st = started \<lparr>tcp_in = [Bytes st], tcp_sends = [], tcp_out = []\<rparr> 8 [ex_proxy 5, ex_proxy 6, ex_proxy 7]"

definition ex_raid :: "byte list \<Rightarrow> minion \<Rightarrow> raid" where
  "ex_raid st mn = \<lparr>rd_master = ex_master st, rd_minions = [mn, mn, mn]\<rparr>"

lemma all_less_3: "(\<forall>i < 3. P i) \<longleftrightarrow> P 0 \<and> P 1 \<and> P (2 :: nat)"
proof -
  have "i < 3 \<longleftrightarrow> i = 0 \<or> i = 1 \<or> i = 2" for i :: nat by linarith
  then show ?thesis by auto
qed

lemma ex_idle:
  assumes "minion_ready mn" and "length (fm_data (mn_file mn)) = 8"
  shows "raid_idle (ex_raid st mn)"
proof -
  have inv: "master_inv (ex_master st)"
    by (rule master_start_inv [of "\<lparr>tcp_in = [Bytes st], tcp_sends = [], tcp_out = []\<rparr>" 8
          "[ex_proxy 5, ex_proxy 6, ex_proxy 7]"])
      (auto simp: master_start_run ex_master_def ex_proxy_def)
  have len: "length (m_minions (manager (ex_master st))) = 3" by (simp add: ex_master_def started_def)
  have "master_idle (ex_master st)"
    unfolding master_idle_def len all_less_3 using inv
    by (simp add: ex_master_def started_def new_NBDProxy_def new_ResponseManager_def sends_ok_def
        get_minion_def ex_proxy_def GetMinionFD_def)
  with assms len show ?thesis
    by (simp add: raid_idle_def ex_raid_def) (simp add: ex_master_def started_def)
qed

lemma ex_h: "e_h ex_env = linux_nbd"
  by (simp add: ex_env_def)

lemma ex_env_ok: "env_ok ex_env"
  by (simp add: env_ok_def ex_env_def accepts_def)

lemma ex_ntohl: "ntohl (word_of_nat (le_value [0, 0, 0, b])) = ucast b"
  by (subst ntohl_bytes) simp_all

lemma ex_rq_fields:
  "rq_magic (ex_rq ty k off len) = htonl 0x25609513" "ntohl (rq_type (ex_rq ty k off len)) = ucast ty"
  "Ntohll (rq_from (ex_rq ty k off len)) = ucast off" "ntohl (rq_len (ex_rq ty k off len)) = ucast len"
proof -
  have "(0x25609513 :: uint32_t) = word_of_nat (le_value [0x13, 0x95, 0x60, 0x25])" by simp
  then have "htonl 0x25609513 = ntohl (word_of_nat (le_value [0x13, 0x95, 0x60, 0x25]))"
    unfolding htonl_def by (rule arg_cong)
  also have "\<dots> = word_of_nat (le_value (rev [0x13, 0x95, 0x60, 0x25]))" by (rule ntohl_bytes) simp
  finally show "rq_magic (ex_rq ty k off len) = htonl 0x25609513"
    by (simp add: ex_rq_def ex_request_def linux_nbd_def)
  show "ntohl (rq_type (ex_rq ty k off len)) = ucast ty" "ntohl (rq_len (ex_rq ty k off len)) = ucast len"
    using ex_ntohl [of ty] ex_ntohl [of len] by (simp_all add: ex_rq_def ex_request_def linux_nbd_def)
  show "Ntohll (rq_from (ex_rq ty k off len)) = ucast off"
    using Ntohll_bytes [of "[0, 0, 0, 0, 0, 0, 0, off]"] by (simp add: ex_rq_def ex_request_def linux_nbd_def)
qed

lemma ex_in_chunk:
  "in_chunk 2 2 (manager (ex_master st))" "in_chunk 10 2 (manager (ex_master st))"
  by (simp_all add: in_chunk_def ex_master_def started_def)

lemma ex_request_on:
  assumes "manager M = manager (ex_master st')" and "in_chunk (ucast off) (ucast len) (manager (ex_master st'))"
    and "unat len = 2" and "ty = 0 \<and> data = None \<or> ty = 1 \<and> 2 \<le> length rest \<and> data = Some (take 2 rest)"
  shows "request_on ex_env M (ex_request ty k off len @ rest) (ex_rq ty k off len) data"
proof -
  have l: "length (ex_request ty k off len) = 28" by (simp add: ex_request_def)
  have u: "(ucast (ucast len :: uint32_t) :: size_t) = ucast len" "unat (ucast len :: uint32_t) = 2"
    using assms(3) by (simp_all add: unat_injD)
  have t: "request_of linux_nbd (take 28 (ex_request ty k off len @ rest)) = ex_rq ty k off len"
    using l by (simp add: ex_rq_def)
  have e: "e_h ex_env = linux_nbd" "sizeof_request linux_nbd = 28" "NBD_REQUEST_MAGIC linux_nbd = 0x25609513"
    "NBD_CMD_READ linux_nbd = 0" "NBD_CMD_WRITE linux_nbd = 1"
    by (simp_all add: ex_env_def linux_nbd_def)
  have "payload linux_nbd (ex_request ty k off len @ rest) = Some data"
    unfolding payload_def Let_def e t ex_rq_fields using l u(2) assms(4) by auto
  then show ?thesis
    unfolding request_on_def e t ex_rq_fields u assms(1) using assms(2,3) l by (simp add: BUFSIZ_def)
qed

lemma ex_minion:
  obtains mn where "minion_ready mn" "length (fm_data (mn_file mn)) = 8"
  using ex_start by (metis length_replicate)

lemma ex_raid_fields:
  "rd_master (ex_raid st mn) = ex_master st" "nbd_output (ex_master st) = []"
  "st \<noteq> [] \<Longrightarrow> nbd_input (ex_master st) = st" "m_MBMinion (manager (ex_master st)) = 8"
  by (simp_all add: ex_raid_def ex_master_def started_def nbd_output_def nbd_input_def new_NBDProxy_def)

lemma ex_stream_parts:
  "request_on ex_env (ex_master ex_stream) ex_stream (ex_rq 1 1 2 2) (Some [65, 66])"
  "request_on ex_env (ex_master ex_stream) (drop (used_by ex_env (Some [65, 66])) ex_stream) (ex_rq 1 2 10 2)
     (Some [67, 68])"
  "request_on ex_env (ex_master ex_stream) (drop (used_by ex_env (Some [67, 68]))
     (drop (used_by ex_env (Some [65, 66])) ex_stream)) (ex_rq 0 3 2 2) None"
proof -
  have u: "used_by ex_env (Some [a, b]) = 30" for a b
    by (simp add: used_by_def ex_env_def linux_nbd_def)
  have d: "drop 30 (ex_request ty k off len @ [a, b] @ rest) = rest" for ty k off len a b rest
    by (simp add: ex_request_def)
  have r: "ex_request 0 3 2 2 = ex_request 0 3 2 2 @ []" by simp
  show "request_on ex_env (ex_master ex_stream) ex_stream (ex_rq 1 1 2 2) (Some [65, 66])"
    unfolding ex_stream_def by (rule ex_request_on [OF refl]) (use ex_in_chunk in simp_all)
  show "request_on ex_env (ex_master ex_stream) (drop (used_by ex_env (Some [65, 66])) ex_stream) (ex_rq 1 2 10 2)
     (Some [67, 68])"
    unfolding u ex_stream_def d by (rule ex_request_on [OF refl]) (use ex_in_chunk in simp_all)
  show "request_on ex_env (ex_master ex_stream) (drop (used_by ex_env (Some [67, 68]))
     (drop (used_by ex_env (Some [65, 66])) ex_stream)) (ex_rq 0 3 2 2) None"
    unfolding u ex_stream_def d by (subst r, rule ex_request_on [OF refl]) (use ex_in_chunk in simp_all)
qed

lemma ex_stream_nonempty: "ex_stream \<noteq> []"
  by (simp add: ex_stream_def ex_request_def)

lemmas ex_drive = ex_raid_fields(1) ex_raid_fields(3) [OF ex_stream_nonempty]

theorem drive_write_witness:
  "\<exists>mn S'. raid_idle (ex_raid ex_stream mn) \<and>
    serve_request ex_env [9] [chunk_of (ex_rq 1 1 2 2) (ex_raid ex_stream mn), mirror_of (ex_rq 1 1 2 2) (ex_raid ex_stream mn)]
      (ex_raid ex_stream mn) = Inr S' \<and>
    nbd_output (rd_master S') = reply_bytes linux_nbd (reply_to linux_nbd (ex_rq 1 1 2 2))"
proof -
  obtain mn where mn: "minion_ready mn" "length (fm_data (mn_file mn)) = 8" using ex_minion .
  have i: "raid_idle (ex_raid ex_stream mn)" using ex_idle [OF mn] .
  have q: "request_waiting ex_env (ex_raid ex_stream mn) (ex_rq 1 1 2 2) (Some [65, 66])"
    unfolding ex_drive by (rule ex_stream_parts(1))
  from drive_write [OF i ex_env_ok q, of "[chunk_of (ex_rq 1 1 2 2) (ex_raid ex_stream mn),
      mirror_of (ex_rq 1 1 2 2) (ex_raid ex_stream mn)]" "[9]"] i show ?thesis
    by (auto simp: orders_of_def ex_raid_fields ex_env_def)
qed

theorem drive_read_witness:
  "\<exists>mn S'. raid_idle (ex_raid (ex_request 0 3 2 2) mn) \<and> serve_request ex_env [9]
      [chunk_of (ex_rq 0 3 2 2) (ex_raid (ex_request 0 3 2 2) mn), mirror_of (ex_rq 0 3 2 2) (ex_raid (ex_request 0 3 2 2) mn)]
      (ex_raid (ex_request 0 3 2 2) mn) = Inr S'"
proof -
  let ?st = "ex_request 0 3 2 2"
  obtain mn where mn: "minion_ready mn" "length (fm_data (mn_file mn)) = 8" using ex_minion .
  have i: "raid_idle (ex_raid ?st mn)" using ex_idle [OF mn] .
  have ne: "?st \<noteq> []" by (simp add: ex_request_def)
  have "request_on ex_env (ex_master ?st) (?st @ []) (ex_rq 0 3 2 2) None"
    by (rule ex_request_on [OF refl]) (use ex_in_chunk in simp_all)
  then have q: "request_waiting ex_env (ex_raid ?st mn) (ex_rq 0 3 2 2) None"
    by (simp add: ex_raid_fields(1) ex_raid_fields(3) [OF ne])
  from drive_read [OF i ex_env_ok q, of "[chunk_of (ex_rq 0 3 2 2) (ex_raid ?st mn),
      mirror_of (ex_rq 0 3 2 2) (ex_raid ?st mn)]" "[9]"] i show ?thesis
    by (auto simp: read_orders_of_def)
qed

theorem neighbour_overwrites_mirror_witness:
  "\<exists>mn o1 o2 o3 S'. raid_idle (ex_raid ex_stream mn) \<and>
    serve_requests ex_env [9] [o1, o2, o3] (ex_raid ex_stream mn) = Inr S' \<and>
    nbd_output (rd_master S') = reply_bytes linux_nbd (reply_to linux_nbd (ex_rq 1 1 2 2)) @
      reply_bytes linux_nbd (reply_to linux_nbd (ex_rq 1 2 10 2)) @
      reply_bytes linux_nbd (reply_to linux_nbd (ex_rq 0 3 2 2)) @ [67, 68]"
proof -
  obtain mn where mn: "minion_ready mn" "length (fm_data (mn_file mn)) = 8" using ex_minion .
  let ?S = "ex_raid ex_stream mn"
  have i: "raid_idle ?S" using ex_idle [OF mn] .
  have f: "rq_from (ex_rq 0 3 2 2) = rq_from (ex_rq 1 1 2 2)" "rq_len (ex_rq 1 2 10 2) = rq_len (ex_rq 1 1 2 2)"
    "rq_len (ex_rq 0 3 2 2) = rq_len (ex_rq 1 1 2 2)"
    by (simp_all add: ex_rq_def linux_nbd_def ex_request_def)
  from neighbour_overwrites_mirror [OF i ex_env_ok refl, unfolded ex_drive, OF ex_stream_parts(1) _
      ex_stream_parts(2) _ ex_stream_parts(3) _ f(2,1,3),
      of "[chunk_of (ex_rq 1 1 2 2) ?S, mirror_of (ex_rq 1 1 2 2) ?S]"
        "[chunk_of (ex_rq 1 2 10 2) ?S, mirror_of (ex_rq 1 2 10 2) ?S]" "[9]"]
  obtain S' where "serve_requests ex_env [9] [[chunk_of (ex_rq 1 1 2 2) ?S, mirror_of (ex_rq 1 1 2 2) ?S],
      [chunk_of (ex_rq 1 2 10 2) ?S, mirror_of (ex_rq 1 2 10 2) ?S],
      [mirror_of (ex_rq 0 3 2 2) ?S, chunk_of (ex_rq 0 3 2 2) ?S]] ?S = Inr S'"
    "nbd_output (rd_master S') = reply_bytes linux_nbd (reply_to linux_nbd (ex_rq 1 1 2 2)) @
      reply_bytes linux_nbd (reply_to linux_nbd (ex_rq 1 2 10 2)) @
      reply_bytes linux_nbd (reply_to linux_nbd (ex_rq 0 3 2 2)) @ [67, 68]"
    by (auto simp: orders_of_def ex_raid_fields ex_h ex_rq_fields simp del: serve_requests.simps)
  with i show ?thesis by blast
qed

theorem drive_read_after_write_witness:
  "\<exists>mn o1 o2 S'. raid_idle (ex_raid (ex_request 1 1 2 2 @ [65, 66] @ ex_request 0 3 2 2) mn) \<and>
    serve_requests ex_env [9] [o1, o2] (ex_raid (ex_request 1 1 2 2 @ [65, 66] @ ex_request 0 3 2 2) mn) = Inr S' \<and>
    nbd_output (rd_master S') = reply_bytes linux_nbd (reply_to linux_nbd (ex_rq 1 1 2 2)) @
      reply_bytes linux_nbd (reply_to linux_nbd (ex_rq 0 3 2 2)) @ [65, 66]"
proof -
  let ?st = "ex_request 1 1 2 2 @ [65, 66] @ ex_request 0 3 2 2"
  obtain mn where mn: "minion_ready mn" "length (fm_data (mn_file mn)) = 8" using ex_minion .
  let ?S = "ex_raid ?st mn"
  have i: "raid_idle ?S" using ex_idle [OF mn] .
  have ne: "?st \<noteq> []" by simp
  note fields = ex_raid_fields(1) ex_raid_fields(3) [OF ne]
  have q1: "request_on ex_env (ex_master ?st) ?st (ex_rq 1 1 2 2) (Some [65, 66])"
    by (rule ex_request_on [OF refl]) (use ex_in_chunk in simp_all)
  have "drop (used_by ex_env (Some [65, 66])) ?st = ex_request 0 3 2 2 @ []"
    by (simp add: used_by_def ex_h linux_nbd_def ex_request_def)
  then have q2: "request_on ex_env (ex_master ?st) (drop (used_by ex_env (Some [65, 66])) ?st) (ex_rq 0 3 2 2) None"
    by (simp only:) (rule ex_request_on [OF refl], use ex_in_chunk in simp_all)
  have f: "rq_from (ex_rq 0 3 2 2) = rq_from (ex_rq 1 1 2 2)" "rq_len (ex_rq 0 3 2 2) = rq_len (ex_rq 1 1 2 2)"
    by (simp_all add: ex_rq_def linux_nbd_def ex_request_def)
  from drive_read_after_write [OF i ex_env_ok, unfolded fields, OF q1 _ q2 f,
      of "[chunk_of (ex_rq 1 1 2 2) ?S, mirror_of (ex_rq 1 1 2 2) ?S]"
        "[mirror_of (ex_rq 0 3 2 2) ?S]" "[9]"]
  obtain S' where "serve_requests ex_env [9] [[chunk_of (ex_rq 1 1 2 2) ?S, mirror_of (ex_rq 1 1 2 2) ?S],
      [mirror_of (ex_rq 0 3 2 2) ?S]] ?S = Inr S'"
    "nbd_output (rd_master S') = reply_bytes linux_nbd (reply_to linux_nbd (ex_rq 1 1 2 2)) @
      reply_bytes linux_nbd (reply_to linux_nbd (ex_rq 0 3 2 2)) @ [65, 66]"
    by (auto simp: orders_of_def read_orders_of_def ex_raid_fields ex_h simp del: serve_requests.simps)
  with i show ?thesis by blast
qed

end
