(* ===== verification/Drive_Refinement.thy ===== *)
theory Drive_Refinement
  imports Raid_System
begin

text \<open>
  The drive as a whole against what a block device promises.  The specification is a list of bytes: a write replaces a
  range, a read returns one.  The drive keeps a chunk in the files of two minions; since the second file is also the
  first file of the next chunk, the drive implements the specification on every set of chunks no two of which are
  neighbours, for any sequence of requests, with the answers of the minions in any order and, for reads, with one of the
  two minions of the chunk silent.
\<close>

section \<open>The specification\<close>

text \<open>A request with its payload, and the order in which its minions answer.\<close>

type_synonym served = "nbd_request \<times> char_array \<times> nat list"

definition offset_of :: "nbd_request \<Rightarrow> nat" where
  "offset_of rq = unat (Ntohll (rq_from rq))"

primrec volume_reply :: "nbd_h \<Rightarrow> served \<Rightarrow> byte list \<Rightarrow> byte list" where
  "volume_reply h (rq, r) D = reply_bytes h (reply_to h rq) @
     (case fst r of None \<Rightarrow> take (unat (ntohl (rq_len rq))) (drop (offset_of rq) D) | Some d \<Rightarrow> [])"

primrec volume_after :: "served \<Rightarrow> byte list \<Rightarrow> byte list" where
  "volume_after (rq, r) D = (case fst r of None \<Rightarrow> D | Some d \<Rightarrow> splice D (offset_of rq) d)"

fun volume_run :: "nbd_h \<Rightarrow> served list \<Rightarrow> byte list \<Rightarrow> byte list \<times> byte list" where
  "volume_run h [] D = ([], D)"
| "volume_run h (r # rs) D =
     (let (out, D') = volume_run h rs (volume_after r D) in (volume_reply h r D @ out, D'))"

section \<open>The refinement\<close>

definition chunk :: "nat \<Rightarrow> byte list \<Rightarrow> nat \<Rightarrow> byte list" where
  "chunk mb D c = take mb (drop (c * mb) D)"

abbreviation minion_count :: "raid \<Rightarrow> nat" where
  "minion_count S \<equiv> length (m_minions (manager (rd_master S)))"

abbreviation chunk_size :: "raid \<Rightarrow> nat" where
  "chunk_size S \<equiv> unat (m_MBMinion (manager (rd_master S)))"

text \<open>The chunks \<open>C\<close> of the volume \<open>D\<close> are in the files of their primary and their backup minion.\<close>

definition holds_volume :: "nat set \<Rightarrow> raid \<Rightarrow> byte list \<Rightarrow> bool" where
  "holds_volume C S D \<longleftrightarrow> length D = minion_count S * chunk_size S \<and>
     (\<forall>c \<in> C. disk S c = chunk (chunk_size S) D c \<and> disk S ((c + 1) mod minion_count S) = chunk (chunk_size S) D c)"

definition isolated :: "nat \<Rightarrow> nat set \<Rightarrow> bool" where
  "isolated n C \<longleftrightarrow> (\<forall>c \<in> C. c < n \<and> (c + 1) mod n \<notin> C)"

text \<open>The requests that follow each other on the client's stream, each inside one of the chunks \<open>C\<close>.\<close>

fun requests_on :: "env \<Rightarrow> nat set \<Rightarrow> raid \<Rightarrow> byte list \<Rightarrow> served list \<Rightarrow> bool" where
  "requests_on e C S st [] = True"
| "requests_on e C S st ((rq, data, order) # rs) \<longleftrightarrow>
     request_on e (rd_master S) st rq data \<and> chunk_of rq S \<in> C \<and>
     order \<in> (if data = None then read_orders_of rq S else orders_of rq S) \<and>
     requests_on e C S (drop (used_by e data) st) rs"

section \<open>Chunks of a volume\<close>

lemma chunk_slice: "p + l \<le> mb \<Longrightarrow> take l (drop p (chunk mb D c)) = take l (drop (c * mb + p) D)"
  by (simp add: chunk_def drop_take min_def add.commute)

lemma length_chunk: "c < n \<Longrightarrow> length D = n * mb \<Longrightarrow> length (chunk mb D c) = mb"
  using mult_le_mono1 [of "Suc c" n mb] by (simp add: chunk_def)

lemma chunk_splice:
  assumes c: "c < n" "c' < n" "length D = n * mb" and p: "p + length d \<le> mb"
  shows "chunk mb (splice D (c * mb + p) d) c' = (if c' = c then splice (chunk mb D c) p d else chunk mb D c')"
proof -
  have le: "k * mb + mb \<le> length D" if "k < n" for k using mult_le_mono1 [of "Suc k" n mb] that c(3) by simp
  have fits: "c * mb + p + length d \<le> length D" using le [OF c(1)] p by simp
  show ?thesis
  proof (cases "c' = c")
    case True
    have "chunk mb (splice D (c * mb + p) d) c = splice (chunk mb D c) p d"
    proof (rule nth_equalityI)
      show "length (chunk mb (splice D (c * mb + p) d) c) = length (splice (chunk mb D c) p d)"
        using fits p c length_chunk [OF c(1)] by (simp add: length_chunk [of c n])
      fix k assume "k < length (chunk mb (splice D (c * mb + p) d) c)"
      then have k: "k < mb" using fits c by (simp add: length_chunk [of c n])
      then show "chunk mb (splice D (c * mb + p) d) c ! k = splice (chunk mb D c) p d ! k"
        using fits p c le [OF c(1)] by (simp add: chunk_def nth_splice)
    qed
    with True show ?thesis by simp
  next
    case False
    then consider "Suc c' \<le> c" | "Suc c \<le> c'" by linarith
    then have "c' * mb + mb \<le> c * mb + p \<or> c * mb + p + length d \<le> c' * mb"
    proof cases
      case 1
      from mult_le_mono1 [OF this, of mb] show ?thesis by simp
    next
      case 2
      from mult_le_mono1 [OF this, of mb] p show ?thesis by simp
    qed
    with slice_splice_other [OF fits le [OF c(2)]] False show ?thesis by (simp add: chunk_def)
  qed
qed

lemma offset_chunk: "offset_of rq = chunk_of rq S * chunk_size S + place_of rq S"
  by (simp add: offset_of_def chunk_of_def primary_of_def place_of_def)

lemma mirror_next: "mirror_of rq S = (chunk_of rq S + 1) mod minion_count S"
  by (simp add: mirror_of_def backup_of_def chunk_of_def)

lemma isolated_less: "isolated n C \<Longrightarrow> c \<in> C \<Longrightarrow> c < n \<and> (c + 1) mod n < n"
  unfolding isolated_def by (metis gr_zeroI mod_less_divisor not_less_zero)

text \<open>Two chunks of an isolated set have no minion in common.\<close>

lemma isolated_disjoint:
  assumes "isolated n C" and "c \<in> C" "c' \<in> C" "c' \<noteq> c"
  shows "c' \<noteq> (c + 1) mod n" "(c' + 1) mod n \<noteq> c" "(c' + 1) mod n \<noteq> (c + 1) mod n"
proof -
  have lt: "c < n" "c' < n" using assms by (auto simp: isolated_def)
  show "c' \<noteq> (c + 1) mod n" "(c' + 1) mod n \<noteq> c" using assms by (auto simp: isolated_def)
  show "(c' + 1) mod n \<noteq> (c + 1) mod n"
    using lt assms(4) by (auto simp: mod_Suc split: if_splits)
qed

lemma requests_on_same:
  "same_minions (rd_master S) (rd_master S') \<Longrightarrow> requests_on e C S' st rs = requests_on e C S st rs"
  by (induction e C S st rs rule: requests_on.induct) (simp_all add: same_minions_requests)

section \<open>One request\<close>

lemma holds_volume_write:
  assumes D: "holds_volume C S D" and iso: "isolated (minion_count S) C" and c: "chunk_of rq S \<in> C"
    and sm: "same_minions (rd_master S) (rd_master S')" and d: "place_of rq S + length d \<le> chunk_size S"
    and dk: "\<forall>j < minion_count S. disk S' j =
       (if j = chunk_of rq S \<or> j = mirror_of rq S then splice (disk S j) (place_of rq S) d else disk S j)"
  shows "holds_volume C S' (splice D (offset_of rq) d)"
proof -
  let ?n = "minion_count S" and ?mb = "chunk_size S" and ?c = "chunk_of rq S"
  have eq: "minion_count S' = ?n" "chunk_size S' = ?mb" using sm by (simp_all add: same_minions_def)
  have n: "c < ?n" "(c + 1) mod ?n < ?n" if "c \<in> C" for c using isolated_less [OF iso that] by auto
  have len: "length D = ?n * ?mb" using D by (simp add: holds_volume_def)
  have "?c * ?mb + ?mb \<le> length D" using mult_le_mono1 [of "Suc ?c" ?n ?mb] n(1) [OF c] len by simp
  then have "length (splice D (offset_of rq) d) = ?n * ?mb" using d len by (simp add: offset_chunk [of _ S])
  moreover have "disk S' k' = chunk ?mb (splice D (offset_of rq) d) k" if k: "k \<in> C" "k' = k \<or> k' = (k + 1) mod ?n" for k k'
  proof -
    have lt: "k' < ?n" using n [OF k(1)] k(2) by auto
    have k': "disk S k' = chunk ?mb D k" using D k by (auto simp: holds_volume_def)
    have "k' = ?c \<or> k' = mirror_of rq S \<longleftrightarrow> k = ?c"
      using isolated_disjoint [OF iso c k(1)] k(2) by (auto simp: mirror_next)
    then show ?thesis using dk lt k' chunk_splice [OF n(1) [OF c] n(1) [OF k(1)] len d] by (auto simp: offset_chunk [of _ S])
  qed
  ultimately show ?thesis unfolding holds_volume_def eq by blast
qed

lemma request_refines:
  assumes S: "raid_idle S" "env_ok e" "holds_volume C S D" "isolated (minion_count S) C"
    and rq: "request_waiting e S rq data" "chunk_of rq S \<in> C"
      "order \<in> (if data = None then read_orders_of rq S else orders_of rq S)"
  shows "\<exists>S'. serve_request e maddr order S = Inr S' \<and> raid_idle S' \<and> same_minions (rd_master S) (rd_master S') \<and>
    nbd_input (rd_master S') = drop (used_by e data) (nbd_input (rd_master S)) \<and>
    nbd_output (rd_master S') = nbd_output (rd_master S) @ volume_reply (e_h e) (rq, data, order) D \<and>
    holds_volume C S' (volume_after (rq, data, order) D)"
proof (cases data)
  case None
  with rq have r: "request_waiting e S rq None" "order \<in> read_orders_of rq S" by simp_all
  from read_served [OF S(1,2) r, of maddr] obtain S' where S': "serve_request e maddr order S = Inr S'" "raid_idle S'"
    and sm: "same_minions (rd_master S) (rd_master S')"
    and io: "nbd_input (rd_master S') = drop (used_by e None) (nbd_input (rd_master S))"
      "nbd_output (rd_master S') = nbd_output (rd_master S) @ reply_bytes (e_h e) (reply_to (e_h e) rq) @
         take (unat (ntohl (rq_len rq))) (drop (place_of rq S) (disk S (hd order)))"
    and dk: "\<forall>j < minion_count S. disk S' j = disk S j" by blast
  have "hd order = chunk_of rq S \<or> hd order = (chunk_of rq S + 1) mod minion_count S"
    using r(2) by (auto simp: read_orders_of_def mirror_next)
  with S(3) rq(2) have "disk S (hd order) = chunk (chunk_size S) D (chunk_of rq S)" by (auto simp: holds_volume_def)
  with request_minions(3) [OF r(1)] have "take (unat (ntohl (rq_len rq))) (drop (place_of rq S) (disk S (hd order))) =
      take (unat (ntohl (rq_len rq))) (drop (offset_of rq) D)" by (simp add: chunk_slice offset_chunk [of _ S])
  moreover have "holds_volume C S' D"
    using S(3) dk sm isolated_less [OF S(4)] by (simp add: holds_volume_def same_minions_def)
  ultimately show ?thesis using S' sm io None by auto
next
  case (Some d)
  with rq have r: "request_waiting e S rq (Some d)"
    "order \<in> {[chunk_of rq S, mirror_of rq S], [mirror_of rq S, chunk_of rq S]}" by (simp_all add: orders_of_def)
  from write_served [OF S(1,2) r, of maddr] obtain S' where S': "serve_request e maddr order S = Inr S'" "raid_idle S'"
    and sm: "same_minions (rd_master S) (rd_master S')"
    and io: "nbd_input (rd_master S') = drop (used_by e (Some d)) (nbd_input (rd_master S))"
      "nbd_output (rd_master S') = nbd_output (rd_master S) @ reply_bytes (e_h e) (reply_to (e_h e) rq)"
    and dk: "\<forall>j < minion_count S. disk S' j =
       (if j = chunk_of rq S \<or> j = mirror_of rq S then splice (disk S j) (place_of rq S) d else disk S j)"
    and d: "length d = unat (ntohl (rq_len rq))" by blast
  have "place_of rq S + length d \<le> chunk_size S" using request_minions(3) [OF r(1)] d by simp
  from holds_volume_write [OF S(3,4) rq(2) sm this dk] S' sm io Some show ?thesis by auto
qed

section \<open>Properties\<close>

text \<open>
  C1. The drive refines a block device: on any set of chunks without neighbours, any sequence of read and write requests
  of the NBD client, each inside one chunk, is answered byte for byte as a plain volume answers it, and the files of the
  minions then hold what the volume holds, twice; whatever the order in which the minions answer, and for reads even if
  only one of the two minions of the chunk answers.
\<close>

theorem drive_refines_volume:
  assumes "raid_idle S" and "env_ok e" and "holds_volume C S D" and "isolated (minion_count S) C"
    and "requests_on e C S (nbd_input (rd_master S)) rs"
  shows "\<exists>S'. serve_requests e maddr (map (\<lambda>r. snd (snd r)) rs) S = Inr S' \<and> raid_idle S' \<and>
    nbd_output (rd_master S') = nbd_output (rd_master S) @ fst (volume_run (e_h e) rs D) \<and>
    holds_volume C S' (snd (volume_run (e_h e) rs D))"
  using assms
proof (induction rs arbitrary: S D)
  case (Cons r rs)
  obtain rq data order where r: "r = (rq, data, order)" by (cases r)
  from Cons.prems(5) have q: "request_waiting e S rq data" "chunk_of rq S \<in> C"
    "order \<in> (if data = None then read_orders_of rq S else orders_of rq S)"
    "requests_on e C S (drop (used_by e data) (nbd_input (rd_master S))) rs" by (simp_all add: r)
  from request_refines [OF Cons.prems(1-4) q(1-3), of maddr] obtain S1 where
    S1: "serve_request e maddr order S = Inr S1" "raid_idle S1" "same_minions (rd_master S) (rd_master S1)"
      "nbd_input (rd_master S1) = drop (used_by e data) (nbd_input (rd_master S))"
      "nbd_output (rd_master S1) = nbd_output (rd_master S) @ volume_reply (e_h e) r D"
      "holds_volume C S1 (volume_after r D)" unfolding r by blast
  have "minion_count S1 = minion_count S" using S1(3) by (simp add: same_minions_def)
  with Cons.IH [OF S1(2) assms(2) S1(6)] Cons.prems(4) q(4) S1(4) obtain S2 where
    "serve_requests e maddr (map (\<lambda>r. snd (snd r)) rs) S1 = Inr S2" "raid_idle S2"
    "nbd_output (rd_master S2) = nbd_output (rd_master S1) @ fst (volume_run (e_h e) rs (volume_after r D))"
    "holds_volume C S2 (snd (volume_run (e_h e) rs (volume_after r D)))"
    by (auto simp: requests_on_same [OF S1(3)])
  with S1 show ?case by (auto simp: r Let_def case_prod_unfold)
qed simp

section \<open>Witnesses\<close>

theorem drive_refines_volume_witness:
  "\<exists>mn o1 o2 S'. raid_idle (ex_raid (ex_request 1 1 2 2 @ [65, 66] @ ex_request 0 3 2 2) mn) \<and>
    serve_requests ex_env [9] [o1, o2] (ex_raid (ex_request 1 1 2 2 @ [65, 66] @ ex_request 0 3 2 2) mn) = Inr S' \<and>
    nbd_output (rd_master S') = reply_bytes linux_nbd (reply_to linux_nbd (ex_rq 1 1 2 2)) @
      reply_bytes linux_nbd (reply_to linux_nbd (ex_rq 0 3 2 2)) @ [65, 66]"
proof -
  let ?st = "ex_request 1 1 2 2 @ [65, 66] @ ex_request 0 3 2 2" and ?w = "ex_rq 1 1 2 2" and ?r = "ex_rq 0 3 2 2"
  obtain mn where mn: "minion_ready mn" "length (fm_data (mn_file mn)) = 8" using ex_minion .
  let ?S = "ex_raid ?st mn" and ?d = "fm_data (mn_file mn)"
  have i: "raid_idle ?S" using ex_idle [OF mn] .
  have ne: "?st \<noteq> []" by simp
  note fields = ex_raid_fields(1) ex_raid_fields(3) [OF ne]
  let ?rs = "[(?w, Some [65, 66], [chunk_of ?w ?S, mirror_of ?w ?S]), (?r, None, [mirror_of ?r ?S])]"
  have n: "minion_count ?S = 3" "chunk_size ?S = 8" by (simp_all add: ex_raid_def ex_master_def started_def)
  have v: "holds_volume {0} ?S (?d @ ?d @ ?d)"
    using mn(2) unfolding holds_volume_def n by (simp add: chunk_def disk_def ex_raid_def)
  have q1: "request_on ex_env (ex_master ?st) ?st ?w (Some [65, 66])"
    by (rule ex_request_on [OF refl]) (use ex_in_chunk in simp_all)
  have dr: "drop (used_by ex_env (Some [65, 66])) ?st = ex_request 0 3 2 2 @ []"
    by (simp add: used_by_def ex_h linux_nbd_def ex_request_def)
  have q2: "request_on ex_env (ex_master ?st) (drop (used_by ex_env (Some [65, 66])) ?st) ?r None"
    unfolding dr by (rule ex_request_on [OF refl], use ex_in_chunk in simp_all)
  have c: "chunk_of ?w ?S = 0" "chunk_of ?r ?S = 0"
    using n by (simp_all add: chunk_of_def primary_of_def ex_rq_fields)
  have rs: "requests_on ex_env {0} ?S (nbd_input (rd_master ?S)) ?rs"
    using q1 q2 c unfolding fields by (simp add: fields orders_of_def read_orders_of_def)
  have iso: "isolated (minion_count ?S) {0}" unfolding n by (simp add: isolated_def)
  have "fst (volume_run (e_h ex_env) ?rs (?d @ ?d @ ?d)) = reply_bytes linux_nbd (reply_to linux_nbd ?w) @
      reply_bytes linux_nbd (reply_to linux_nbd ?r) @ [65, 66]"
    using mn(2) by (simp add: ex_h offset_of_def ex_rq_fields splice_def)
  with drive_refines_volume [OF i ex_env_ok v iso rs, of "[9]"] i show ?thesis
    by (auto simp: ex_raid_fields simp del: serve_requests.simps)
qed

end
