(* ===== verification/Lost_Requests.thy ===== *)
theory Lost_Requests
  imports Raid_System
begin

text \<open>
  Requests that are never answered.  A ticket is stuck when the callback that would bring its missing
  response is in no proxy; no event of the master brings it back, so the ticket never completes and no
  reply is sent for its request.  Two kinds of request end so: a write that crosses a chunk boundary,
  because its second segment's callback replaces the first one's under the same identifier, and a
  request of length zero, because it has no segment at all.
\<close>

section \<open>Stuck tickets\<close>

text \<open>No proxy outside \<open>D\<close>, the minions that have fallen silent, holds a callback of the kind \<open>bad\<close>.\<close>

definition no_callback :: "nat set \<Rightarrow> (onDone \<Rightarrow> bool) \<Rightarrow> master \<Rightarrow> bool" where
  "no_callback D bad m \<longleftrightarrow> (\<forall>j < length (m_minions (manager m)). j \<notin> D \<longrightarrow>
     (\<forall>u c. m_map (get_minion j m) u = Some c \<longrightarrow> \<not> bad c))"

text \<open>
  Either nothing will ever call ticket \<open>t\<close>, or a response of one of its write segments is missing and
  lost.  \<open>R\<close> is the reactor's table, which no event changes.
\<close>

definition stuck :: "nat set \<Rightarrow> (int \<times> FDMODE \<rightharpoonup> nat) \<Rightarrow> nat \<Rightarrow> (onDone \<Rightarrow> bool) \<Rightarrow> master \<Rightarrow> bool" where
  "stuck D R t bad m \<longleftrightarrow> mm_reactor (manager m) = R \<and> t < length (tickets m) \<and> \<not> t_completed (tickets m ! t) \<and> no_callback D bad m \<and>
     (bad = (\<lambda>c. fst c = t) \<or>
      (\<exists>k role. bad = (\<lambda>c. c = (t, k, role)) \<and> t_op (tickets m ! t) = OP_WRITE \<and>
         k < length (t_segments (tickets m ! t)) \<and> \<not> done_of role (t_segments (tickets m ! t) ! k)))"

lemma stuck_cong:
  assumes "tickets m' = tickets m" "m_minions (manager m') = m_minions (manager m)"
    "mm_reactor (manager m') = mm_reactor (manager m)"
  shows "stuck D R t bad m' = stuck D R t bad m"
  using assms by (simp add: stuck_def no_callback_def get_minion_def)

lemma stuck_bad: "stuck D R t bad m \<Longrightarrow> bad c \<Longrightarrow> fst c = t"
  by (auto simp: stuck_def)

lemma write_unresolved:
  assumes "t_op T = OP_WRITE" "k < length (t_segments T)" "\<not> done_of role (t_segments T ! k)"
  shows "TryComplete g T = Inr (T, [])"
proof -
  have "\<not> IsSegmentResolved OP_WRITE (t_segments T ! k)"
    using assms(3) by (cases role) (auto simp: IsSegmentResolved_def done_of_def)
  then have "\<not> list_all (IsSegmentResolved (t_op T)) (t_segments T)"
    using assms(1,2) by (auto simp: list_all_length)
  then show ?thesis by (simp add: TryComplete_def)
qed

text \<open>A response that is not the missing one leaves the ticket stuck.\<close>

lemma stuck_response:
  assumes "\<not> t_completed T" "t_op T = OP_WRITE" "k < length (t_segments T)" "\<not> done_of role (t_segments T ! k)"
    and "(k', role') \<noteq> (k, role)" and "OnMirrorResponse g k' role' msg T = Inr (T', out)"
  shows "out = [] \<and> \<not> t_completed T' \<and> t_op T' = OP_WRITE \<and> k < length (t_segments T') \<and>
    \<not> done_of role (t_segments T' ! k)"
proof (cases "k' < length (t_segments T)")
  case False
  with assms show ?thesis by (auto simp: OnMirrorResponse_def)
next
  case True
  let ?T = "T\<lparr>t_segments := (t_segments T)[k' := set_response role' msg (t_segments T ! k')]\<rparr>"
  have "\<not> done_of role (t_segments ?T ! k)" "k < length (t_segments ?T)" "t_op ?T = OP_WRITE"
    using assms True by (auto simp: nth_list_update)
  with write_unresolved [of ?T k role g] assms True show ?thesis
    by (auto simp: OnMirrorResponse_def)
qed

section \<open>Every event keeps a stuck ticket stuck\<close>

lemma stuck_frame [simp]:
  "stuck D R t bad (m\<lparr>ms_log := l\<rparr>) = stuck D R t bad m" "stuck D R t bad (m\<lparr>tasks := ts\<rparr>) = stuck D R t bad m"
  "stuck D R t bad (m\<lparr>s_counter := c\<rparr>) = stuck D R t bad m" "stuck D R t bad (m\<lparr>nbd_proxy := np\<rparr>) = stuck D R t bad m"
  "stuck D R t bad (m\<lparr>responses := rm\<rparr>) = stuck D R t bad m"
  by (rule stuck_cong; simp)+

lemma keeps_stuck_Log [keeps_intros]: "keeps (stuck D R t bad) (Log tx sev)"
  by (simp add: Log_def keeps_cmodify)

lemma keeps_stuck_nbd [keeps_intros]: "keeps (stuck D R t bad) (on_nbd op)"
  by (rule keeps_zoom) simp

lemma keeps_stuck_rm [keeps_intros]: "keeps (stuck D R t bad) (on_rm op)"
  by (rule keeps_zoom) simp

lemma keeps_stuck_OnNBDResponse: "keeps (stuck D R t bad) (OnNBDResponse h result)"
  unfolding OnNBDResponse_def Let_def
  by (auto intro!: keeps_cbind keeps_stuck_Log keeps_stuck_nbd keeps_pure split: option.split bool.split)

lemma keeps_stuck_OnTicketDone: "keeps (stuck D R t bad) (OnTicketDone h result)"
  unfolding OnTicketDone_def OnSuccess_def OnFailure_def
  by (auto intro!: keeps_cbind keeps_stuck_Log keeps_stuck_rm keeps_pure keeps_stuck_OnNBDResponse
      split: option.split)

lemma keeps_stuck_nbd_readable: "keeps (stuck D R t bad) (nbd_readable e)"
proof -
  have "keeps (stuck D R t bad) (np_Create key args)" for key args
    unfolding np_Create_def by (auto intro!: keeps_cbind keeps_pure keeps_cmodify split: prod.split)
  moreover have "keeps (stuck D R t bad) (np_switch h heap_max ty len)" for h heap_max ty len
    unfolding np_switch_def by (auto intro!: keeps_cbind keeps_pure keeps_stuck_nbd keeps_stuck_Log)
  moreover have "keeps (stuck D R t bad) (notify_new_task cb args)" for cb args
    unfolding notify_new_task_def OnNewTask_def by (auto intro!: keeps_pure keeps_stuck_rm)
  ultimately show ?thesis
    unfolding nbd_readable_def NBDProxy_GetTaskArgs_def Let_def
    by (auto intro!: keeps_cbind keeps_pure keeps_stuck_nbd keeps_stuck_Log keeps_cmodify keeps_cforeach
        split: option.split)
qed

text \<open>A proxy operation that stores at most a callback of another ticket.\<close>

lemma stuck_put_minion:
  assumes "stuck D R t bad m" and "i < length (m_minions (manager m))"
    and "\<And>u c. i \<notin> D \<Longrightarrow> m_map p u = Some c \<Longrightarrow> \<not> bad c"
  shows "stuck D R t bad (put_minion i p m)"
proof -
  have "no_callback D bad m" using assms(1) by (simp add: stuck_def)
  then have "no_callback D bad (put_minion i p m)"
    using assms(2,3) unfolding no_callback_def by (metis get_put_minion put_minion_fields(9))
  with assms(1) show ?thesis by (auto simp: stuck_def)
qed

lemma stuck_get_minion:
  "stuck D R t bad m \<Longrightarrow> i < length (m_minions (manager m)) \<Longrightarrow> i \<notin> D \<Longrightarrow> m_map (get_minion i m) u = Some c \<Longrightarrow>
    \<not> bad c"
  unfolding stuck_def no_callback_def by blast

lemma keeps_stuck_at_minion:
  assumes "\<And>p r p' u c. method p = Inr (r, p') \<Longrightarrow> m_map p' u = Some c \<Longrightarrow> m_map p u = Some c \<or> \<not> bad c"
  shows "keeps (stuck D R t bad) (at_minion idx method)"
proof (rule tripleI)
  fix m r m' assume st: "stuck D R t bad m" and run: "at_minion idx method m = Inr (r, m')"
  from run obtain p' where i: "unat idx < length (m_minions (manager m))"
    and p: "method (get_minion (unat idx) m) = Inr (r, p')" and m': "m' = put_minion (unat idx) p' m"
    by (auto simp: at_minion_def cpp_simps split: if_splits sum.splits prod.splits)
  show "stuck D R t bad m'"
    unfolding m' using assms [OF p] stuck_get_minion [OF st i] by (intro stuck_put_minion [OF st i]) blast
qed

lemma keeps_stuck_send_read:
  "\<not> bad c \<Longrightarrow> keeps (stuck D R t bad) (at_minion idx (MinionProxy_AddReadTask sendto g uid off len c))"
  by (rule keeps_stuck_at_minion)
    (auto dest: read_link.submit_pending [where uid = uid and q = "(off, len)", simplified] split: if_splits)

lemma keeps_stuck_send_write:
  "\<not> bad c \<Longrightarrow> keeps (stuck D R t bad) (at_minion idx (MinionProxy_AddWriteTask sendto g past uid off len data c))"
  by (rule keeps_stuck_at_minion)
    (auto dest: write_link.submit_pending [where uid = uid and q = "(off, len, data)", simplified]
      split: if_splits)

lemma stuck_opened:
  assumes "stuck D R t bad m"
  shows "stuck D R t bad (opened uid opr len segs m)" "\<not> bad (length (tickets m), k, role)"
  using assms stuck_bad [OF assms, of "(length (tickets m), k, role)"]
  by (auto simp: stuck_def no_callback_def nth_append get_minion_def)

lemma open_ticket_stuck:
  assumes "wired m" "stuck D R t bad m" "open_ticket notify_new_ticket uid opr offset len m = Inr (r, m')"
  shows "stuck D R t bad m' \<and> (\<forall>t' segs k role. r = Inr (t', segs) \<longrightarrow> \<not> bad (t', k, role))"
proof -
  have d: "mm_dispatcher (manager m) = [m_newTicketCallback]" using assms(1) by (simp add: wired_def)
  from assms(3) [unfolded open_ticket_run [OF d]] show ?thesis
    using stuck_opened [OF assms(2)] assms(2) by (auto split: sum.splits error.splits)
qed

lemma AddReadTask_stuck:
  assumes "wired m" "stuck D R t bad m"
    and "MinionManager_AddReadTask sendto g notify_new_ticket uid offset len m = Inr (r, m')"
  shows "stuck D R t bad m'"
proof (cases "open_ticket notify_new_ticket uid OP_READ offset len m")
  case (Inl u)
  with assms(3) show ?thesis by (simp add: MinionManager_AddReadTask_def cbind_def)
next
  case (Inr x)
  obtain q m1 where x: "x = (q, m1)" by (cases x)
  note o = open_ticket_stuck [OF assms(1,2) Inr [unfolded x]]
  show ?thesis
  proof (cases q)
    case q: (Inl ex)
    with assms(3) Inr x o show ?thesis by (auto simp: MinionManager_AddReadTask_def cbind_def)
  next
    case q: (Inr y)
    obtain t' segs where y: "y = (t', segs)" by (cases y)
    have "keeps (stuck D R t bad) (cforeach (\<lambda>(segIdx, seg).
       cbind (at_minion (primaryMinionIndex seg) (MinionProxy_AddReadTask sendto g uid (localOffset seg)
         (segLength seg) (t', segIdx, PRIMARY))) (\<lambda>_.
       at_minion (backupMinionIndex seg) (MinionProxy_AddReadTask sendto g uid (localOffset seg)
         (segLength seg) (t', segIdx, BACKUP)))) (enumerate 0 segs))"
      using o q y by (intro keeps_cforeach) (auto intro!: keeps_cbind keeps_stuck_send_read)
    from tripleD [OF this] assms(3) Inr x q y o show ?thesis
      by (auto simp: MinionManager_AddReadTask_def cbind_def)
  qed
qed

lemma AddWriteTask_stuck:
  assumes "wired m" "stuck D R t bad m"
    and "MinionManager_AddWriteTask sendto g past heap_max notify_new_ticket uid offset len buffer m = Inr (r, m')"
  shows "stuck D R t bad m'"
proof (cases "open_ticket notify_new_ticket uid OP_WRITE offset len m")
  case (Inl u)
  with assms(3) show ?thesis by (simp add: MinionManager_AddWriteTask_def cbind_def)
next
  case (Inr x)
  obtain q m1 where x: "x = (q, m1)" by (cases x)
  note o = open_ticket_stuck [OF assms(1,2) Inr [unfolded x]]
  show ?thesis
  proof (cases q)
    case q: (Inl ex)
    with assms(3) Inr x o show ?thesis by (auto simp: MinionManager_AddWriteTask_def cbind_def)
  next
    case q: (Inr y)
    obtain t' segs where y: "y = (t', segs)" by (cases y)
    have "keeps (stuck D R t bad) (cforeach (\<lambda>(segIdx, seg).
       cbind (clift (slice_of g heap_max buffer seg)) (\<lambda>slice.
       cbind (at_minion (primaryMinionIndex seg) (MinionProxy_AddWriteTask sendto g past uid
         (localOffset seg) (segLength seg) (Some slice) (t', segIdx, PRIMARY))) (\<lambda>_.
       at_minion (backupMinionIndex seg) (MinionProxy_AddWriteTask sendto g past uid
         (localOffset seg) (segLength seg) (Some slice) (t', segIdx, BACKUP)))))
       (enumerate 0 segs))"
      using o q y by (intro keeps_cforeach) (auto intro!: keeps_cbind keeps_pure keeps_stuck_send_write)
    from tripleD [OF this] assms(3) Inr x q y o show ?thesis
      by (auto simp: MinionManager_AddWriteTask_def cbind_def)
  qed
qed

text \<open>Together with the invariant of the master.\<close>

definition stuck_inv :: "nat set \<Rightarrow> (int \<times> FDMODE \<rightharpoonup> nat) \<Rightarrow> nat \<Rightarrow> (onDone \<Rightarrow> bool) \<Rightarrow> master \<Rightarrow> bool" where
  "stuck_inv D R t bad m \<longleftrightarrow> master_inv m \<and> stuck D R t bad m"

lemma keeps_stuck_inv:
  assumes "keeps master_inv op" and "\<And>m r m'. master_inv m \<Longrightarrow> stuck D R t bad m \<Longrightarrow> op m = Inr (r, m') \<Longrightarrow> stuck D R t bad m'"
  shows "keeps (stuck_inv D R t bad) op"
  using assms unfolding triple_def stuck_inv_def by blast

lemma wired_inv: "master_inv m \<Longrightarrow> wired m"
  by (simp add: master_inv_def)

lemma keeps_stuck_run_task: "keeps (stuck_inv D R t bad) (run_task e k)"
proof -
  have lg: "keeps (stuck_inv D R t bad) (Log tx sev)" for tx sev
    by (rule keeps_stuck_inv [OF keeps_Log]) (simp add: cpp_simps)
  have rd: "keeps (stuck_inv D R t bad) (MinionManager_AddReadTask sendto g notify_new_ticket uid off len)"
    for sendto g uid off len
    by (rule keeps_stuck_inv [OF keeps_AddReadTask]) (rule AddReadTask_stuck [OF wired_inv])
  have wr: "keeps (stuck_inv D R t bad)
      (MinionManager_AddWriteTask sendto g past heap_max notify_new_ticket uid off len buffer)"
    for sendto g past heap_max uid off len buffer
    by (rule keeps_stuck_inv [OF keeps_AddWriteTask]) (rule AddWriteTask_stuck [OF wired_inv])
  have "keeps (stuck_inv D R t bad) (ReadCommand_Run e args)" for args
    unfolding ReadCommand_Run_def by (cases args) (simp_all add: lg keeps_ctry rd)
  moreover have "keeps (stuck_inv D R t bad) (WriteCommand_Run e args)" for args
    unfolding WriteCommand_Run_def by (cases args) (simp_all add: lg keeps_ctry wr)
  ultimately have "keeps (stuck_inv D R t bad) (FW_TPTask_Run e args)" for args
    unfolding FW_TPTask_Run_def
    by (auto intro!: keeps_ctry keeps_cbind keeps_pure lg split: master_command.split)
  then show ?thesis
    unfolding run_task_def
    by (intro keeps_cbind keeps_pure keeps_if keeps_cmodify) (simp add: stuck_inv_def)
qed

lemma call_onDone_stuck:
  assumes "\<not> bad c"
  shows "keeps (stuck D R t bad) (call_onDone g (notify_done h) c msg)"
proof (rule tripleI)
  fix m r m'
  assume st: "stuck D R t bad m" and run: "call_onDone g (notify_done h) c msg m = Inr (r, m')"
  obtain t' k' role' where c: "c = (t', k', role')" by (cases c)
  show "stuck D R t bad m'"
  proof (cases "OnMirrorResponse g k' role' (Some msg) (tickets m ! t')")
    case (Inl err)
    with run st c show ?thesis by (cases err) (auto simp: call_onDone_def cpp_simps)
  next
    case (Inr a)
    obtain T out where a: "a = (T, out)" by (cases a)
    let ?m1 = "m\<lparr>tickets := (tickets m)[t' := T], s_counter :=
      (if t_completed T \<and> \<not> t_completed (tickets m ! t') then snd (UID_next (s_counter m)) else s_counter m)\<rparr>"
    have "stuck D R t bad (m\<lparr>tickets := (tickets m)[t' := T]\<rparr>)"
    proof (cases "t' = t")
      case False
      then show ?thesis using st by (auto simp: stuck_def no_callback_def)
    next
      case True
      with st assms c obtain k role where b: "bad = (\<lambda>c. c = (t, k, role))"
        "t_op (tickets m ! t) = OP_WRITE" "k < length (t_segments (tickets m ! t))"
        "\<not> done_of role (t_segments (tickets m ! t) ! k)" "\<not> t_completed (tickets m ! t)" "t < length (tickets m)"
        by (auto simp: stuck_def)
      with True assms c stuck_response [OF b(5,2-4) _ Inr [unfolded a True]] st show ?thesis
        by (auto simp: stuck_def no_callback_def)
    qed
    then have "stuck D R t bad ?m1" by (simp add: stuck_def no_callback_def)
    moreover have "keeps (stuck D R t bad) (cforeach (\<lambda>(cb, result). notify_done h cb result) out)"
      by (rule keeps_cforeach) (auto simp: notify_done_def intro!: keeps_stuck_OnTicketDone keeps_pure)
    moreover have "cforeach (\<lambda>(cb, result). notify_done h cb result) out ?m1 = Inr (r, m')"
      using run Inr a c by (simp add: call_onDone_def cpp_simps)
    ultimately show ?thesis by (auto dest: tripleD)
  qed
qed

lemma keeps_stuck_method:
  assumes "\<And>p r p' u c. method p = Inr (r, p') \<Longrightarrow> m_map p' u = Some c \<Longrightarrow> m_map p u = Some c"
  shows "keeps (\<lambda>m. stuck D R t bad m \<and> i < length (m_minions (manager m))) (zoom (get_minion i) (put_minion i) method)"
proof (rule keeps_zoom, elim conjE)
  fix m r p assume st: "stuck D R t bad m" "i < length (m_minions (manager m))" and run: "method (get_minion i m) = Inr (r, p)"
  have "stuck D R t bad (put_minion i p m)"
    using assms [OF run] stuck_get_minion [OF st] by (intro stuck_put_minion [OF st]) blast
  with st(2) show "stuck D R t bad (put_minion i p m) \<and> i < length (m_minions (manager (put_minion i p m)))" by simp
qed

lemma manager_call_onDone:
  assumes "call_onDone g (notify_done h) c msg m = Inr (r, m')"
  shows "manager m' = manager m"
proof -
  have nbd: "keeps (\<lambda>m'. manager m' = manager m) (on_nbd op)" for op :: "(NBDProxy, 'x) cpp"
    by (rule keeps_zoom) simp
  have rm: "keeps (\<lambda>m'. manager m' = manager m) (on_rm op)" for op :: "(ResponseManager, 'x) cpp"
    by (rule keeps_zoom) simp
  have lg: "keeps (\<lambda>m'. manager m' = manager m) (Log tx sev)" for tx sev
    by (simp add: Log_def keeps_cmodify)
  have "keeps (\<lambda>m'. manager m' = manager m) (notify_done h cb result)" for cb result
    unfolding notify_done_def OnTicketDone_def OnNBDResponse_def OnSuccess_def OnFailure_def Let_def
    by (auto intro!: keeps_cbind keeps_pure nbd rm lg split: option.split bool.split)
  then have "keeps (\<lambda>m'. manager m' = manager m) (call_onDone g (notify_done h) c msg)"
    unfolding call_onDone_def
    by (auto intro!: keeps_cbind keeps_pure keeps_cmodify keeps_cforeach split: prod.split)
  from tripleD [OF this assms] show ?thesis by simp
qed

lemma keeps_stuck_wakeup:
  assumes "i \<notin> D"
  shows "keeps (\<lambda>m. stuck D R t bad m \<and> i < length (m_minions (manager m)))
     (OnMinionFDWakeUp (get_minion i) (put_minion i) (call_onDone g (notify_done h)) factory stack heap_max recvfrom)"
proof -
  let ?Q = "\<lambda>m. stuck D R t bad m \<and> i < length (m_minions (manager m))"
  have rcv: "keeps ?Q (zoom (get_minion i) (put_minion i) (MinionProxy_ReceiveFrom recvfrom))"
    by (rule keeps_stuck_method)
      (auto simp: MinionProxy_ReceiveFrom_def cbind_eq_Inr cpp_simps clift_def split: sum.splits error.splits)
  have lg: "keeps ?Q (zoom (get_minion i) (put_minion i) (mp_Log tx sev))" for tx sev
    by (rule keeps_stuck_method) (auto simp: mp_Log_def cpp_simps)
  have er: "keeps ?Q (zoom (get_minion i) (put_minion i)
      (cmodify (\<lambda>p. p\<lparr>m_map := map_erase u (m_map p)\<rparr>)))" for u
    by (rule keeps_stuck_method) (auto simp: cpp_simps split: if_splits)
  have cb: "keeps ?Q (call_onDone g (notify_done h) c msg)" if "\<not> bad c" for c msg
    using call_onDone_stuck [where bad = bad and c = c] that manager_call_onDone
    unfolding triple_def by metis
  have lookup: "keeps ?Q (cbind (cget (\<lambda>s. m_map (get_minion i s) u)) (\<lambda>it. case it of
        None \<Rightarrow> zoom (get_minion i) (put_minion i) (mp_Log tx sev)
      | Some onDone \<Rightarrow> cbind (call_onDone g (notify_done h) onDone msg) (\<lambda>_. zoom (get_minion i) (put_minion i)
          (cmodify (\<lambda>p. p\<lparr>m_map := map_erase u' (m_map p)\<rparr>)))))" for u u' msg tx sev
  proof (rule keeps_cget_bind)
    fix m r m'
    assume Q: "?Q m" and run: "(case m_map (get_minion i m) u of
        None \<Rightarrow> zoom (get_minion i) (put_minion i) (mp_Log tx sev)
      | Some onDone \<Rightarrow> cbind (call_onDone g (notify_done h) onDone msg) (\<lambda>_. zoom (get_minion i) (put_minion i)
          (cmodify (\<lambda>p. p\<lparr>m_map := map_erase u' (m_map p)\<rparr>)))) m = Inr (r, m')"
    show "?Q m'"
    proof (cases "m_map (get_minion i m) u")
      case None
      with run have "zoom (get_minion i) (put_minion i) (mp_Log tx sev) m = Inr (r, m')" by simp
      from tripleD [OF lg this Q] show ?thesis .
    next
      case (Some c)
      with Q have nb: "\<not> bad c" using stuck_get_minion [OF _ _ assms] by blast
      have k: "keeps ?Q (cbind (call_onDone g (notify_done h) c msg) (\<lambda>_. zoom (get_minion i) (put_minion i)
          (cmodify (\<lambda>p. p\<lparr>m_map := map_erase u' (m_map p)\<rparr>))))"
        by (rule keeps_cbind [OF cb [OF nb] er])
      from run Some have "cbind (call_onDone g (notify_done h) c msg) (\<lambda>_. zoom (get_minion i) (put_minion i)
          (cmodify (\<lambda>p. p\<lparr>m_map := map_erase u' (m_map p)\<rparr>))) m = Inr (r, m')" by simp
      from tripleD [OF k this Q] show ?thesis .
    qed
  qed
  show ?thesis
    unfolding OnMinionFDWakeUp_def
    by (auto intro!: keeps_cbind [OF rcv] keeps_cbind [OF keeps_pure(4)] lg lookup split: frame.split prod.split)
qed

text \<open>Events that are no datagram of a silent minion.\<close>

definition spares :: "nat set \<Rightarrow> (int \<times> FDMODE \<rightharpoonup> nat) \<Rightarrow> event \<Rightarrow> bool" where
  "spares D R ev = (case ev of MinionReadable fd _ \<Rightarrow> (case R (fd, MODE_READ) of None \<Rightarrow> True | Some i \<Rightarrow> i \<notin> D) | _ \<Rightarrow> True)"

lemma keeps_stuck_handle:
  assumes "spares D R ev"
  shows "keeps (stuck_inv D R t bad) (handle e ev)"
proof (cases ev)
  case NbdReadable
  then show ?thesis
    using keeps_stuck_inv [OF keeps_nbd_readable] tripleD [OF keeps_stuck_nbd_readable]
    by (simp add: handle_def)
next
  case (RunTask k)
  then show ?thesis by (simp add: handle_def keeps_stuck_run_task)
next
  case (MinionReadable fd recvfrom)
  have "keeps (stuck_inv D R t bad) (minion_readable g (notify_done h) stack heap_max fd recvfrom)" for g h stack heap_max
  proof (rule keeps_stuck_inv [OF keeps_minion_readable])
    fix m r m' assume inv: "master_inv m" and st: "stuck D R t bad m"
      and run: "minion_readable g (notify_done h) stack heap_max fd recvfrom m = Inr (r, m')"
    show "stuck D R t bad m'"
    proof (cases "mm_reactor (manager m) (fd, MODE_READ)")
      case None
      with run st show ?thesis by (simp add: minion_readable_def cpp_simps)
    next
      case (Some i)
      with inv have "i < length (m_minions (manager m))" by (simp add: master_inv_def reactor_ok_def)
      moreover have "i \<notin> D" using assms st Some MinionReadable by (simp add: spares_def stuck_def)
      ultimately show ?thesis
        using st run Some tripleD [OF keeps_stuck_wakeup [of i D R t bad]] by (simp add: minion_readable_def cpp_simps)
    qed
  qed
  then show ?thesis by (simp add: handle_def MinionReadable)
qed

section \<open>How requests get stuck\<close>

definition run_events :: "env \<Rightarrow> event list \<Rightarrow> (master, unit) cpp" where
  "run_events e evs = cforeach (handle e) evs"

lemma run_events_stuck:
  assumes "stuck_inv D R t bad m" and "list_all (spares D R) evs" and "run_events e evs m = Inr (r, m')"
  shows "\<not> t_completed (tickets m' ! t)"
proof -
  have "keeps (stuck_inv D R t bad) (run_events e evs)"
    unfolding run_events_def using assms(2) by (intro keeps_cforeach keeps_stuck_handle) (simp add: list_all_iff)
  from tripleD [OF this assms(3,1)] show ?thesis by (simp add: stuck_inv_def stuck_def)
qed

lemma spares_none: "list_all (spares {} R) evs"
  by (simp add: list_all_iff spares_def split: event.split option.split)

text \<open>A new ticket has no callback yet.\<close>

lemma fresh_ticket:
  assumes "master_inv m" "j < length (m_minions (manager m))" "m_map (get_minion j m) u = Some c"
  shows "fst c < length (tickets m)"
proof -
  have "valid_cb (tickets m) u c"
    using assms unfolding master_inv_def proxies_ok_def get_minion_def by (meson nth_mem)
  then show ?thesis by (cases c) (simp add: valid_cb_def)
qed

text \<open>A new write ticket whose callback for one response of the first segment is nowhere, or only at silent minions.\<close>

lemma new_write_stuck:
  assumes "tickets m' = tickets m @ [RegisterToResultDispatcher m_ticketDoneCallback (new_Ticket uid OP_WRITE len segs)]"
    and "segs \<noteq> []" and "no_callback D (\<lambda>c. c = (length (tickets m), 0, role)) m'"
    and "mm_reactor (manager m') = mm_reactor (manager m)"
  shows "stuck D (mm_reactor (manager m)) (length (tickets m)) (\<lambda>c. c = (length (tickets m), 0, role)) m'"
proof -
  have T: "tickets m' ! length (tickets m) =
      RegisterToResultDispatcher m_ticketDoneCallback (new_Ticket uid OP_WRITE len segs)"
    "length (tickets m) < length (tickets m')" by (simp_all add: assms(1))
  have "\<not> done_of role (t_segments (tickets m' ! length (tickets m)) ! 0)"
    "0 < length (t_segments (tickets m' ! length (tickets m)))"
    "t_op (tickets m' ! length (tickets m)) = OP_WRITE" "\<not> t_completed (tickets m' ! length (tickets m))"
    using assms(2)
    by (cases role; auto simp: T RegisterToResultDispatcher_def new_Ticket_def done_of_def nth_Cons' neq_Nil_conv)+
  with T(2) assms(3,4) show ?thesis unfolding stuck_def by blast
qed

lemma fresh_callback:
  assumes "master_inv m" "j < length (m_minions (manager m))"
  shows "m_map (get_minion j m) u \<noteq> Some (length (tickets m), k, role)"
  using fresh_ticket [OF assms] by force

text \<open>The second callback under the same identifier at the same proxy replaces the first.\<close>

lemma overwritten_callback:
  assumes inv: "master_inv m" and ij: "p < length (m_minions (manager m))" "q < length (m_minions (manager m))"
    and m3: "m3 = submit q uid (t, 1, PRIMARY) b1 (submit q uid (t, 0, BACKUP) b0
      (submit p uid (t, 0, PRIMARY) b0 (opened uid OP_WRITE len segs m)))"
    and t: "t = length (tickets m)" and segs: "segs \<noteq> []"
  shows "stuck {} (mm_reactor (manager m)) t (\<lambda>c. c = (t, 0, BACKUP)) m3"
proof -
  have "no_callback {} (\<lambda>c. c = (t, 0, BACKUP)) m3"
    unfolding no_callback_def using ij fresh_callback [OF inv] by (auto simp: m3 t)
  then show ?thesis unfolding t by (intro new_write_stuck [OF _ segs]) (simp_all add: m3)
qed

text \<open>The callback for a mirror's answer is at that mirror only.\<close>

lemma silent_mirror:
  assumes inv: "master_inv m" and ij: "p < length (m_minions (manager m))" "b < length (m_minions (manager m))" "p \<noteq> b"
    and i: "(i, role) \<in> {(p, PRIMARY), (b, BACKUP)}"
  shows "stuck {i} (mm_reactor (manager m)) (length (tickets m)) (\<lambda>c. c = (length (tickets m), 0, role))
    (mirrored p b u OP_WRITE len seg bytes m)"
proof -
  have "no_callback {i} (\<lambda>c. c = (length (tickets m), 0, role)) (mirrored p b u OP_WRITE len seg bytes m)"
    unfolding no_callback_def using ij i fresh_callback [OF inv] by (auto simp: mirrored_def)
  then show ?thesis by (intro new_write_stuck [where segs = "[seg]"]) (simp_all add: mirrored_def)
qed

lemma slice_of_ok:
  assumes "unat (bufferOffset s) + unat (segLength s) \<le> length d" "unat (segLength s) \<le> heap_max"
  shows "slice_of g heap_max (Some d) s = Inr (take (unat (segLength s)) (drop (unat (bufferOffset s)) d))"
  using assms by (simp add: slice_of_def memcpy_def)

lemma crossing_segments:
  assumes c: "c \<noteq> 0" and n: "n \<noteq> 0" and nov: "unat off + unat len < 2 ^ 64"
    and cross: "unat c < unat off mod unat c + unat len"
    and range: "unat off + unat len \<le> unat n * unat c"
  obtains s0 s1 rest where "Split off len c n = Inr (s0 # s1 # rest)"
    "unat (backupMinionIndex s0) = unat (primaryMinionIndex s1)" "unat (primaryMinionIndex s0) < unat n"
    "unat (primaryMinionIndex s1) < unat n"
    "\<forall>s \<in> set (s0 # s1 # rest). unat (bufferOffset s) + unat (segLength s) \<le> unat len"
    "\<forall>s \<in> set (s0 # s1 # rest). unat (primaryMinionIndex s) < unat n \<and> unat (backupMinionIndex s) < unat n"
proof -
  obtain ss where ss: "Split off len c n = Inr ss" "segs_chain (unat c) (unat n) (unat off) 0 (unat len) ss"
    using stripe.split_chain [OF c n nov] by blast
  let ?l = "unat c - unat off mod unat c"
  have c0: "0 < unat c" using c by (simp add: unat_gt_0)
  then have m: "unat off mod unat c < unat c" by simp
  with cross have l: "min (unat len) ?l = ?l" "?l < unat len" by auto
  obtain s0 ss1 where s0: "ss = s0 # ss1" using ss(2) l(2) by (cases ss) auto
  with ss(2) l have ch: "segs_chain (unat c) (unat n) (unat off + ?l) ?l (unat len - ?l) ss1"
    "unat (backupMinionIndex s0) = (unat off div unat c + 1) mod unat n"
    "unat (primaryMinionIndex s0) = unat off div unat c" by simp_all
  obtain s1 rest where s1: "ss1 = s1 # rest" using ch(1) l(2) by (cases ss1) auto
  have "unat off div unat c * unat c + unat off mod unat c = unat off" by (rule div_mult_mod_eq)
  moreover have "(unat off div unat c + 1) * unat c = unat off div unat c * unat c + unat c" by simp
  ultimately have "unat off + ?l = (unat off div unat c + 1) * unat c" using m by linarith
  then have d: "(unat off + ?l) div unat c = unat off div unat c + 1" using c0 by simp
  have "unat off + ?l < unat n * unat c" using range l(2) by linarith
  then have lt: "unat off div unat c + 1 < unat n" using d by (metis less_mult_imp_div_less)
  have p1: "unat (primaryMinionIndex s1) = unat off div unat c + 1" using ch(1) s1 d by simp
  have "\<forall>s \<in> set ss. unat (bufferOffset s) + unat (segLength s) \<le> unat len"
    using stripe.buffer_range [OF c n nov ss(1)] by blast
  moreover have "0 < unat n" using n by (simp add: unat_gt_0)
  then have "\<forall>s \<in> set ss. unat (primaryMinionIndex s) < unat n \<and> unat (backupMinionIndex s) < unat n"
    using stripe.bounds [OF c n nov ss(1)] range by (auto simp: mult.commute)
  ultimately show ?thesis
    using that [of s0 s1 rest] ss(1) s0 s1 ch(2,3) p1 lt by simp
qed

text \<open>One iteration of the loop of \<open>AddWriteTask\<close>.\<close>

definition write_segment :: "env \<Rightarrow> UID \<Rightarrow> byte list \<Rightarrow> nat \<Rightarrow> nat \<times> StripeSegment \<Rightarrow> (master, unit) cpp" where
  "write_segment e uid d t = (\<lambda>(segIdx, seg).
     cbind (clift (slice_of (e_g e) (e_heap_max e) (Some d) seg)) (\<lambda>slice.
     cbind (at_minion (primaryMinionIndex seg) (MinionProxy_AddWriteTask (e_sendto e) (e_g e) (e_past e) uid
       (localOffset seg) (segLength seg) (Some slice) (t, segIdx, PRIMARY))) (\<lambda>_.
     at_minion (backupMinionIndex seg) (MinionProxy_AddWriteTask (e_sendto e) (e_g e) (e_past e) uid
       (localOffset seg) (segLength seg) (Some slice) (t, segIdx, BACKUP)))))"

lemma AddWriteTask_segments:
  "MinionManager_AddWriteTask (e_sendto e) (e_g e) (e_past e) (e_heap_max e) notify uid off len (Some d) =
     cbind (open_ticket notify uid OP_WRITE off len) (\<lambda>(t, segs). cforeach (write_segment e uid d t) (enumerate 0 segs))"
  by (simp add: MinionManager_AddWriteTask_def write_segment_def)

lemma write_segments_run:
  assumes "env_ok e" and "length d + 33 < BUFSIZ"
    and "\<And>k s. (k, s) \<in> set xs \<Longrightarrow> unat (bufferOffset s) + unat (segLength s) \<le> length d \<and>
      unat (primaryMinionIndex s) < length (m_minions (manager m)) \<and>
      unat (backupMinionIndex s) < length (m_minions (manager m))"
  shows "\<exists>m'. cforeach (write_segment e uid d t) xs m = Inr (Inr (), m')"
  using assms(3)
proof (induction xs arbitrary: m)
  case Nil
  then show ?case by (simp add: cpp_simps)
next
  case (Cons x xs)
  obtain k s where x: "x = (k, s)" by (cases x)
  have acc: "accepts (e_sendto e)" "e_past e \<noteq> []" "BUFSIZ \<le> e_heap_max e" using assms(1) by (simp_all add: env_ok_def)
  let ?d = "take (unat (segLength s)) (drop (unat (bufferOffset s)) d)"
  have s: "unat (bufferOffset s) + unat (segLength s) \<le> length d"
    "unat (primaryMinionIndex s) < length (m_minions (manager m))"
    "unat (backupMinionIndex s) < length (m_minions (manager m))"
    using Cons.prems [of k s] x by auto
  have d: "length ?d = unat (segLength s)" "unat (segLength s) + 33 < BUFSIZ"
    and sl: "slice_of (e_g e) (e_heap_max e) (Some d) s = Inr ?d"
    using s(1) assms(2) acc(3) by (auto intro!: slice_of_ok)
  obtain m' where m': "write_segment e uid d t x m = Inr (Inr (), m')"
    "length (m_minions (manager m')) = length (m_minions (manager m))"
    using submit_write [OF acc(1) _ d acc(2)] s(2,3) by (simp add: x write_segment_def sl cpp_simps cbind_run(1))
  have "\<exists>m''. cforeach (write_segment e uid d t) xs m' = Inr (Inr (), m'')"
    using Cons.prems m'(2) by (intro Cons.IH) auto
  with m'(1) show ?case by (simp add: cbind_run(1))
qed

text \<open>Two segments whose middle mirror is the same minion.\<close>

lemma two_segments_stuck:
  assumes inv: "master_inv m" and env: "env_ok e"
    and idx: "unat (primaryMinionIndex s0) < length (m_minions (manager m))"
      "unat (primaryMinionIndex s1) < length (m_minions (manager m))"
      "unat (backupMinionIndex s0) = unat (primaryMinionIndex s1)"
    and sl: "\<And>s. s \<in> {s0, s1} \<Longrightarrow> unat (bufferOffset s) + unat (segLength s) \<le> length d"
      "length d + 33 < BUFSIZ"
    and run: "cforeach (write_segment e uid d (length (tickets m))) (enumerate 0 (s0 # s1 # rest))
      (opened uid OP_WRITE len (s0 # s1 # rest) m) = Inr (r, m')"
  shows "stuck {} (mm_reactor (manager m)) (length (tickets m)) (\<lambda>c. c = (length (tickets m), 0, BACKUP)) m'"
proof -
  let ?t = "length (tickets m)" and ?o = "opened uid OP_WRITE len (s0 # s1 # rest) m"
  let ?bad = "\<lambda>c. c = (?t, 0 :: nat, BACKUP)"
  let ?x = "\<lambda>s. take (unat (segLength s)) (drop (unat (bufferOffset s)) d)"
  let ?last = "cbind (at_minion (backupMinionIndex s1) (MinionProxy_AddWriteTask (e_sendto e) (e_g e) (e_past e) uid
      (localOffset s1) (segLength s1) (Some (?x s1)) (?t, 1, BACKUP)))
      (\<lambda>_. cforeach (write_segment e uid d ?t) (enumerate 2 rest))"
  have acc: "accepts (e_sendto e)" "e_past e \<noteq> []" "BUFSIZ \<le> e_heap_max e" using env by (simp_all add: env_ok_def)
  have x: "slice_of (e_g e) (e_heap_max e) (Some d) s = Inr (?x s)" "length (?x s) = unat (segLength s)"
    "unat (segLength s) + 33 < BUFSIZ" if "s \<in> {s0, s1}" for s
    using sl(1) [OF that] sl(2) acc(3) by (auto intro!: slice_of_ok)
  note wr0 = submit_write [OF acc(1) _ x(2) [of s0] x(3) [of s0] acc(2)]
    and wr1 = submit_write [OF acc(1) _ x(2) [of s1] x(3) [of s1] acc(2)]
  obtain b0 b1 where "cforeach (write_segment e uid d ?t) (enumerate 0 (s0 # s1 # rest)) ?o =
      ?last (submit (unat (primaryMinionIndex s1)) uid (?t, 1, PRIMARY) b1
        (submit (unat (primaryMinionIndex s1)) uid (?t, 0, BACKUP) b0
          (submit (unat (primaryMinionIndex s0)) uid (?t, 0, PRIMARY) b0 ?o)))"
    using x(1) [of s0] x(1) [of s1] idx wr0 wr1
    by (simp add: cpp_simps cbind_run(1) numeral_2_eq_2 write_segment_def)
  moreover have "stuck {} (mm_reactor (manager m)) ?t ?bad (submit (unat (primaryMinionIndex s1)) uid (?t, 1, PRIMARY) b1
      (submit (unat (primaryMinionIndex s1)) uid (?t, 0, BACKUP) b0
        (submit (unat (primaryMinionIndex s0)) uid (?t, 0, PRIMARY) b0 ?o)))"
    by (rule overwritten_callback [OF inv idx(1,2) refl refl]) simp
  moreover have "keeps (stuck {} (mm_reactor (manager m)) ?t ?bad) ?last"
    unfolding write_segment_def
    by (intro keeps_cbind keeps_stuck_send_write keeps_cforeach)
      (auto simp: in_set_enumerate_eq intro!: keeps_cbind keeps_pure keeps_stuck_send_write)
  ultimately show ?thesis using run by (auto dest: tripleD)
qed

lemma enumerate_elem: "(k, x) \<in> set (enumerate n xs) \<Longrightarrow> x \<in> set xs"
  by (auto simp: enumerate_eq_zip dest: set_zip_rightD)

lemma crossing_write_stuck:
  assumes inv: "master_inv M" and env: "env_ok e"
    and ts: "tasks M = [NBDWriteArgs uid (new_TaskArgs off len (Some d))]"
    and sz: "unat (m_driveSize (manager M)) = length (m_minions (manager M)) * unat (m_MBMinion (manager M))"
    and range: "unat off + unat len \<le> unat (m_driveSize (manager M))"
    and cross: "unat (m_MBMinion (manager M)) < unat off mod unat (m_MBMinion (manager M)) + unat len"
    and d: "length d = unat len" "unat len + 33 < BUFSIZ"
  shows "\<exists>M1. run_task e 0 M = Inr (Inr (), M1) \<and>
    stuck_inv {} (mm_reactor (manager M)) (length (tickets M)) (\<lambda>c. c = (length (tickets M), 0, BACKUP)) M1"
proof -
  let ?c = "m_MBMinion (manager M)" and ?n = "word_of_nat (length (m_minions (manager M))) :: size_t"
  let ?M = "M\<lparr>tasks := []\<rparr>"
  have w: "wired M" and c: "?c \<noteq> 0" and ne: "m_minions (manager M) \<noteq> []" using inv by (simp_all add: master_inv_def)
  note n = minion_count_fits [OF sz c] and v = range_valid [OF range]
  then have n0: "?n \<noteq> 0" using ne by (auto simp flip: unat_eq_0)
  obtain s0 s1 rest where sp: "Split off len ?c ?n = Inr (s0 # s1 # rest)"
    "unat (backupMinionIndex s0) = unat (primaryMinionIndex s1)" "unat (primaryMinionIndex s0) < unat ?n"
    "unat (primaryMinionIndex s1) < unat ?n"
    "\<forall>s \<in> set (s0 # s1 # rest). unat (bufferOffset s) + unat (segLength s) \<le> unat len"
    "\<forall>s \<in> set (s0 # s1 # rest). unat (primaryMinionIndex s) < unat ?n \<and> unat (backupMinionIndex s) < unat ?n"
    using crossing_segments [OF c n0 v(1) cross] range sz n by metis
  have ds: "mm_dispatcher (manager ?M) = [m_newTicketCallback]" using w by (simp add: wired_def)
  have add: "MinionManager_AddWriteTask (e_sendto e) (e_g e) (e_past e) (e_heap_max e) notify_new_ticket uid off len
      (Some d) ?M = cforeach (write_segment e uid d (length (tickets ?M))) (enumerate 0 (s0 # s1 # rest))
        (opened uid OP_WRITE len (s0 # s1 # rest) ?M)"
    using open_ticket_run [OF ds] v(2) sp(1) by (simp add: AddWriteTask_segments cbind_run(1))
  have idx: "unat (bufferOffset s) + unat (segLength s) \<le> length d \<and>
      unat (primaryMinionIndex s) < length (m_minions (manager (opened uid OP_WRITE len (s0 # s1 # rest) ?M))) \<and>
      unat (backupMinionIndex s) < length (m_minions (manager (opened uid OP_WRITE len (s0 # s1 # rest) ?M)))"
    if "(k, s) \<in> set (enumerate 0 (s0 # s1 # rest))" for k s
  proof -
    have "s \<in> set (s0 # s1 # rest)" using enumerate_elem [OF that] .
    with sp(5,6) n(1) d(1) show ?thesis by (auto simp: opened_def)
  qed
  have "length d + 33 < BUFSIZ" using d by simp
  then have "\<exists>M1. cforeach (write_segment e uid d (length (tickets ?M))) (enumerate 0 (s0 # s1 # rest))
      (opened uid OP_WRITE len (s0 # s1 # rest) ?M) = Inr (Inr (), M1)"
    by (rule write_segments_run [OF env]) (rule idx)
  then obtain M1 where M1: "cforeach (write_segment e uid d (length (tickets ?M))) (enumerate 0 (s0 # s1 # rest))
      (opened uid OP_WRITE len (s0 # s1 # rest) ?M) = Inr (Inr (), M1)" by blast
  have "stuck {} (mm_reactor (manager ?M)) (length (tickets ?M)) (\<lambda>c. c = (length (tickets ?M), 0, BACKUP)) M1"
    by (rule two_segments_stuck [OF _ env _ _ sp(2) _ _ M1]) (use inv sp n d in auto)
  with add M1 have "run_task e 0 M = Inr (Inr (), M1)"
    "stuck {} (mm_reactor (manager M)) (length (tickets M)) (\<lambda>c. c = (length (tickets M), 0, BACKUP)) M1"
    using ts w by (simp_all add: run_task_def FW_TPTask_Run_def cpp_simps wired_def Factory_Create_def WriteCommand_Run_def
        new_TaskArgs_def ctry_run)
  with tripleD [OF keeps_run_task _ inv] show ?thesis by (auto simp: stuck_inv_def)
qed

section \<open>Properties\<close>


text \<open>
  A read or write of length zero inside the drive is accepted, but it has no segment, nothing is sent
  for it and its ticket never completes: the NBD client never gets a reply.
\<close>

theorem empty_request_never_completes:
  assumes "master_inv M" and "unat off \<le> unat (m_driveSize (manager M))"
    and "tasks M = [NBDReadArgs uid (new_TaskArgs off 0 b)] \<or> tasks M = [NBDWriteArgs uid (new_TaskArgs off 0 b)]"
  shows "\<exists>M1. handle e (RunTask 0) M = Inr (Inr (), M1) \<and>
    (\<forall>evs r M2. run_events e evs M1 = Inr (r, M2) \<longrightarrow> \<not> t_completed (tickets M2 ! length (tickets M)))"
proof -
  let ?M = "M\<lparr>tasks := []\<rparr>" and ?t = "length (tickets M)"
  have w: "wired M" using assms(1) by (simp add: master_inv_def)
  have r: "unat off + unat (0 :: size_t) \<le> unat (m_driveSize (manager ?M))" using assms(2) by simp
  have ds: "mm_dispatcher (manager ?M) = [m_newTicketCallback]" using w by (simp add: wired_def)
  have sp: "Split off 0 c n = Inr []" for c n by (simp add: Split_def Split_loop.simps [of _ _ 0])
  have op: "open_ticket notify_new_ticket uid opr off 0 ?M = Inr (Inr (?t, []), opened uid opr 0 [] ?M)" for opr
    using open_ticket_run [OF ds, of uid opr off 0] range_valid(2) [OF r] sp by simp
  have rd: "MinionManager_AddReadTask (e_sendto e) (e_g e) notify_new_ticket uid off 0 ?M =
      Inr (Inr (), opened uid OP_READ 0 [] ?M)"
    by (simp add: MinionManager_AddReadTask_def cbind_run(1) op cpp_simps)
  have wr: "MinionManager_AddWriteTask (e_sendto e) (e_g e) (e_past e) (e_heap_max e) notify_new_ticket uid off 0 b ?M =
      Inr (Inr (), opened uid OP_WRITE 0 [] ?M)"
    by (simp add: MinionManager_AddWriteTask_def cbind_run(1) op cpp_simps)
  obtain opr where run: "run_task e 0 M = Inr (Inr (), opened uid opr 0 [] ?M)"
    using assms(3) rd wr w by (auto simp: run_task_def FW_TPTask_Run_def cpp_simps wired_def Factory_Create_def
        ReadCommand_Run_def WriteCommand_Run_def new_TaskArgs_def ctry_run)
  have "no_callback {} (\<lambda>c. fst c = ?t) (opened uid opr 0 [] ?M)"
    unfolding no_callback_def using fresh_ticket [OF assms(1)] by force
  then have "stuck {} (mm_reactor (manager M)) ?t (\<lambda>c. fst c = ?t) (opened uid opr 0 [] ?M)"
    by (simp add: stuck_def nth_append RegisterToResultDispatcher_def new_Ticket_def)
  with tripleD [OF keeps_run_task run assms(1)]
  have "stuck_inv {} (mm_reactor (manager M)) ?t (\<lambda>c. fst c = ?t) (opened uid opr 0 [] ?M)" by (simp add: stuck_inv_def)
  with run_events_stuck [OF _ spares_none] run show ?thesis unfolding handle_def by fastforce
qed


section \<open>Witnesses\<close>

lemma ex_inv: "master_inv (ex_master st)"
  by (rule master_start_inv [of "\<lparr>tcp_in = [Bytes st], tcp_sends = [], tcp_out = []\<rparr>" 8
        "[ex_proxy 5, ex_proxy 6, ex_proxy 7]"])
    (auto simp: master_start_run ex_master_def ex_proxy_def)



text \<open>Witness for the master's invariant: a freshly started master with three minions.\<close>

theorem master_invariant_witness:
  "reachable ex_env (ex_master ex_stream) \<and>
   dom (m_requests (responses (ex_master ex_stream))) = dom (m_responses (nbd_proxy (ex_master ex_stream)))"
proof -
  have "reachable ex_env (ex_master ex_stream)"
    by (rule reachable.start [of "\<lparr>tcp_in = [Bytes ex_stream], tcp_sends = [], tcp_out = []\<rparr>" 8
          "[ex_proxy 5, ex_proxy 6, ex_proxy 7]"])
      (auto simp: master_start_run ex_master_def ex_proxy_def)
  with master_invariant [OF this] show ?thesis by blast
qed

theorem empty_request_never_completes_witness:
  "\<exists>M1. handle ex_env (RunTask 0) ((ex_master [])\<lparr>tasks := [NBDReadArgs (UID 0) (new_TaskArgs 6 0 None)]\<rparr>) =
      Inr (Inr (), M1) \<and> \<not> t_completed (tickets M1 ! 0)"
proof -
  let ?M = "(ex_master [])\<lparr>tasks := [NBDReadArgs (UID 0) (new_TaskArgs 6 0 None)]\<rparr>"
  have "\<exists>M1. handle ex_env (RunTask 0) ?M = Inr (Inr (), M1) \<and>
      (\<forall>evs r M2. run_events ex_env evs M1 = Inr (r, M2) \<longrightarrow> \<not> t_completed (tickets M2 ! length (tickets ?M)))"
    by (rule empty_request_never_completes [where off = 6])
      (simp_all add: ex_inv, simp_all add: ex_master_def started_def)
  then obtain M1 where "handle ex_env (RunTask 0) ?M = Inr (Inr (), M1)"
    "\<And>evs r M2. run_events ex_env evs M1 = Inr (r, M2) \<Longrightarrow> \<not> t_completed (tickets M2 ! length (tickets ?M))" by blast
  moreover have "run_events ex_env [] M1 = Inr (Inr (), M1)" by (simp add: run_events_def cpp_simps)
  ultimately show ?thesis by (fastforce simp: ex_master_def started_def)
qed

end
