(* ===== verification/Bad_Requests.thy ===== *)
theory Bad_Requests
  imports Lost_Requests
begin

text \<open>
  Requests outside the drive (\<open>MinionManager::ValidateRange\<close>): what the check lets through, and what becomes of
  a request it rejects.
\<close>

section \<open>The range check\<close>

lemma first_segment:
  assumes "len \<noteq> 0" "c \<noteq> 0" "n \<noteq> 0"
  obtains s0 rest where "Split off len c n = Inr (s0 # rest)" "primaryMinionIndex s0 = off div c"
    "bufferOffset s0 = 0" "unat (segLength s0) \<le> unat len"
proof -
  have r: "len > 0" using assms(1) by (simp add: word_gt_0)
  have pre: "Split_loop c n r off b acc = Inr ss \<Longrightarrow> \<exists>ss'. ss = acc @ ss'" for r off b acc ss
  proof (induction "unat r" arbitrary: r off b acc ss rule: less_induct)
    case less
    show ?case
    proof (cases "r > 0")
      case True
      with less.prems less.hyps [OF seg_step_progress(2) [OF assms(2) True]] show ?thesis
        unfolding Split_loop_unfold [OF assms(2,3) True] by fastforce
    next
      case False
      with less.prems show ?thesis by (simp add: Split_loop.simps)
    qed
  qed
  obtain ss where ss: "Split off len c n = Inr ss"
    using Split_loop_returns [OF assms(2,3)] unfolding Split_def by blast
  from ss pre obtain rest where "ss = [\<lparr>localOffset = off mod c, segLength = seg_step c len off, bufferOffset = 0,
      primaryMinionIndex = off div c, backupMinionIndex = (off div c + 1) mod n\<rparr>] @ rest"
    unfolding Split_def Split_loop_unfold [OF assms(2,3) r] by fastforce
  moreover have "unat (seg_step c len off) \<le> unat len" by (simp add: seg_step_unat [OF assms(2)])
  ultimately show ?thesis using ss that by simp
qed

section \<open>Properties\<close>

text \<open>
  C21. The range check adds \<open>offset\<close> and \<open>length\<close> in 64 bits.  A request whose end wraps past \<open>2 ^ 64\<close> to a
  small number passes it, although it begins beyond the drive, and its first segment then indexes the
  vector of minions out of range: undefined behaviour, for a read and for a write alike.
\<close>

theorem wrapped_range_indexes_out_of_bounds:
  assumes "master_inv m" and "2 ^ 64 \<le> unat off + unat len" and "off + len \<le> m_driveSize (manager m)"
    and "length (m_minions (manager m)) < 2 ^ 64"
    and "length (m_minions (manager m)) * unat (m_MBMinion (manager m)) \<le> unat off"
    and "unat len \<le> length d" and "unat len \<le> heap_max"
  shows "MinionManager_AddReadTask sendto g notify_new_ticket uid off len m = Inl VectorIndex \<and>
    MinionManager_AddWriteTask sendto g past heap_max notify_new_ticket uid off len (Some d) m = Inl VectorIndex"
proof -
  let ?mm = "manager m" and ?n = "word_of_nat (length (m_minions (manager m))) :: size_t"
  have w: "mm_dispatcher ?mm = [m_newTicketCallback]" and c: "m_MBMinion ?mm \<noteq> 0" and ne: "m_minions ?mm \<noteq> []"
    using assms(1) by (auto simp: master_inv_def wired_def)
  have "unat ?n = length (m_minions ?mm)" using assms(4) by (simp add: unat_of_nat)
  then have n: "?n \<noteq> 0" using ne by (auto simp flip: unat_eq_0)
  have len: "len \<noteq> 0" using assms(2) unat_bound64 [of off] by (auto simp: not_le [symmetric] simp del: unat_bound64)
  obtain s0 rest where sp: "Split off len (m_MBMinion ?mm) ?n = Inr (s0 # rest)"
    "primaryMinionIndex s0 = off div m_MBMinion ?mm" "bufferOffset s0 = 0" "unat (segLength s0) \<le> unat len"
    using first_segment [OF len c n] by blast
  have "0 < unat (m_MBMinion ?mm)" using c by (simp add: unat_gt_0)
  then have "length (m_minions ?mm) \<le> unat off div unat (m_MBMinion ?mm)"
    using assms(5) by (metis div_le_mono nonzero_mult_div_cancel_right less_not_refl2)
  then have idx: "\<not> unat (primaryMinionIndex s0) < length (m_minions ?mm)"
    by (simp add: sp(2) unat_div_distrib)
  have op: "open_ticket notify_new_ticket uid opr off len m =
      Inr (Inr (length (tickets m), s0 # rest), opened uid opr len (s0 # rest) m)" for opr
    using open_ticket_run [OF w, of uid opr off len] assms(3) sp(1) by (simp add: ValidateRange_def not_less)
  have at: "at_minion (primaryMinionIndex s0) oper (opened uid opr len (s0 # rest) m) = Inl VectorIndex"
    for oper :: "(onDone MinionProxy, unit) cpp" and opr
    using idx by (simp add: at_minion_def cpp_simps)
  obtain x where sl: "slice_of g heap_max (Some d) s0 = Inr x"
    using slice_of_ok [of s0 d heap_max g] sp(3,4) assms(6,7) by simp
  have "MinionManager_AddReadTask sendto g notify_new_ticket uid off len m = Inl VectorIndex"
    by (simp add: MinionManager_AddReadTask_def cbind_run(1) op cbind_run(3) at cpp_simps)
  moreover have "MinionManager_AddWriteTask sendto g past heap_max notify_new_ticket uid off len (Some d) m =
      Inl VectorIndex"
    by (simp add: MinionManager_AddWriteTask_def cbind_run(1) op cbind_run(3) at cpp_simps sl)
  ultimately show ?thesis by blast
qed

text \<open>
  A request beyond the drive is rejected and the rejection logged; no ticket is made and nothing is
  sent, but the request stays among those the response manager and the NBD proxy wait for: the client
  gets no error reply.
\<close>

theorem rejected_request_stays_pending:
  assumes "master_inv m" and "unat off + unat len < 2 ^ 64"
    and "unat (m_driveSize (manager m)) < unat off + unat len"
    and "tasks m = [NBDReadArgs uid (new_TaskArgs off len b)]"
  shows "handle e (RunTask 0) m = Inr (Inr (), m\<lparr>tasks := [],
    ms_log := ms_log m @ [(SEV_ERROR, ''ReadCommand: MinionManager: I/O beyond drive size'')]\<rparr>)"
proof -
  let ?m = "m\<lparr>tasks := []\<rparr>"
  have w: "wired m" using assms(1) by (simp add: master_inv_def)
  then have d: "mm_dispatcher (manager ?m) = [m_newTicketCallback]" by (simp add: wired_def)
  have "ValidateRange off len (manager ?m) = Inl (Throw (out_of_range ''MinionManager: I/O beyond drive size''))"
    using assms(2,3) by (simp add: ValidateRange_def word_less_nat_alt unat_add_64)
  then have "MinionManager_AddReadTask (e_sendto e) (e_g e) notify_new_ticket uid off len ?m =
      Inr (Inl (out_of_range ''MinionManager: I/O beyond drive size''), ?m)"
    using open_ticket_run [OF d, of uid OP_READ off len]
    by (simp add: MinionManager_AddReadTask_def cbind_run(2))
  then show ?thesis
    using assms(4) w
    by (simp add: handle_def run_task_def FW_TPTask_Run_def cpp_simps wired_def Factory_Create_def
        ReadCommand_Run_def new_TaskArgs_def ctry_run)
qed

section \<open>Witnesses\<close>

theorem wrapped_range_indexes_out_of_bounds_witness:
  "MinionManager_AddReadTask (\<lambda>_. True) (\<lambda>_. 0) notify_new_ticket (UID 0) (- 2) 4 (ex_master []) = Inl VectorIndex"
  using wrapped_range_indexes_out_of_bounds [OF ex_inv [of "[]"], of "- 2" 4 "[1, 2, 3, 4]" 4 "\<lambda>_. True" "\<lambda>_. 0" "UID 0" "[]"]
  by (simp add: ex_master_def started_def)

theorem rejected_request_stays_pending_witness:
  "handle ex_env (RunTask 0) ((ex_master [])\<lparr>tasks := [NBDReadArgs (UID 0) (new_TaskArgs 20 5 None)]\<rparr>) =
    Inr (Inr (), (ex_master [])\<lparr>tasks := [],
      ms_log := [(SEV_ERROR, ''ReadCommand: MinionManager: I/O beyond drive size'')]\<rparr>)"
proof -
  let ?M = "(ex_master [])\<lparr>tasks := [NBDReadArgs (UID 0) (new_TaskArgs 20 5 None)]\<rparr>"
  have "handle ex_env (RunTask 0) ?M = Inr (Inr (), ?M\<lparr>tasks := [],
      ms_log := ms_log ?M @ [(SEV_ERROR, ''ReadCommand: MinionManager: I/O beyond drive size'')]\<rparr>)"
    by (rule rejected_request_stays_pending [where off = 20 and len = 5 and uid = "UID 0" and b = None])
      (simp_all add: ex_inv, simp_all add: ex_master_def started_def)
  then show ?thesis by (simp add: ex_master_def started_def)
qed

end
