(* ===== verification/Crossing_Reads.thy ===== *)
theory Crossing_Reads
  imports Lost_Requests
begin

text \<open>
  Reads that cross a chunk boundary.  The minion between the two segments is asked twice under the
  identifier of the request, as the backup of the first segment and as the primary of the second, and
  its proxy keeps the second callback only.  The minion's answer to the first question is then taken
  for the data of the second segment.
\<close>

section \<open>Delivery of any datagram\<close>

text \<open>
  Datagram number \<open>n\<close> of those ever sent to minion \<open>i\<close> reaches it, is served, and the answer reaches the
  master.
\<close>

definition exchange_nth :: "env \<Rightarrow> sockaddr \<Rightarrow> nat \<Rightarrow> nat \<Rightarrow> raid \<Rightarrow> raid res" where
  "exchange_nth e maddr i n S =
     (let p = get_minion i (rd_master S); (addr, request) = mp_sent p ! n
      in rbind (minion_serve (e_sendto e) (e_g e) (e_stack e) (e_heap_max e) (maddr, request)
                  (rd_minions S ! i)) (\<lambda>mn.
         handled e (MinionReadable (GetMinionFD p) (Some (addr, snd (last (mn_sent mn)))))
           (S\<lparr>rd_minions := (rd_minions S)[i := mn]\<rparr>)))"

text \<open>An exchange delivers the newest datagram.\<close>

lemma exchange_newest:
  assumes "mp_sent (get_minion i (rd_master S)) \<noteq> []"
  shows "exchange e maddr i S = exchange_nth e maddr i (length (mp_sent (get_minion i (rd_master S))) - 1) S"
  using assms by (simp add: exchange_def exchange_nth_def last_conv_nth)

lemma exchange_nth_run:
  assumes "mp_sent (get_minion i (rd_master S)) ! n = (addr, req)"
    and "minion_serve (e_sendto e) (e_g e) (e_stack e) (e_heap_max e) (maddr, req) (rd_minions S ! i) = Inr mn"
    and "mn_sent mn = xs @ [(maddr, bytes)]"
    and "handle e (MinionReadable (GetMinionFD (get_minion i (rd_master S))) (Some (addr, bytes))) (rd_master S) =
      Inr (Inr (), M')"
  shows "exchange_nth e maddr i n S = Inr \<lparr>rd_master = M', rd_minions = (rd_minions S)[i := mn]\<rparr>"
  using assms by (simp add: exchange_nth_def handled_def)

section \<open>The two segments\<close>

lemma two_segments:
  assumes c: "c \<noteq> 0" and n: "n \<noteq> 0" and nov: "unat off + unat len < 2 ^ 64"
    and cross: "unat c < unat off mod unat c + unat len" "unat off mod unat c + unat len \<le> 2 * unat c"
  obtains s0 s1 where "Split off len c n = Inr [s0, s1]"
    "unat (localOffset s0) = unat off mod unat c" "unat (segLength s0) = unat c - unat off mod unat c"
    "unat (bufferOffset s0) = 0" "unat (primaryMinionIndex s0) = unat off div unat c"
    "unat (backupMinionIndex s0) = (unat off div unat c + 1) mod unat n"
    "unat (localOffset s1) = 0" "unat (segLength s1) = unat off mod unat c + unat len - unat c"
    "unat (bufferOffset s1) = unat c - unat off mod unat c" "unat (primaryMinionIndex s1) = unat off div unat c + 1"
    "unat (backupMinionIndex s1) = (unat off div unat c + 2) mod unat n"
proof -
  obtain ss where ss: "Split off len c n = Inr ss" "segs_chain (unat c) (unat n) (unat off) 0 (unat len) ss"
    using stripe.split_chain [OF c n nov] by blast
  let ?m = "unat off mod unat c"
  let ?l = "unat c - ?m" and ?r = "?m + unat len - unat c"
  have c0: "0 < unat c" using c by (simp add: unat_gt_0)
  then have m: "?m < unat c" by simp
  with cross have l: "?l < unat len" "unat len - ?l = ?r" by linarith+
  then have l1: "min (unat len) ?l = ?l" by simp
  obtain s0 ss1 where s0: "ss = s0 # ss1" using ss(2) l(1) by (cases ss) auto
  have "unat off div unat c * unat c + ?m = unat off" by (rule div_mult_mod_eq)
  moreover have "(unat off div unat c + 1) * unat c = unat off div unat c * unat c + unat c" by simp
  ultimately have o: "unat off + ?l = (unat off div unat c + 1) * unat c" using m by linarith
  then have d: "(unat off + ?l) div unat c = unat off div unat c + 1" "(unat off + ?l) mod unat c = 0"
    using c0 by simp_all
  from ss(2) s0 l l1 have ch: "segs_chain (unat c) (unat n) (unat off + ?l) ?l ?r ss1" by simp
  obtain s1 ss2 where s1: "ss1 = s1 # ss2" using ch l by (cases ss1) auto
  have r: "min ?r (unat c) = ?r" using cross(2) by simp
  with ch s1 d have "\<exists>o' b'. segs_chain (unat c) (unat n) o' b' 0 ss2" by auto
  then have "ss2 = []" by (cases ss2) simp_all
  with s0 s1 have sp: "ss = [s0, s1]" by simp
  from ss(2) s0 l1 have f0: "unat (localOffset s0) = ?m" "unat (segLength s0) = ?l" "unat (bufferOffset s0) = 0"
    "unat (primaryMinionIndex s0) = unat off div unat c"
    "unat (backupMinionIndex s0) = (unat off div unat c + 1) mod unat n" by simp_all
  from ch s1 d r have "unat (localOffset s1) = 0" "unat (segLength s1) = ?r" "unat (bufferOffset s1) = ?l"
    "unat (primaryMinionIndex s1) = unat off div unat c + 1"
    "unat (backupMinionIndex s1) = (unat off div unat c + 1 + 1) mod unat n" by simp_all
  then show ?thesis by (intro that [OF _ f0]) (simp_all add: ss(1) sp)
qed

section \<open>The ticket\<close>

text \<open>The wrong data for the second segment, then the right data for the first.\<close>

lemma crossed_ticket:
  assumes s: "unat (bufferOffset s0) = 0" "unat (bufferOffset s1) = unat (segLength s0)"
      "unat len = unat (segLength s0) + unat (segLength s1)"
    and a: "GetResult a" "GetData a = Some da" "length da = unat (segLength s0)"
    and b: "GetResult b" "GetData b = Some db" "unat (segLength s1) \<le> length db"
  shows "\<exists>T1 T2. OnMirrorResponse g 1 PRIMARY (Some b)
        (RegisterToResultDispatcher m_ticketDoneCallback (new_Ticket u OP_READ len [s0, s1])) = Inr (T1, []) \<and>
    OnMirrorResponse g 0 PRIMARY (Some a) T1 = Inr (T2, [(m_ticketDoneCallback,
       \<lparr>res_uid = u, res_result = True, res_length = len, res_buffer = Some (da @ take (unat (segLength s1)) db)\<rparr>)])"
  using assms by (simp add: ticket_defs new_char_def)

section \<open>The master\<close>

text \<open>The state after the four submissions.\<close>

definition crossed :: "nat \<Rightarrow> nat \<Rightarrow> nat \<Rightarrow> UID \<Rightarrow> size_t \<Rightarrow> StripeSegment \<Rightarrow> StripeSegment
    \<Rightarrow> byte list \<times> log_entry list \<Rightarrow> byte list \<times> log_entry list \<Rightarrow> master \<Rightarrow> master" where
  "crossed A B C u len s0 s1 b0 b1 m =
     submit C u (length (tickets m), 1, BACKUP) b1 (submit B u (length (tickets m), 1, PRIMARY) b1
       (submit B u (length (tickets m), 0, BACKUP) b0 (submit A u (length (tickets m), 0, PRIMARY) b0
         (opened u OP_READ len [s0, s1] m))))"

abbreviation read_bytes :: "UID \<Rightarrow> StripeSegment \<Rightarrow> byte list \<times> log_entry list" where
  "read_bytes u s \<equiv> (wire [] (MessageReadSend (GetID u) (localOffset s) (segLength s)),
     [(SEV_DEBUG, sent_line (MessageReadSend (GetID u) (localOffset s) (segLength s)))])"

lemma crossing_read_run:
  assumes w: "wired m" and acc: "accepts (e_sendto e)" and ts: "tasks m = [NBDReadArgs u (new_TaskArgs off len None)]"
    and sp: "rbind (ValidateRange off len (manager m)) (\<lambda>_. Split off len (m_MBMinion (manager m))
      (word_of_nat (length (m_minions (manager m))))) = Inr [s0, s1]"
    and idx: "unat (primaryMinionIndex s0) = A" "unat (backupMinionIndex s0) = B" "unat (primaryMinionIndex s1) = B"
      "unat (backupMinionIndex s1) = C" "A < length (m_minions (manager m))" "B < length (m_minions (manager m))"
      "C < length (m_minions (manager m))"
  shows "run_task e 0 m = Inr (Inr (), crossed A B C u len s0 s1 (read_bytes u s0) (read_bytes u s1) (m\<lparr>tasks := []\<rparr>))"
proof -
  let ?m = "m\<lparr>tasks := []\<rparr>"
  have d: "mm_dispatcher (manager ?m) = [m_newTicketCallback]" using w by (simp add: wired_def)
  have o: "open_ticket notify_new_ticket u OP_READ off len ?m =
      Inr (Inr (length (tickets m), [s0, s1]), opened u OP_READ len [s0, s1] ?m)"
    using open_ticket_run [OF d] sp by simp
  have "MinionManager_AddReadTask (e_sendto e) (e_g e) notify_new_ticket u off len ?m =
      Inr (Inr (), crossed A B C u len s0 s1 (read_bytes u s0) (read_bytes u s1) ?m)"
    using submit_read [OF acc, of "primaryMinionIndex s0"] submit_read [OF acc, of "backupMinionIndex s0"]
      submit_read [OF acc, of "primaryMinionIndex s1"] submit_read [OF acc, of "backupMinionIndex s1"] idx
    by (simp add: MinionManager_AddReadTask_def cbind_run(1) o crossed_def cpp_simps)
  then show ?thesis
    using ts w by (simp add: run_task_def FW_TPTask_Run_def cpp_simps wired_def Factory_Create_def ReadCommand_Run_def
        new_TaskArgs_def ctry_run)
qed

lemma crossed_fields:
  assumes "A < length (m_minions (manager m))" "B < length (m_minions (manager m))"
    "C < length (m_minions (manager m))" "A \<noteq> B" "A \<noteq> C" "B \<noteq> C" and m': "m' = crossed A B C u len s0 s1 b0 b1 m"
  shows "tickets m' ! length (tickets m) =
      RegisterToResultDispatcher m_ticketDoneCallback (new_Ticket u OP_READ len [s0, s1])"
    "length (tickets m') = Suc (length (tickets m))" "wired m' = wired m" "nbd_proxy m' = nbd_proxy m"
    "m_requests (responses m') = m_requests (responses m)" "mm_reactor (manager m') = mm_reactor (manager m)"
    "length (m_minions (manager m')) = length (m_minions (manager m))"
    "m_map (get_minion A m') u = Some (length (tickets m), 0, PRIMARY)"
    "m_map (get_minion B m') u = Some (length (tickets m), 1, PRIMARY)"
    "mp_sent (get_minion A m') ! length (mp_sent (get_minion A m)) = (m_serveraddr (m_socket (get_minion A m)), fst b0)"
    "mp_sent (get_minion B m') ! length (mp_sent (get_minion B m)) = (m_serveraddr (m_socket (get_minion B m)), fst b0)"
    "GetMinionFD (get_minion j m') = GetMinionFD (get_minion j m)"
  using assms by (simp_all add: crossed_def nth_append GetMinionFD_def)

section \<open>The drive\<close>

text \<open>A read at the front of the client's stream that crosses one chunk boundary.\<close>

definition crossing_on :: "env \<Rightarrow> master \<Rightarrow> byte list \<Rightarrow> nbd_request \<Rightarrow> bool" where
  "crossing_on e M st rq \<longleftrightarrow>
     sizeof_request (e_h e) \<le> length st \<and> rq = request_of (e_h e) (take (sizeof_request (e_h e)) st) \<and>
     rq_magic rq = htonl (NBD_REQUEST_MAGIC (e_h e)) \<and> payload (e_h e) st = Some None \<and>
     unat (ntohl (rq_len rq)) + 33 < BUFSIZ \<and>
     (let c = unat (m_MBMinion (manager M)); off = unat (Ntohll (rq_from rq)); len = unat (ntohl (rq_len rq))
      in off + len \<le> unat (m_driveSize (manager M)) \<and> c < off mod c + len \<and> off mod c + len \<le> 2 * c)"

text \<open>The lengths of the two parts of such a read.\<close>

definition first_part :: "nbd_request \<Rightarrow> raid \<Rightarrow> nat" where
  "first_part rq S = unat (m_MBMinion (manager (rd_master S))) - place_of rq S"

definition second_part :: "nbd_request \<Rightarrow> raid \<Rightarrow> nat" where
  "second_part rq S = unat (ntohl (rq_len rq)) - first_part rq S"

lemma crossing_segs:
  assumes idle: "raid_idle S" and rq: "crossing_on e (rd_master S) st rq"
    and n3: "3 \<le> length (m_minions (manager (rd_master S)))"
  obtains s0 s1 C where
    "rbind (ValidateRange (Ntohll (rq_from rq)) (ucast (ntohl (rq_len rq))) (manager (rd_master S)))
      (\<lambda>_. Split (Ntohll (rq_from rq)) (ucast (ntohl (rq_len rq))) (m_MBMinion (manager (rd_master S)))
        (word_of_nat (length (m_minions (manager (rd_master S)))))) = Inr [s0, s1]"
    "unat (primaryMinionIndex s0) = chunk_of rq S" "unat (backupMinionIndex s0) = chunk_of rq S + 1"
    "unat (primaryMinionIndex s1) = chunk_of rq S + 1" "unat (backupMinionIndex s1) = C"
    "chunk_of rq S + 1 < length (m_minions (manager (rd_master S)))"
    "C < length (m_minions (manager (rd_master S)))" "C \<noteq> chunk_of rq S" "C \<noteq> chunk_of rq S + 1"
    "unat (localOffset s0) = place_of rq S" "unat (segLength s0) = first_part rq S" "unat (bufferOffset s0) = 0"
    "unat (segLength s1) = second_part rq S" "unat (bufferOffset s1) = first_part rq S"
    "unat (ntohl (rq_len rq)) = first_part rq S + second_part rq S"
    "place_of rq S + first_part rq S = unat (m_MBMinion (manager (rd_master S)))"
proof -
  let ?mm = "manager (rd_master S)" and ?off = "Ntohll (rq_from rq)" and ?len = "ucast (ntohl (rq_len rq)) :: size_t"
  let ?c = "m_MBMinion ?mm" and ?n = "word_of_nat (length (m_minions ?mm)) :: size_t"
  from rq have r: "unat ?off + unat ?len \<le> unat (m_driveSize ?mm)" "unat ?c < unat ?off mod unat ?c + unat ?len"
    "unat ?off mod unat ?c + unat ?len \<le> 2 * unat ?c"
    unfolding crossing_on_def Let_def unat_ucast_32_64 by blast+
  from idle have c: "?c \<noteq> 0" and sz: "unat (m_driveSize ?mm) = length (m_minions ?mm) * unat ?c"
    by (simp_all add: raid_idle_def master_idle_def master_inv_def)
  note n = minion_count_fits [OF sz c] and v = range_valid [OF r(1)]
  have n0: "?n \<noteq> 0" using n n3 by (auto simp flip: unat_eq_0)
  have m: "unat ?off mod unat ?c < unat ?c" using c by (simp add: unat_gt_0)
  let ?A = "unat ?off div unat ?c"
  have "(?A + 1) * unat ?c < unat ?off + unat ?len"
    using r(2) div_mult_mod_eq [of "unat ?off" "unat ?c"] by (simp only: add_mult_distrib)
  then have "(?A + 1) * unat ?c < length (m_minions ?mm) * unat ?c" using r(1) sz by linarith
  then have A: "?A + 1 < length (m_minions ?mm)" by (metis mult_less_cancel2)
  then have b0: "(?A + 1) mod length (m_minions ?mm) = ?A + 1" by simp
  let ?C = "(?A + 2) mod length (m_minions ?mm)"
  have C: "?C < length (m_minions ?mm)" using n3 by (intro mod_less_divisor) linarith
  have "?A + 2 < length (m_minions ?mm) \<or> ?A + 2 = length (m_minions ?mm)" using A by linarith
  then have C': "?C \<noteq> ?A" "?C \<noteq> ?A + 1" using n3 by auto
  obtain s0 s1 where "Split ?off ?len ?c ?n = Inr [s0, s1]"
    "unat (localOffset s0) = unat ?off mod unat ?c" "unat (segLength s0) = unat ?c - unat ?off mod unat ?c"
    "unat (bufferOffset s0) = 0" "unat (primaryMinionIndex s0) = ?A" "unat (backupMinionIndex s0) = ?A + 1"
    "unat (segLength s1) = unat ?off mod unat ?c + unat ?len - unat ?c"
    "unat (bufferOffset s1) = unat ?c - unat ?off mod unat ?c" "unat (primaryMinionIndex s1) = ?A + 1"
    "unat (backupMinionIndex s1) = ?C"
    using two_segments [OF c n0 v(1) r(2,3)] unfolding n b0 by metis
  with v(2) A C C' r(2) m show ?thesis
    by (intro that [of s0 s1 ?C])
      (simp_all add: chunk_of_def primary_of_def place_of_def first_part_def second_part_def)
qed

lemma crossing_read_sent:
  assumes S: "raid_idle S" and e: "env_ok e" and rq: "crossing_on e (rd_master S) (nbd_input (rd_master S)) rq"
    and sp: "rbind (ValidateRange (Ntohll (rq_from rq)) (ucast (ntohl (rq_len rq))) (manager (rd_master S)))
      (\<lambda>_. Split (Ntohll (rq_from rq)) (ucast (ntohl (rq_len rq))) (m_MBMinion (manager (rd_master S)))
        (word_of_nat (length (m_minions (manager (rd_master S)))))) = Inr [s0, s1]"
    and idx: "unat (primaryMinionIndex s0) = A" "unat (backupMinionIndex s0) = B" "unat (primaryMinionIndex s1) = B"
      "unat (backupMinionIndex s1) = C" "A < length (m_minions (manager (rd_master S)))"
      "B < length (m_minions (manager (rd_master S)))" "C < length (m_minions (manager (rd_master S)))"
  obtains M1 M1' where "handled e NbdReadable S = Inr (S\<lparr>rd_master := M1\<rparr>)"
    "handled e (RunTask 0) (S\<lparr>rd_master := M1\<rparr>) = Inr (S\<lparr>rd_master := crossed A B C (UID (s_counter (rd_master S)))
      (ucast (ntohl (rq_len rq))) s0 s1 (read_bytes (UID (s_counter (rd_master S))) s0)
      (read_bytes (UID (s_counter (rd_master S))) s1) M1'\<rparr>)"
    "wired M1'" "tickets M1' = tickets (rd_master S)" "manager M1' = manager (rd_master S)"
    "\<forall>j. get_minion j M1' = get_minion j (rd_master S)" "sends_ok (np_socket (nbd_proxy M1'))"
    "m_requests (responses M1') (UID (s_counter (rd_master S))) \<noteq> None"
    "m_responses (nbd_proxy M1') (UID (s_counter (rd_master S))) = Some (reply_to (e_h e) rq)"
    "nbd_output M1' = nbd_output (rd_master S)"
proof -
  let ?M = "rd_master S" and ?u = "UID (s_counter (rd_master S))" and ?rp = "reply_to (e_h e) rq"
  from S have w: "wired ?M" and idle: "master_idle ?M" and ts: "tasks ?M = []"
    by (simp_all add: raid_idle_def master_idle_def master_inv_def)
  from rq have st: "sizeof_request (e_h e) \<le> length (nbd_input ?M)"
    "rq = request_of (e_h e) (take (sizeof_request (e_h e)) (nbd_input ?M))"
    "rq_magic rq = htonl (NBD_REQUEST_MAGIC (e_h e))" "payload (e_h e) (nbd_input ?M) = Some None"
    "unat (ntohl (rq_len rq)) + 33 < BUFSIZ"
    unfolding crossing_on_def by blast+
  have acc: "accepts (e_sendto e)" and hm: "unat (ntohl (rq_len rq)) \<le> e_heap_max e"
    using e st(5) by (simp_all add: env_ok_def)
  obtain evs where r1: "nbd_readable e ?M = Inr (Inr (), (accept_request ?u ?rp
      (with_input evs (?M\<lparr>s_counter := s_counter ?M + 1\<rparr>)))\<lparr>tasks := [task_of rq (s_counter ?M) None]\<rparr>)"
    using nbd_readable_run [OF w refl st(1-4) hm] ts by auto
  let ?M1 = "(accept_request ?u ?rp (with_input evs (?M\<lparr>s_counter := s_counter ?M + 1\<rparr>)))\<lparr>tasks :=
      [task_of rq (s_counter ?M) None]\<rparr>"
  have w1: "wired ?M1" and f: "manager ?M1 = manager ?M" using w by simp_all
  have t1: "tasks ?M1 = [NBDReadArgs ?u (new_TaskArgs (Ntohll (rq_from rq)) (ucast (ntohl (rq_len rq))) None)]"
    by (simp add: task_of_def)
  from crossing_read_run [OF w1 acc t1, unfolded f, OF sp idx]
  have r2: "run_task e 0 ?M1 = Inr (Inr (), crossed A B C ?u (ucast (ntohl (rq_len rq))) s0 s1 (read_bytes ?u s0)
      (read_bytes ?u s1) (?M1\<lparr>tasks := []\<rparr>))" .
  show ?thesis
    by (rule that [of ?M1 "?M1\<lparr>tasks := []\<rparr>"])
      (use r1 r2 w idle in \<open>simp_all add: handled_def handle_def nbd_output_def master_idle_def map_emplace_def\<close>)
qed

text \<open>What the two minions answer to the first question.\<close>

lemma first_question:
  assumes "raid_idle S" and "env_ok e" and i: "i < length (m_minions (manager (rd_master S)))"
    and lo: "unat lo = pl" "unat len = l" "pl + l = unat (m_MBMinion (manager (rd_master S)))" and bl: "unat len + 25 < BUFSIZ"
  shows "\<exists>w. minion_serve (e_sendto e) (e_g e) (e_stack e) (e_heap_max e) (maddr, wire [] (MessageReadSend c lo len))
      (rd_minions S ! i) = Inr w \<and>
    mn_sent w = mn_sent (rd_minions S ! i) @ [(maddr, wire [] (MessageReadReceive c 1 len (Some (take l (drop pl (disk S i))))))]"
  using minion_reads [OF raid_minion(1) [OF assms(1) i] assms(2) _ bl, of lo] raid_minion(2) [OF assms(1) i] lo
  by (auto simp: disk_def)

text \<open>The two answers at the master.\<close>

lemma crossed_answers:
  assumes M: "wired M" "A < length (m_minions (manager M))" "B < length (m_minions (manager M))" "A \<noteq> B"
      "mm_reactor (manager M) (GetMinionFD (get_minion A M), MODE_READ) = Some A"
      "mm_reactor (manager M) (GetMinionFD (get_minion B M), MODE_READ) = Some B"
      "m_map (get_minion A M) u = Some (t, 0, PRIMARY)" "m_map (get_minion B M) u = Some (t, 1, PRIMARY)"
    and T: "t < length (tickets M)"
      "tickets M ! t = RegisterToResultDispatcher m_ticketDoneCallback (new_Ticket u OP_READ len [s0, s1])"
    and owed: "m_requests (responses M) u \<noteq> None" "m_responses (nbd_proxy M) u = Some rp"
      "sends_ok (np_socket (nbd_proxy M))" and hm: "BUFSIZ \<le> e_heap_max e"
    and a: "answer_ok u a" "GetResult a" "GetData a = Some da" "length da = unat (segLength s0)"
    and b: "answer_ok u b" "GetResult b" "GetData b = Some db" "unat (segLength s1) \<le> length db"
    and s: "unat (bufferOffset s0) = 0" "unat (bufferOffset s1) = unat (segLength s0)"
      "unat len = unat (segLength s0) + unat (segLength s1)"
  shows "\<exists>M3 M4. handle e (MinionReadable (GetMinionFD (get_minion B M)) (Some (addr, wire [] b))) M = Inr (Inr (), M3) \<and>
    get_minion A M3 = get_minion A M \<and>
    handle e (MinionReadable (GetMinionFD (get_minion A M)) (Some (addr', wire [] a))) M3 = Inr (Inr (), M4) \<and>
    nbd_output M4 = nbd_output M @ reply_bytes (e_h e) rp @ da @ take (unat (segLength s1)) db"
proof -
  obtain T1 T2 where T1: "OnMirrorResponse (e_g e) 1 PRIMARY (Some b) (tickets M ! t) = Inr (T1, [])"
    and T2: "OnMirrorResponse (e_g e) 0 PRIMARY (Some a) T1 = Inr (T2, [(m_ticketDoneCallback,
      \<lparr>res_uid = u, res_result = True, res_length = len, res_buffer = Some (da @ take (unat (segLength s1)) db)\<rparr>)])"
    using crossed_ticket [OF s a(2-4) b(2-4)] T(2) by metis
  let ?M3 = "erase_at B u (retick B addr t T1 M)"
  have h3: "handle e (MinionReadable (GetMinionFD (get_minion B M)) (Some (addr, wire [] b))) M = Inr (Inr (), ?M3)"
    using answer_quiet [of M B "GetMinionFD (get_minion B M)" b e t 1 PRIMARY T1 addr] M b(1) hm T1
    by (simp add: answer_ok_def)
  have f: "get_minion A ?M3 = get_minion A M" "wired ?M3" "A < length (m_minions (manager ?M3))"
    "mm_reactor (manager ?M3) (GetMinionFD (get_minion A M), MODE_READ) = Some A" "tickets ?M3 ! t = T1"
    "responses ?M3 = responses M" "nbd_proxy ?M3 = nbd_proxy M"
    using M T by simp_all
  have ok: "GetMessageType a \<in> {READ_RECEIVE, WRITE_RECEIVE}" "sendable [] a" "unat (GetSize a) < BUFSIZ"
    "UID (GetUID a) = u" using a(1) by (simp_all add: answer_ok_def)
  have cb: "m_map (get_minion A ?M3) (UID (GetUID a)) = Some (t, 0, PRIMARY)" using f(1) M(7) ok(4) by simp
  let ?r = "\<lparr>res_uid = u, res_result = True, res_length = len, res_buffer = Some (da @ take (unat (segLength s1)) db)\<rparr>"
  have tk: "OnMirrorResponse (e_g e) 0 PRIMARY (Some a) (tickets ?M3 ! t) = Inr (T2, [(m_ticketDoneCallback, ?r)])"
    using T2 f(5) by simp
  have ow: "m_requests (responses ?M3) (res_uid ?r) \<noteq> None" "m_responses (nbd_proxy ?M3) (res_uid ?r) = Some rp"
    "sends_ok (np_socket (nbd_proxy ?M3))" "\<And>x. res_buffer ?r = Some x \<Longrightarrow> unat (res_length ?r) \<le> length x"
    using owed f(6,7) a(4) b(4) s(3) by auto
  obtain s l where h4: "handle e (MinionReadable (GetMinionFD (get_minion A M)) (Some (addr', wire [] a))) ?M3 =
      Inr (Inr (), erase_at A (UID (GetUID a)) (settled (res_uid ?r) s l (retick A addr' t T2 ?M3)))"
    "tcp_out s = tcp_out (np_socket (nbd_proxy ?M3)) @ answer_bytes (e_h e) rp ?r"
    using answer_done [OF f(2-4) ok(1-3) hm cb tk ow] by metis
  with h3 f(1,7) a(4) b(4) s(3) show ?thesis by (auto simp: nbd_output_def answer_bytes_def)
qed

text \<open>The master between the submissions and the answers.\<close>

lemma crossing_started:
  assumes S: "raid_idle S" "env_ok e" "crossing_on e (rd_master S) (nbd_input (rd_master S)) rq"
    "3 \<le> length (m_minions (manager (rd_master S)))" and AB: "A = chunk_of rq S" "B = chunk_of rq S + 1"
    and u: "u = UID (s_counter (rd_master S))"
  obtains M1 M2 s0 s1 where "handled e NbdReadable S = Inr (S\<lparr>rd_master := M1\<rparr>)"
    "handled e (RunTask 0) (S\<lparr>rd_master := M1\<rparr>) = Inr (S\<lparr>rd_master := M2\<rparr>)" "wired M2"
    "A < length (m_minions (manager M2))" "B < length (m_minions (manager M2))" "A \<noteq> B"
    "mm_reactor (manager M2) (GetMinionFD (get_minion A M2), MODE_READ) = Some A"
    "mm_reactor (manager M2) (GetMinionFD (get_minion B M2), MODE_READ) = Some B"
    "m_map (get_minion A M2) u = Some (length (tickets (rd_master S)), 0, PRIMARY)"
    "m_map (get_minion B M2) u = Some (length (tickets (rd_master S)), 1, PRIMARY)"
    "length (tickets (rd_master S)) < length (tickets M2)"
    "tickets M2 ! length (tickets (rd_master S)) = RegisterToResultDispatcher m_ticketDoneCallback
      (new_Ticket u OP_READ (ucast (ntohl (rq_len rq))) [s0, s1])"
    "m_requests (responses M2) u \<noteq> None" "m_responses (nbd_proxy M2) u = Some (reply_to (e_h e) rq)"
    "sends_ok (np_socket (nbd_proxy M2))" "nbd_output M2 = nbd_output (rd_master S)"
    "\<forall>i \<in> {A, B}. i < length (m_minions (manager (rd_master S))) \<and>
      mp_sent (get_minion i M2) ! length (mp_sent (get_minion i (rd_master S))) =
       (m_serveraddr (m_socket (get_minion i (rd_master S))), wire [] (MessageReadSend (s_counter (rd_master S)) (localOffset s0) (segLength s0)))"
    "unat (localOffset s0) = place_of rq S" "unat (segLength s0) = first_part rq S" "unat (bufferOffset s0) = 0"
    "unat (segLength s1) = second_part rq S" "unat (bufferOffset s1) = first_part rq S"
    "unat (ntohl (rq_len rq)) = first_part rq S + second_part rq S"
    "place_of rq S + first_part rq S = unat (m_MBMinion (manager (rd_master S)))"
proof -
  let ?M = "rd_master S" and ?len = "ucast (ntohl (rq_len rq)) :: size_t"
  let ?n = "length (m_minions (manager ?M))"
  obtain s0 s1 C where sp: "rbind (ValidateRange (Ntohll (rq_from rq)) ?len (manager ?M))
      (\<lambda>_. Split (Ntohll (rq_from rq)) ?len (m_MBMinion (manager ?M)) (word_of_nat ?n)) = Inr [s0, s1]"
    and idx: "unat (primaryMinionIndex s0) = A" "unat (backupMinionIndex s0) = B" "unat (primaryMinionIndex s1) = B"
      "unat (backupMinionIndex s1) = C" "A < ?n" "B < ?n" "C < ?n" "A \<noteq> B" "A \<noteq> C" "B \<noteq> C"
    and lo: "unat (localOffset s0) = place_of rq S" "unat (segLength s0) = first_part rq S" "unat (bufferOffset s0) = 0"
    "unat (segLength s1) = second_part rq S" "unat (bufferOffset s1) = first_part rq S"
    "unat (ntohl (rq_len rq)) = first_part rq S + second_part rq S"
    "place_of rq S + first_part rq S = unat (m_MBMinion (manager ?M))"
    using crossing_segs [OF S(1,3,4)] AB by (metis add_lessD1 n_not_Suc_n Suc_eq_plus1)
  obtain M1 M1' where r: "handled e NbdReadable S = Inr (S\<lparr>rd_master := M1\<rparr>)"
    "handled e (RunTask 0) (S\<lparr>rd_master := M1\<rparr>) = Inr (S\<lparr>rd_master := crossed A B C u ?len s0 s1
      (read_bytes u s0) (read_bytes u s1) M1'\<rparr>)"
    and M1': "wired M1'" "tickets M1' = tickets ?M" "manager M1' = manager ?M"
    "\<forall>j. get_minion j M1' = get_minion j ?M" "sends_ok (np_socket (nbd_proxy M1'))"
    "m_requests (responses M1') u \<noteq> None" "m_responses (nbd_proxy M1') u = Some (reply_to (e_h e) rq)"
    "nbd_output M1' = nbd_output ?M"
    unfolding u using crossing_read_sent [OF S(1-3) sp idx(1-7)] .
  note f = crossed_fields [where m = M1', unfolded M1'(2,3), OF idx(5-10) refl]
  show ?thesis
    by (rule that [OF r _ _ _ idx(8) _ _ f(8,9) _ f(1) _ _ _ _ _ lo])
      (use f(2-7,10-12) M1' idx(5,6) S(1) u in
        \<open>simp_all add: raid_idle_def master_idle_def nbd_output_def\<close>)
qed

section \<open>Properties\<close>

text \<open>
  C17. A read that crosses a chunk boundary can succeed with wrong bytes, with every minion working.  When
  the minion between the two segments answers its first question before the primary of the first
  segment answers, its copy of the first segment is taken for the second segment: the client gets a
  success reply whose second part are the bytes from the place of the first part of that minion's file,
  where the bytes from the beginning of that file should be.
\<close>

theorem cross_chunk_read_wrong_bytes:
  assumes "raid_idle S" and "env_ok e" and "crossing_on e (rd_master S) (nbd_input (rd_master S)) rq"
    and "3 \<le> length (m_minions (manager (rd_master S)))" and "second_part rq S \<le> first_part rq S"
    and "A = chunk_of rq S" and "B = chunk_of rq S + 1"
  shows "\<exists>S1 S2 S3 S4. handled e NbdReadable S = Inr S1 \<and> handled e (RunTask 0) S1 = Inr S2 \<and>
    exchange_nth e maddr B (length (mp_sent (get_minion B (rd_master S)))) S2 = Inr S3 \<and>
    exchange_nth e maddr A (length (mp_sent (get_minion A (rd_master S)))) S3 = Inr S4 \<and>
    nbd_output (rd_master S4) = nbd_output (rd_master S) @ reply_bytes (e_h e) (reply_to (e_h e) rq) @
      take (first_part rq S) (drop (place_of rq S) (disk S A)) @
      take (second_part rq S) (drop (place_of rq S) (disk S B))"
proof -
  let ?M = "rd_master S" and ?c = "s_counter (rd_master S)" and ?n = "length (m_minions (manager (rd_master S)))"
  obtain M1 M2 s0 s1 where r: "handled e NbdReadable S = Inr (S\<lparr>rd_master := M1\<rparr>)"
    "handled e (RunTask 0) (S\<lparr>rd_master := M1\<rparr>) = Inr (S\<lparr>rd_master := M2\<rparr>)"
    and M2: "wired M2" "A < length (m_minions (manager M2))" "B < length (m_minions (manager M2))" "A \<noteq> B"
    "mm_reactor (manager M2) (GetMinionFD (get_minion A M2), MODE_READ) = Some A"
    "mm_reactor (manager M2) (GetMinionFD (get_minion B M2), MODE_READ) = Some B"
    "m_map (get_minion A M2) (UID ?c) = Some (length (tickets ?M), 0, PRIMARY)"
    "m_map (get_minion B M2) (UID ?c) = Some (length (tickets ?M), 1, PRIMARY)"
    "length (tickets ?M) < length (tickets M2)" "tickets M2 ! length (tickets ?M) =
      RegisterToResultDispatcher m_ticketDoneCallback (new_Ticket (UID ?c) OP_READ (ucast (ntohl (rq_len rq))) [s0, s1])"
    "m_requests (responses M2) (UID ?c) \<noteq> None" "m_responses (nbd_proxy M2) (UID ?c) = Some (reply_to (e_h e) rq)"
    "sends_ok (np_socket (nbd_proxy M2))" and out: "nbd_output M2 = nbd_output ?M"
    and sent: "\<forall>i \<in> {A, B}. i < ?n \<and> mp_sent (get_minion i M2) ! length (mp_sent (get_minion i ?M)) =
       (m_serveraddr (m_socket (get_minion i ?M)), wire [] (MessageReadSend ?c (localOffset s0) (segLength s0)))"
    and lo: "unat (localOffset s0) = place_of rq S" "unat (segLength s0) = first_part rq S" "unat (bufferOffset s0) = 0"
    "unat (segLength s1) = second_part rq S" "unat (bufferOffset s1) = first_part rq S"
    "unat (ntohl (rq_len rq)) = first_part rq S + second_part rq S"
    "place_of rq S + first_part rq S = unat (m_MBMinion (manager ?M))"
    using crossing_started [OF assms(1-4,6,7) refl] .
  let ?d = "\<lambda>i. take (first_part rq S) (drop (place_of rq S) (disk S i))"
  let ?a = "\<lambda>i. MessageReadReceive ?c 1 (segLength s0) (Some (?d i))"
  let ?addr = "\<lambda>i. m_serveraddr (m_socket (get_minion i ?M))"
  have hm: "BUFSIZ \<le> e_heap_max e" using assms(2) by (simp add: env_ok_def)
  have n: "A < ?n" "B < ?n" using sent by simp_all
  have bl: "unat (segLength s0) + 25 < BUFSIZ"
    using assms(3) lo(2,6) unfolding crossing_on_def by linarith
  have dl: "length (?d i) = unat (segLength s0)" if "i < ?n" for i
    using raid_minion(2) [OF assms(1) that] lo(2,7) by simp
  have ok: "answer_ok (UID ?c) (?a i)" if "i < ?n" for i by (rule answer_ok_read [OF dl [OF that] bl])
  note q = first_question [OF assms(1,2) _ lo(1,2,7) bl, of _ maddr ?c]
  obtain wB wA where w: "minion_serve (e_sendto e) (e_g e) (e_stack e) (e_heap_max e)
        (maddr, wire [] (MessageReadSend ?c (localOffset s0) (segLength s0))) (rd_minions S ! B) = Inr wB"
      "mn_sent wB = mn_sent (rd_minions S ! B) @ [(maddr, wire [] (?a B))]"
      "minion_serve (e_sendto e) (e_g e) (e_stack e) (e_heap_max e)
        (maddr, wire [] (MessageReadSend ?c (localOffset s0) (segLength s0))) (rd_minions S ! A) = Inr wA"
      "mn_sent wA = mn_sent (rd_minions S ! A) @ [(maddr, wire [] (?a A))]"
    using q [OF n(1)] q [OF n(2)] by blast
  have sl: "unat (bufferOffset s1) = unat (segLength s0)"
    "unat (ucast (ntohl (rq_len rq)) :: size_t) = unat (segLength s0) + unat (segLength s1)"
    "unat (segLength s1) \<le> length (?d B)"
    using lo assms(5) dl [OF n(2)] by simp_all
  obtain M3 M4 where h: "handle e (MinionReadable (GetMinionFD (get_minion B M2)) (Some (?addr B, wire [] (?a B)))) M2 =
      Inr (Inr (), M3)" "get_minion A M3 = get_minion A M2"
      "handle e (MinionReadable (GetMinionFD (get_minion A M2)) (Some (?addr A, wire [] (?a A)))) M3 = Inr (Inr (), M4)"
      "nbd_output M4 = nbd_output M2 @ reply_bytes (e_h e) (reply_to (e_h e) rq) @ ?d A @
         take (unat (segLength s1)) (?d B)"
    using crossed_answers [OF M2 hm ok [OF n(1)] _ _ dl [OF n(1)] ok [OF n(2)] _ _ sl(3) lo(3) sl(1,2), of "?addr B" "?addr A"]
    by auto
  let ?S3 = "\<lparr>rd_master = M3, rd_minions = (rd_minions S)[B := wB]\<rparr>"
  have "exchange_nth e maddr B (length (mp_sent (get_minion B ?M))) (S\<lparr>rd_master := M2\<rparr>) = Inr ?S3"
    using exchange_nth_run [of B "S\<lparr>rd_master := M2\<rparr>", OF _ _ w(2)] sent w(1) h(1) by simp
  moreover have "exchange_nth e maddr A (length (mp_sent (get_minion A ?M))) ?S3 =
      Inr \<lparr>rd_master = M4, rd_minions = (rd_minions ?S3)[A := wA]\<rparr>"
    using exchange_nth_run [of A ?S3, OF _ _ w(4)] sent w(3) h(2,3) M2(4) by simp
  ultimately show ?thesis using r h(4) out lo(4) assms(5) by (auto simp: min_absorb1)
qed

section \<open>Witness\<close>

lemma ex_filled_minion:
  obtains mn where "minion_ready mn" "fm_data (mn_file mn) = [1, 2, 3, 4, 5, 6, 7, 8]"
proof -
  obtain m where m: "minion_ready m" "length (fm_data (mn_file m)) = 8" using ex_minion .
  from minion_writes [OF m(1) ex_env_ok, of 0 8 "[1, 2, 3, 4, 5, 6, 7, 8]" "[9]" 0] m(2) that show ?thesis
    by (auto simp: BUFSIZ_def splice_def)
qed

lemma ex_crossing: "crossing_on ex_env (ex_master (ex_request 0 3 6 4)) (ex_request 0 3 6 4) (ex_rq 0 3 6 4)"
proof -
  have e: "e_h ex_env = linux_nbd" "sizeof_request linux_nbd = 28" "NBD_REQUEST_MAGIC linux_nbd = 0x25609513"
    "NBD_CMD_READ linux_nbd = 0" by (simp_all add: ex_env_def linux_nbd_def)
  have l: "length (ex_request 0 3 6 4) = 28" by (simp add: ex_request_def)
  then have t: "request_of linux_nbd (take 28 (ex_request 0 3 6 4)) = ex_rq 0 3 6 4" by (simp add: ex_rq_def)
  have "payload linux_nbd (ex_request 0 3 6 4) = Some None"
    unfolding payload_def Let_def e t ex_rq_fields by simp
  then show ?thesis
    unfolding crossing_on_def e t ex_rq_fields Let_def l
    by (simp add: BUFSIZ_def ex_master_def started_def)
qed

theorem cross_chunk_read_wrong_bytes_witness:
  "\<exists>mn S1 S2 S3 S4. fm_data (mn_file mn) = [1, 2, 3, 4, 5, 6, 7, 8] \<and> raid_idle (ex_raid (ex_request 0 3 6 4) mn) \<and>
    handled ex_env NbdReadable (ex_raid (ex_request 0 3 6 4) mn) = Inr S1 \<and> handled ex_env (RunTask 0) S1 = Inr S2 \<and>
    exchange_nth ex_env [9] 1 0 S2 = Inr S3 \<and> exchange_nth ex_env [9] 0 0 S3 = Inr S4 \<and>
    nbd_output (rd_master S4) = reply_bytes linux_nbd (reply_to linux_nbd (ex_rq 0 3 6 4)) @ [7, 8, 7, 8]"
proof -
  obtain mn where mn: "minion_ready mn" "fm_data (mn_file mn) = [1, 2, 3, 4, 5, 6, 7, 8]" using ex_filled_minion .
  let ?st = "ex_request 0 3 6 4" and ?rq = "ex_rq 0 3 6 4"
  let ?S = "ex_raid ?st mn"
  have i: "raid_idle ?S" using ex_idle mn by simp
  have ne: "?st \<noteq> []" by (simp add: ex_request_def)
  note fields = ex_raid_fields(1) ex_raid_fields(3) [OF ne] ex_raid_fields(2,4)
  have at: "chunk_of ?rq ?S = 0" "place_of ?rq ?S = 6" "first_part ?rq ?S = 2" "second_part ?rq ?S = 2"
    by (simp_all add: chunk_of_def primary_of_def place_of_def first_part_def second_part_def fields ex_rq_fields)
  have d: "disk ?S 0 = [1, 2, 3, 4, 5, 6, 7, 8]" "disk ?S 1 = [1, 2, 3, 4, 5, 6, 7, 8]"
    using mn(2) by (simp_all add: disk_def ex_raid_def)
  have m: "mp_sent (get_minion 0 (ex_master ?st)) = []" "mp_sent (get_minion 1 (ex_master ?st)) = []"
    "3 \<le> length (m_minions (manager (ex_master ?st)))"
    by (simp_all add: get_minion_def ex_master_def started_def ex_proxy_def)
  from cross_chunk_read_wrong_bytes [OF i ex_env_ok, unfolded fields, OF ex_crossing m(3) _ refl refl, of "[9]"]
  obtain S1 S2 S3 S4 where "handled ex_env NbdReadable ?S = Inr S1" "handled ex_env (RunTask 0) S1 = Inr S2"
    "exchange_nth ex_env [9] 1 0 S2 = Inr S3" "exchange_nth ex_env [9] 0 0 S3 = Inr S4"
    "nbd_output (rd_master S4) = reply_bytes linux_nbd (reply_to linux_nbd ?rq) @ [7, 8, 7, 8]"
    unfolding at using m by (auto simp: d d(2) [simplified] ex_h)
  with i mn(2) show ?thesis by blast
qed

end
