(* ===== verification/Duplicate_Answers.thy ===== *)
theory Duplicate_Answers
  imports Lost_Requests
begin

text \<open>
  UDP may deliver a datagram twice.  A proxy that is kept in a larger state handles the second copy of an answer by
  writing a line to the log: the stored callback went with the first copy.
\<close>

section \<open>A proxy in a larger state\<close>

lemma cbind_clift_InrD: "cbind (clift r) k s = Inr (Inr b, s') \<Longrightarrow> \<exists>a. r = Inr a \<and> k a s = Inr (Inr b, s')"
  by (auto simp: cbind_def clift_def split: sum.splits error.splits)

text \<open>
  \<open>get\<close> and \<open>put\<close> find the proxy in the states with \<open>ok\<close>; the callbacks that \<open>call\<close> runs leave it alone.
\<close>

locale proxy_place =
  fixes get :: "'s \<Rightarrow> 'c MinionProxy" and put :: "'c MinionProxy \<Rightarrow> 's \<Rightarrow> 's" and ok :: "'s \<Rightarrow> bool"
    and call :: "'c \<Rightarrow> AMessage \<Rightarrow> ('s, unit) cpp"
  assumes get_put: "ok s \<Longrightarrow> get (put p s) = p"
    and put_put: "ok s \<Longrightarrow> put p (put q s) = put p s"
    and put_get: "ok s \<Longrightarrow> put (get s) s = s"
    and ok_put: "ok s \<Longrightarrow> ok (put p s)"
    and call_elsewhere: "ok s \<Longrightarrow> call c msg s = Inr (r, s') \<Longrightarrow> ok s' \<and> get s' = get s"
begin

definition only_logged :: "'s \<Rightarrow> 's \<Rightarrow> bool" where
  "only_logged s s' \<longleftrightarrow> (\<exists>l. s' = put ((get s)\<lparr>mp_log := l\<rparr>) s)"

lemma log_run: "zoom get put (mp_Log text sev) s = Inr (Inr (), s') \<Longrightarrow> only_logged s s'"
  by (auto simp: mp_Log_def cpp_simps only_logged_def)

lemma log_ends: "\<exists>s'. zoom get put (mp_Log text sev) s = Inr (Inr (), s') \<and> only_logged s s'"
  by (auto simp: mp_Log_def cpp_simps only_logged_def)

lemma receive_run:
  "cbind (zoom get put (MinionProxy_ReceiveFrom (Some (addr, data)))) k s =
     k (take (BUFSIZ - 1) data) (put (retarget addr (get s)) s)"
  by (simp add: cbind_def MinionProxy_ReceiveFrom_def ReceiveFrom_def cpp_simps retarget_def)

text \<open>What a call leaves: the sender is the peer, and the answer's identifier has no callback.\<close>

definition answered :: "sockaddr \<Rightarrow> UID \<Rightarrow> 's \<Rightarrow> bool" where
  "answered addr uid s \<longleftrightarrow> ok s \<and> retarget addr (get s) = get s \<and> m_map (get s) uid = None"

lemma logged_leaves:
  assumes "ok s" and "only_logged (put (retarget addr (get s)) s) s1"
  shows "ok s1 \<and> retarget addr (get s1) = get s1 \<and> m_map (get s1) = m_map (get s)"
  using assms by (auto simp: only_logged_def ok_put get_put retarget_def)

lemma frame_leaves:
  assumes "ok s" and fr: "read_frame stack (take (BUFSIZ - 1) data) = Inr (Frame ty runner)"
    and run: "OnMinionFDWakeUp get put call factory stack heap_max (Some (addr, data)) s = Inr (Inr (), s1)"
  shows "\<exists>cls msg rest. Factory_Create factory ty = Inr cls \<and> FromBuffer heap_max cls runner = Inr (msg, rest) \<and>
    answered addr (UID (GetUID msg)) s1"
proof -
  let ?s = "put (retarget addr (get s)) s"
  have s: "ok ?s" "get ?s = retarget addr (get s)" using assms(1) by (simp_all add: ok_put get_put)
  have "cbind (clift (Factory_Create factory ty)) (\<lambda>cls. cbind (clift (FromBuffer heap_max cls runner)) k) ?s = Inr (Inr (), s1) \<Longrightarrow>
      \<exists>cls msg rest. Factory_Create factory ty = Inr cls \<and> FromBuffer heap_max cls runner = Inr (msg, rest)"
    for k :: "AMessage \<times> byte list \<Rightarrow> ('s, unit) cpp"
    by (auto dest!: cbind_clift_InrD)
  from this [OF run [unfolded OnMinionFDWakeUp_def receive_run fr cbind_steps(4) frame.case]]
  obtain cls msg rest where cls: "Factory_Create factory ty = Inr cls"
    and msg: "FromBuffer heap_max cls runner = Inr (msg, rest)" by blast
  have "answered addr (UID (GetUID msg)) s1"
  proof (cases "m_map (get s) (UID (GetUID msg))")
    case None
    then have "zoom get put (mp_Log ''MinionProxy: unknown UID response'' SEV_WARNING) ?s = Inr (Inr (), s1)"
      using run fr cls msg s(2) by (simp add: OnMinionFDWakeUp_def receive_run cpp_simps retarget_def)
    from logged_leaves [OF assms(1) log_run [OF this]] None show ?thesis by (simp add: answered_def)
  next
    case (Some c)
    obtain s' where c: "call c msg ?s = Inr (Inr (), s')"
      and s1: "s1 = put ((get s')\<lparr>m_map := map_erase (UID (GetUID msg)) (m_map (get s'))\<rparr>) s'"
      using run fr cls msg s(2) Some
      by (auto simp: OnMinionFDWakeUp_def receive_run cpp_simps cbind_eq_Inr retarget_def)
    from call_elsewhere [OF s(1) c] s show ?thesis
      by (simp add: s1 answered_def ok_put get_put retarget_def)
  qed
  with cls msg show ?thesis by blast
qed

lemma wakeup_twice:
  assumes "ok s" and run: "OnMinionFDWakeUp get put call factory stack heap_max recvfrom s = Inr (Inr (), s1)"
  shows "\<exists>s2. OnMinionFDWakeUp get put call factory stack heap_max recvfrom s1 = Inr (Inr (), s2) \<and> only_logged s1 s2"
proof -
  obtain addr data where dg: "recvfrom = Some (addr, data)"
    using run by (cases recvfrom) (auto simp: OnMinionFDWakeUp_def cbind_def MinionProxy_ReceiveFrom_def ReceiveFrom_def cpp_simps)
  obtain fr where fr: "read_frame stack (take (BUFSIZ - 1) data) = Inr fr"
    using run unfolding OnMinionFDWakeUp_def dg receive_run by (blast dest: cbind_clift_InrD)
  have dropped: "\<exists>s2. zoom get put (mp_Log tx sev) (put (retarget addr (get s1)) s1) = Inr (Inr (), s2) \<and> only_logged s1 s2"
    if "zoom get put (mp_Log tx sev) (put (retarget addr (get s)) s) = Inr (Inr (), s1)" for tx sev
    using logged_leaves [OF assms(1) log_run [OF that]] log_ends [of tx sev s1] by (simp add: put_get)
  show ?thesis
  proof (cases fr)
    case (Frame ty runner)
    with frame_leaves [OF assms(1) _ run [unfolded dg]] fr obtain cls msg rest where
      "Factory_Create factory ty = Inr cls" "FromBuffer heap_max cls runner = Inr (msg, rest)"
      "answered addr (UID (GetUID msg)) s1" by blast
    then show ?thesis
      using fr Frame log_ends [of "''MinionProxy: unknown UID response''" SEV_WARNING s1]
      by (simp add: OnMinionFDWakeUp_def dg receive_run cpp_simps answered_def put_get)
  next
    case ShortPacket
    with run dropped fr show ?thesis by (simp add: OnMinionFDWakeUp_def dg receive_run cbind_steps)
  next
    case SizeMismatch
    with run dropped fr show ?thesis by (simp add: OnMinionFDWakeUp_def dg receive_run cbind_steps)
  qed
qed

end

interpretation mp: proxy_place "get_minion i" "put_minion i" "\<lambda>m. i < length (m_minions (manager m))"
  "call_onDone g (notify_done h)" for i g h
proof unfold_locales
  fix s :: master and r s' c msg assume i: "i < length (m_minions (manager s))"
  { fix p q
    show "get_minion i (put_minion i p s) = p" "put_minion i p (put_minion i q s) = put_minion i p s"
      "put_minion i (get_minion i s) s = s" "i < length (m_minions (manager (put_minion i p s)))"
      using i by (simp_all add: get_minion_def put_minion_def) }
  assume "call_onDone g (notify_done h) c msg s = Inr (r, s')"
  from manager_call_onDone [OF this] i
  show "i < length (m_minions (manager s')) \<and> get_minion i s' = get_minion i s" by (simp add: get_minion_def)
qed

text \<open>Handling a datagram leaves the reactor's table and the factory as they are.\<close>

lemma keeps_tables_wakeup:
  "keeps (\<lambda>m. mm_reactor (manager m) = R \<and> mm_factory (manager m) = F)
     (OnMinionFDWakeUp (get_minion i) (put_minion i) (call_onDone g (notify_done h)) factory stack heap_max recvfrom)"
proof -
  have z: "keeps (\<lambda>m. mm_reactor (manager m) = R \<and> mm_factory (manager m) = F) (zoom (get_minion i) (put_minion i) op)"
    for op :: "(onDone MinionProxy, 'x) cpp"
    by (rule keeps_zoom) (simp add: put_minion_def)
  have c: "keeps (\<lambda>m. mm_reactor (manager m) = R \<and> mm_factory (manager m) = F) (call_onDone g (notify_done h) cb msg)" for cb msg
    by (rule tripleI) (simp add: manager_call_onDone)
  show ?thesis
    unfolding OnMinionFDWakeUp_def
    by (auto intro!: keeps_cbind keeps_pure z c split: frame.split prod.split option.split)
qed

section \<open>Properties\<close>

text \<open>
  C19. A datagram that arrives twice does what it does once: after the first copy has been handled, whatever it was, the
  second copy changes nothing but the log of the proxy.  No ticket is touched again, no second reply is sent and no
  callback is called.
\<close>

theorem duplicate_answer_ignored:
  assumes "master_inv M" and "handle e (MinionReadable fd dg) M = Inr (Inr (), M1)"
    and "mm_reactor (manager M) (fd, MODE_READ) = Some i"
  shows "\<exists>l. handle e (MinionReadable fd dg) M1 = Inr (Inr (), put_minion i ((get_minion i M1)\<lparr>mp_log := l\<rparr>) M1)"
proof -
  have i: "i < length (m_minions (manager M))" using assms(1,3) by (simp add: master_inv_def reactor_ok_def)
  let ?wake = "OnMinionFDWakeUp (get_minion i) (put_minion i) (call_onDone (e_g e) (notify_done (e_h e))) (mm_factory (manager M))
    (e_stack e) (e_heap_max e) dg"
  have run: "?wake M = Inr (Inr (), M1)"
    using assms(2,3) by (simp add: handle_def minion_readable_def cpp_simps)
  have "mm_reactor (manager M1) = mm_reactor (manager M)" "mm_factory (manager M1) = mm_factory (manager M)"
    using tripleD [OF keeps_tables_wakeup run] by blast+
  then have "handle e (MinionReadable fd dg) M1 = ?wake M1"
    using assms(3) by (simp add: handle_def minion_readable_def cpp_simps)
  with mp.wakeup_twice [OF i run] show ?thesis by (auto simp: mp.only_logged_def)
qed

section \<open>Witnesses\<close>

text \<open>The answer to a write that the first minion sends twice, nobody waiting for it.\<close>

definition ex_answer :: datagram where
  "ex_answer = ([9], [17, 0, 0, 0, 3, 0, 0, 0, 5, 0, 0, 0, 0, 0, 0, 0, 1])"

lemma ex_reactor: "mm_reactor (manager (ex_master [])) (5, MODE_READ) = Some 0"
  by (simp add: ex_master_def started_def ex_proxy_def GetMinionFD_def)

lemma ex_answer_handled: "\<exists>M1. handle ex_env (MinionReadable 5 (Some ex_answer)) (ex_master []) = Inr (Inr (), M1)"
proof -
  let ?M = "ex_master []"
  have r: "mm_factory (manager ?M) 3 = Some WRITE_RECEIVE" "m_map (get_minion 0 ?M) = Map.empty"
    "0 < length (m_minions (manager ?M))"
    by (simp_all add: ex_master_def started_def ex_proxy_def get_minion_def)
  have f: "read_frame (e_stack ex_env) (take (BUFSIZ - 1) (snd ex_answer)) = Inr (Frame 3 [5, 0, 0, 0, 0, 0, 0, 0, 1])"
    by (simp add: read_frame_def ex_answer_def ex_env_def BUFSIZ_def fetch_u32_def fetch_def)
  have m: "FromBuffer (e_heap_max ex_env) WRITE_RECEIVE [5, 0, 0, 0, 0, 0, 0, 0, 1] = Inr (MessageWriteReceive 5 1, [])"
    by (simp add: get_defs fetch_u64_def fetch_u8_def fetch_def)
  show ?thesis
    using ex_reactor r f m by (simp add: handle_def minion_readable_def cpp_simps OnMinionFDWakeUp_def ex_answer_def
        mp.receive_run Factory_Create_def retarget_def mp_Log_def)
qed

theorem duplicate_answer_ignored_witness:
  "\<exists>M1 l. handle ex_env (MinionReadable 5 (Some ex_answer)) (ex_master []) = Inr (Inr (), M1) \<and>
    handle ex_env (MinionReadable 5 (Some ex_answer)) M1 = Inr (Inr (), put_minion 0 ((get_minion 0 M1)\<lparr>mp_log := l\<rparr>) M1)"
  using ex_answer_handled duplicate_answer_ignored [OF ex_inv _ ex_reactor] by blast

end
