(* ===== verification/Request_Isolation.thy ===== *)
theory Request_Isolation
  imports Duplicate_Answers
begin

text \<open>
  Many requests may be under way at once, with their answers arriving in any order.  They do not disturb each other:
  handling a datagram of a minion touches the ticket, the callbacks and the reply of the one request it answers, and
  nothing of the others.
\<close>

section \<open>What belongs to the other requests\<close>

text \<open>
  \<open>M'\<close> differs from \<open>M\<close> only in what belongs to request \<open>u\<close> (and in logs, peer addresses and the counter), and the client
  is sent something only if a reply to \<open>u\<close> was owed.
\<close>

definition untouched :: "UID \<Rightarrow> master \<Rightarrow> master \<Rightarrow> bool" where
  "untouched u M M' \<longleftrightarrow> tasks M' = tasks M \<and>
     (\<forall>v. v \<noteq> u \<longrightarrow> m_responses (nbd_proxy M') v = m_responses (nbd_proxy M) v \<and>
        m_requests (responses M') v = m_requests (responses M) v \<and>
        m_tickets (responses M') v = m_tickets (responses M) v) \<and>
     length (tickets M') = length (tickets M) \<and>
     (\<forall>t < length (tickets M). t_uid (tickets M' ! t) = t_uid (tickets M ! t) \<and>
        (t_uid (tickets M ! t) \<noteq> u \<longrightarrow> tickets M' ! t = tickets M ! t)) \<and>
     length (m_minions (manager M')) = length (m_minions (manager M)) \<and>
     (\<forall>i < length (m_minions (manager M)). \<forall>v. v \<noteq> u \<longrightarrow> m_map (get_minion i M') v = m_map (get_minion i M) v) \<and>
     (m_responses (nbd_proxy M) u = None \<longrightarrow>
        m_responses (nbd_proxy M') u = None \<and> np_socket (nbd_proxy M') = np_socket (nbd_proxy M))"

lemma untouched_refl [simp]: "untouched u M M"
  by (simp add: untouched_def)

section \<open>The steps\<close>

lemma untouched_Log: "keeps (untouched u M) (Log tx sev)"
  unfolding Log_def by (rule keeps_cmodify) (simp add: untouched_def)

lemma untouched_on_rm:
  "keeps (untouched u M) (on_rm (cmodify (\<lambda>r. r\<lparr>m_tickets := map_erase u (m_tickets r)\<rparr>)))"
  "keeps (untouched u M) (on_rm (cmodify (\<lambda>r. r\<lparr>m_requests := map_erase u (m_requests r)\<rparr>)))"
  by (rule keeps_zoom; simp add: cpp_simps; auto simp: untouched_def)+

text \<open>Operations of a proxy that change no callback but those of \<open>u\<close>.\<close>

lemma untouched_minion:
  assumes "\<And>p r p' v. method p = Inr (r, p') \<Longrightarrow> v \<noteq> u \<Longrightarrow> m_map p' v = m_map p v"
  shows "keeps (untouched u M) (zoom (get_minion i) (put_minion i) method)"
proof (rule keeps_zoom)
  fix m r p assume m: "untouched u M m" and run: "method (get_minion i m) = Inr (r, p)"
  have "m_map (get_minion j (put_minion i p m)) v = m_map (get_minion j m) v"
    if "j < length (m_minions (manager M))" "v \<noteq> u" for j v
    using that m assms [OF run that(2)] by (cases "j = i") (simp_all add: get_minion_def put_minion_def untouched_def)
  with m show "untouched u M (put_minion i p m)" by (simp add: untouched_def)
qed

text \<open>The reply: taken out of the table before anything is sent.\<close>

lemma untouched_OnNBDResponse:
  assumes "res_uid result = u"
  shows "keeps (untouched u M) (OnNBDResponse h result)"
proof (rule tripleI)
  fix m r m' assume m: "untouched u M m" and run: "OnNBDResponse h result m = Inr (r, m')"
  show "untouched u M m'"
  proof (cases "m_responses (nbd_proxy m) u")
    case None
    with run assms have "Log ''NBDProxy: unknown UID response'' SEV_WARNING m = Inr (r, m')"
      by (simp add: OnNBDResponse_def cpp_simps)
    from tripleD [OF untouched_Log this m] show ?thesis .
  next
    case (Some reply)
    let ?P = "untouched u M"
    have owed: "m_responses (nbd_proxy M) u \<noteq> None" using m Some by (auto simp: untouched_def)
    have snd: "keeps ?P (on_nbd (np_Send bs n))" for bs n
    proof (rule keeps_zoom)
      fix m r p assume P: "?P m" and "np_Send bs n (nbd_proxy m) = Inr (r, p)"
      then obtain s where "p = (nbd_proxy m)\<lparr>np_socket := s\<rparr>"
        by (auto simp: np_Send_def zoom_def split: sum.splits prod.splits)
      with P owed show "?P (m\<lparr>nbd_proxy := p\<rparr>)" by (auto simp: untouched_def get_minion_def)
    qed
    have er: "keeps ?P (on_nbd (cmodify (\<lambda>p. p\<lparr>m_responses := map_erase u (m_responses p)\<rparr>)))"
      using owed by (intro keeps_zoom) (auto simp: cpp_simps untouched_def get_minion_def)
    have "keeps ?P (OnNBDResponse h result)"
      unfolding OnNBDResponse_def assms Let_def
      by (auto intro!: keeps_cbind keeps_pure snd er untouched_Log split: option.split bool.split)
    from tripleD [OF this run m] show ?thesis .
  qed
qed

lemma untouched_notify_done:
  assumes "res_uid result = u"
  shows "keeps (untouched u M) (notify_done h cb result)"
  unfolding notify_done_def OnTicketDone_def OnSuccess_def OnFailure_def assms
  by (auto intro!: keeps_cbind keeps_pure untouched_Log untouched_on_rm untouched_OnNBDResponse assms split: option.split)

lemma untouched_call_onDone:
  assumes m: "untouched u M m" and c: "valid_cb (tickets m) u c"
    and run: "call_onDone g (notify_done h) c msg m = Inr (r, m')"
  shows "untouched u M m'"
proof -
  obtain t k role where tk: "c = (t, k, role)" by (cases c)
  show ?thesis
  proof (cases "OnMirrorResponse g k role (Some msg) (tickets m ! t)")
    case (Inl err)
    with run m tk show ?thesis by (cases err) (auto simp: call_onDone_def cpp_simps)
  next
    case (Inr a)
    obtain T out where a: "a = (T, out)" by (cases a)
    let ?m1 = "m\<lparr>tickets := (tickets m)[t := T], s_counter :=
      (if t_completed T \<and> \<not> t_completed (tickets m ! t) then snd (UID_next (s_counter m)) else s_counter m)\<rparr>"
    have t: "t < length (tickets m)" "t_uid (tickets m ! t) = u" using c tk by (simp_all add: valid_cb_def)
    have "t_uid T = t_uid (tickets m ! t)" using OnMirrorResponse_frame [OF Inr [unfolded a]] by simp
    with m t have "untouched u M ?m1" by (auto simp: untouched_def get_minion_def nth_list_update)
    moreover have "keeps (untouched u M) (cforeach (\<lambda>(cb, result). notify_done h cb result) out)"
    proof (rule keeps_cforeach)
      fix x assume "x \<in> set out"
      then have "res_uid (snd x) = u"
        using OnMirrorResponse_notifies [OF Inr [unfolded a]] OnMirrorResponse_completed [of "tickets m ! t"] Inr a t(2)
        by (cases "t_completed (tickets m ! t)") auto
      then show "keeps (untouched u M) ((\<lambda>(cb, result). notify_done h cb result) x)"
        using untouched_notify_done by (cases x) auto
    qed
    moreover have "cforeach (\<lambda>(cb, result). notify_done h cb result) out ?m1 = Inr (r, m')"
      using run Inr a tk by (simp add: call_onDone_def cpp_simps)
    ultimately show ?thesis by (auto dest: tripleD)
  qed
qed

section \<open>A datagram of a minion\<close>

text \<open>The state after the datagram was taken from the socket of minion \<open>i\<close>, and the state afterwards.\<close>

definition received :: "nat \<Rightarrow> master \<Rightarrow> master \<Rightarrow> bool" where
  "received i M m \<longleftrightarrow> (\<forall>u. untouched u M m) \<and> tickets m = tickets M \<and> m_map (get_minion i m) = m_map (get_minion i M)"

definition one_touched :: "master \<Rightarrow> master \<Rightarrow> bool" where
  "one_touched M m \<longleftrightarrow> (\<exists>u. untouched u M m)"

abbreviation at_proxy :: "nat \<Rightarrow> (onDone MinionProxy, 'a) cpp \<Rightarrow> (master, 'a) cpp" where
  "at_proxy i \<equiv> zoom (get_minion i) (put_minion i)"

lemma received_ReceiveFrom:
  assumes i: "i < length (m_minions (manager M))"
  shows "keeps (received i M) (at_proxy i (MinionProxy_ReceiveFrom recvfrom))"
proof (rule keeps_zoom)
  have rcv: "m_map p' = m_map p" if "MinionProxy_ReceiveFrom recvfrom p = Inr (q, p')" for p p' :: "onDone MinionProxy" and q
    using that by (auto simp: MinionProxy_ReceiveFrom_def cbind_eq_Inr cpp_simps clift_def split: sum.splits error.splits)
  fix m r p assume w: "received i M m" and p: "MinionProxy_ReceiveFrom recvfrom (get_minion i m) = Inr (r, p)"
  have "untouched u M (put_minion i p m)" for u
  proof -
    have "keeps (untouched u M) (at_proxy i (MinionProxy_ReceiveFrom recvfrom))"
      by (rule untouched_minion) (simp add: rcv)
    from tripleD [OF this, of m r "put_minion i p m"] w p show ?thesis by (simp add: cpp_simps received_def)
  qed
  moreover have "i < length (m_minions (manager m))" using w i by (auto simp: received_def untouched_def)
  ultimately show "received i M (put_minion i p m)" using w rcv [OF p] by (simp add: received_def)
qed

lemma touched_log: "triple (received i M) (at_proxy i (mp_Log tx sev)) (\<lambda>_. one_touched M)"
proof -
  have "keeps (untouched u M) (at_proxy i (mp_Log tx sev))" for u
    by (rule untouched_minion) (auto simp: mp_Log_def cpp_simps)
  then show ?thesis by (rule triple_weaken) (auto simp: received_def one_touched_def)
qed

text \<open>Running the callback of request \<open>u\<close> and forgetting it.\<close>

lemma touched_answer:
  assumes "master_inv M" and "i < length (m_minions (manager M))" and "m_map (get_minion i M) u = Some c"
  shows "triple (received i M) (cbind (call_onDone g (notify_done h) c msg) (\<lambda>_.
      at_proxy i (cmodify (\<lambda>p. p\<lparr>m_map := map_erase u (m_map p)\<rparr>)))) (\<lambda>_. one_touched M)"
proof (rule triple_cbind [of _ _ "\<lambda>_. untouched u M"])
  have "valid_cb (tickets M) u c"
    using assms unfolding master_inv_def proxies_ok_def get_minion_def by (meson nth_mem)
  then show "triple (received i M) (call_onDone g (notify_done h) c msg) (\<lambda>_. untouched u M)"
    using untouched_call_onDone by (intro tripleI) (metis received_def)
  have "keeps (untouched u M) (at_proxy i (cmodify (\<lambda>p. p\<lparr>m_map := map_erase u (m_map p)\<rparr>)))"
    by (rule untouched_minion) (auto simp: cpp_simps)
  then show "triple (untouched u M) (at_proxy i (cmodify (\<lambda>p. p\<lparr>m_map := map_erase u (m_map p)\<rparr>))) (\<lambda>_. one_touched M)"
    by (rule triple_weaken) (auto simp: one_touched_def)
qed (auto simp: one_touched_def)

lemma triple_cget:
  assumes "\<And>s. P s \<Longrightarrow> f s = a" and "triple P (k a) Q"
  shows "triple P (cbind (cget f) k) Q"
  using assms by (auto simp: triple_def cpp_simps)

lemma touched_wakeup:
  assumes "master_inv M" and "i < length (m_minions (manager M))"
  shows "triple (received i M) (OnMinionFDWakeUp (get_minion i) (put_minion i) (call_onDone g (notify_done h)) factory stack
    heap_max recvfrom) (\<lambda>_. one_touched M)"
proof -
  have found: "triple (received i M) (cbind (cget (\<lambda>s. m_map (get_minion i s) u)) (\<lambda>it. case it of
        None \<Rightarrow> at_proxy i (mp_Log tx sev)
      | Some c \<Rightarrow> cbind (call_onDone g (notify_done h) c msg) (\<lambda>_.
          at_proxy i (cmodify (\<lambda>p. p\<lparr>m_map := map_erase u (m_map p)\<rparr>))))) (\<lambda>_. one_touched M)" for u msg tx sev
    by (rule triple_cget [of _ _ "m_map (get_minion i M) u"])
      (auto simp: received_def [abs_def] split: option.split
        intro!: touched_log [unfolded received_def [abs_def]] touched_answer [OF assms, unfolded received_def [abs_def]])
  have "received i M m \<Longrightarrow> one_touched M m" for m by (auto simp: received_def one_touched_def)
  then show ?thesis
    unfolding OnMinionFDWakeUp_def
    by (intro triple_cbind [OF received_ReceiveFrom [OF assms(2)]])
      (auto intro!: triple_cbind [OF keeps_pure(4)] touched_log found split: frame.split prod.split)
qed

section \<open>Properties\<close>

text \<open>
  C10. Requests under way do not disturb each other: handling a datagram of a minion, whatever it contains and also when
  it throws, leaves the tickets, the callbacks, the waiting replies and the queued tasks of all requests but one as they
  were; and the NBD client is sent nothing unless a reply to that one request was still owed.
\<close>

theorem answers_isolated:
  assumes "master_inv M" and "handle e (MinionReadable fd dg) M = Inr (r, M')"
  shows "\<exists>u. untouched u M M'"
proof (cases "mm_reactor (manager M) (fd, MODE_READ)")
  case None
  with assms(2) have "M' = M" by (simp add: handle_def minion_readable_def cpp_simps)
  then show ?thesis by simp
next
  case (Some i)
  then have "i < length (m_minions (manager M))" using assms(1) by (simp add: master_inv_def reactor_ok_def)
  from tripleD [OF touched_wakeup [OF assms(1) this], of _ _ _ _ _ dg M r M'] assms(2) Some show ?thesis
    by (simp add: handle_def minion_readable_def cpp_simps received_def one_touched_def)
qed

section \<open>Witnesses\<close>

theorem answers_isolated_witness:
  "\<exists>M1 u. handle ex_env (MinionReadable 5 (Some ex_answer)) (ex_master []) = Inr (Inr (), M1) \<and> untouched u (ex_master []) M1"
  using ex_answer_handled answers_isolated [OF ex_inv] by blast

end
