(* ===== verification/Waitable_Queues.thy ===== *)
theory Waitable_Queues
  imports Iot_Prelude "HOL-Library.Multiset"
begin

text \<open>
  \<open>framework/include/waitable_queue.hpp\<close>: the blocking queues of the logger and the thread pool.  The
  operations on the container run under the queue's mutex and are plain functions here; the wait on the
  condition variable is a step relation over the threads that push and pop.
\<close>

section \<open>The containers\<close>

text \<open>\<open>std::queue\<close>: the front is the head of the list.\<close>

definition fifo_push :: "'a \<Rightarrow> 'a list \<Rightarrow> 'a list" where
  "fifo_push v q = q @ [v]"

definition IsEmpty :: "'a list \<Rightarrow> bool" where
  "IsEmpty q \<longleftrightarrow> q = []"

definition fifo_pop :: "'a list \<Rightarrow> 'a \<Rightarrow> 'a list \<Rightarrow> bool" where
  "fifo_pop q x q' \<longleftrightarrow> q = x # q'"

text \<open>
  \<open>std::priority_queue\<close>: \<open>top()\<close> is an element that is not less than any other.  Which one of several
  is up to the library; \<open>k\<close> is its place in the list.
\<close>

definition pq_push :: "'a \<Rightarrow> 'a list \<Rightarrow> 'a list" where
  "pq_push v q = v # q"

definition is_top :: "('a \<Rightarrow> 'a \<Rightarrow> bool) \<Rightarrow> 'a list \<Rightarrow> nat \<Rightarrow> bool" where
  "is_top lt q k \<longleftrightarrow> k < length q \<and> list_all (\<lambda>y. \<not> lt (q ! k) y) q"

definition remove_at :: "nat \<Rightarrow> 'a list \<Rightarrow> 'a list" where
  "remove_at k q = take k q @ drop (Suc k) q"

definition pq_pop :: "('a \<Rightarrow> 'a \<Rightarrow> bool) \<Rightarrow> 'a list \<Rightarrow> 'a \<Rightarrow> 'a list \<Rightarrow> bool" where
  "pq_pop lt q x q' \<longleftrightarrow> (\<exists>k < length q. is_top lt q k \<and> x = q ! k \<and> q' = remove_at k q)"

text \<open>
  \<open>Pop\<close> with a time limit, from the end of \<open>wait_for\<close> on, which gives the value of the predicate: the result, the caller's
  variable and the queue.
\<close>

definition WaitableQueue_Pop_timed :: "'a \<Rightarrow> 'a list \<Rightarrow> bool \<times> 'a \<times> 'a list" where
  "WaitableQueue_Pop_timed out q = (if \<not> IsEmpty q then (True, hd q, tl q) else (False, out, q))"

definition WaitablePQ_Pop_timed :: "nat \<Rightarrow> 'a \<Rightarrow> 'a list \<Rightarrow> bool \<times> 'a \<times> 'a list" where
  "WaitablePQ_Pop_timed tp out q = (if \<not> IsEmpty q then (True, q ! tp, remove_at tp q) else (False, out, q))"

lemma Pop_timed_fifo:
  "WaitableQueue_Pop_timed out q = (b, x, q') \<longleftrightarrow> (if b then fifo_pop q x q' else IsEmpty q \<and> x = out \<and> q' = q)"
  by (cases q) (auto simp: WaitableQueue_Pop_timed_def IsEmpty_def fifo_pop_def)

lemma Pop_timed_pq:
  assumes "IsEmpty q \<or> is_top lt q tp" and "WaitablePQ_Pop_timed tp out q = (b, x, q')"
  shows "if b then pq_pop lt q x q' else IsEmpty q \<and> x = out \<and> q' = q"
  using assms by (auto simp: WaitablePQ_Pop_timed_def IsEmpty_def pq_pop_def is_top_def split: if_splits)

section \<open>Threads on a waitable queue\<close>

text \<open>
  A popping thread is outside \<open>Pop\<close>, about to evaluate the wait's predicate with the mutex held, or
  asleep.  A pushing thread that has released the mutex has its \<open>notify_one\<close> still to do; \<open>notifies\<close> counts
  those.  \<open>pushed\<close> and \<open>taken\<close> record what went in and out.
\<close>

datatype consumer = Outside | Checking | Waiting

record ('a, 'q) waitable =
  wq_queue :: 'q
  consumers :: "consumer list"
  notifies :: nat
  pushed :: "'a list"
  taken :: "'a list"

inductive wait_step :: "('a \<Rightarrow> 'q \<Rightarrow> 'q) \<Rightarrow> ('q \<Rightarrow> 'a \<Rightarrow> 'q \<Rightarrow> bool) \<Rightarrow> ('q \<Rightarrow> bool)
    \<Rightarrow> ('a, 'q) waitable \<Rightarrow> ('a, 'q) waitable \<Rightarrow> bool" for push pop is_empty where
  push: "wait_step push pop is_empty s
    (s\<lparr>wq_queue := push v (wq_queue s), notifies := Suc (notifies s), pushed := pushed s @ [v]\<rparr>)"
| notify: "notifies s = Suc n \<Longrightarrow> i < length (consumers s) \<Longrightarrow> consumers s ! i = Waiting \<Longrightarrow>
    wait_step push pop is_empty s (s\<lparr>notifies := n, consumers := (consumers s)[i := Checking]\<rparr>)"
| notify_nobody: "notifies s = Suc n \<Longrightarrow> Waiting \<notin> set (consumers s) \<Longrightarrow>
    wait_step push pop is_empty s (s\<lparr>notifies := n\<rparr>)"
| enter: "i < length (consumers s) \<Longrightarrow> consumers s ! i = Outside \<Longrightarrow>
    wait_step push pop is_empty s (s\<lparr>consumers := (consumers s)[i := Checking]\<rparr>)"
| take: "i < length (consumers s) \<Longrightarrow> consumers s ! i = Checking \<Longrightarrow> pop (wq_queue s) x q \<Longrightarrow>
    wait_step push pop is_empty s
      (s\<lparr>wq_queue := q, consumers := (consumers s)[i := Outside], taken := taken s @ [x]\<rparr>)"
| sleep: "i < length (consumers s) \<Longrightarrow> consumers s ! i = Checking \<Longrightarrow> is_empty (wq_queue s) \<Longrightarrow>
    wait_step push pop is_empty s (s\<lparr>consumers := (consumers s)[i := Waiting]\<rparr>)"
| wake: "i < length (consumers s) \<Longrightarrow> consumers s ! i = Waiting \<Longrightarrow>
    wait_step push pop is_empty s (s\<lparr>consumers := (consumers s)[i := Checking]\<rparr>)"
| timeout: "i < length (consumers s) \<Longrightarrow> consumers s ! i = Checking \<Longrightarrow> is_empty (wq_queue s) \<Longrightarrow>
    wait_step push pop is_empty s (s\<lparr>consumers := (consumers s)[i := Outside]\<rparr>)"

inductive wait_reach :: "('a \<Rightarrow> 'q \<Rightarrow> 'q) \<Rightarrow> ('q \<Rightarrow> 'a \<Rightarrow> 'q \<Rightarrow> bool) \<Rightarrow> ('q \<Rightarrow> bool) \<Rightarrow> 'q
    \<Rightarrow> ('a, 'q) waitable \<Rightarrow> bool" for push pop is_empty q0 where
  init: "wait_reach push pop is_empty q0
    \<lparr>wq_queue = q0, consumers = replicate n Outside, notifies = 0, pushed = [], taken = []\<rparr>"
| step: "wait_reach push pop is_empty q0 s \<Longrightarrow> wait_step push pop is_empty s s' \<Longrightarrow> wait_reach push pop is_empty q0 s'"

section \<open>The contract of a container\<close>

lemma count_update:
  assumes "i < length xs"
  shows "count_list (xs[i := c]) x + of_bool (xs ! i = x) = count_list xs x + of_bool (c = x)"
  using assms
proof (induction xs arbitrary: i)
  case (Cons y ys)
  then show ?case by (cases i) auto
qed simp

lemma in_set_count: "x \<in> set xs \<longleftrightarrow> 0 < count_list xs x"
  by (simp add: zero_less_iff_neq_zero count_list_0_iff)

locale container =
  fixes elems :: "'q \<Rightarrow> 'a multiset" and push :: "'a \<Rightarrow> 'q \<Rightarrow> 'q"
    and pop :: "'q \<Rightarrow> 'a \<Rightarrow> 'q \<Rightarrow> bool" and is_empty :: "'q \<Rightarrow> bool"
  assumes elems_push: "elems (push v q) = add_mset v (elems q)"
    and elems_pop: "pop q x q' \<Longrightarrow> elems q = add_mset x (elems q')"
    and is_empty_elems: "is_empty q \<longleftrightarrow> elems q = {#}"
    and pop_total: "elems q \<noteq> {#} \<Longrightarrow> \<exists>x q'. pop q x q'"
begin

text \<open>Nothing is lost or made up, and an element that a thread sleeps on has somebody awake for it.\<close>

definition accounted :: "('a, 'q) waitable \<Rightarrow> bool" where
  "accounted s \<longleftrightarrow> mset (pushed s) = mset (taken s) + elems (wq_queue s) \<and>
     (Waiting \<in> set (consumers s) \<longrightarrow>
        size (elems (wq_queue s)) \<le> notifies s + count_list (consumers s) Checking)"

lemma accounted_step:
  assumes "wait_step push pop is_empty s s'" and "accounted s"
  shows "accounted s'"
  using assms
proof cases
  case (push v)
  with assms(2) show ?thesis by (auto simp: accounted_def elems_push)
next
  case (notify n i)
  with count_update [of i "consumers s" Checking Checking] assms(2) nth_mem [of i "consumers s"] show ?thesis
    by (auto simp: accounted_def)
next
  case (take i x q)
  with count_update [of i "consumers s" Outside Checking] count_update [of i "consumers s" Outside Waiting]
    assms(2) elems_pop [of "wq_queue s" x q] show ?thesis
    by (auto simp: accounted_def in_set_count)
next
  case (enter i)
  with count_update [of i "consumers s" Checking Checking] count_update [of i "consumers s" Checking Waiting]
    assms(2) show ?thesis by (auto simp: accounted_def in_set_count)
next
  case (wake i)
  with count_update [of i "consumers s" Checking Checking] assms(2) nth_mem [of i "consumers s"] show ?thesis
    by (auto simp: accounted_def)
qed (use assms(2) in \<open>auto simp: accounted_def is_empty_elems\<close>)

lemma accounted_reach:
  assumes "wait_reach push pop is_empty q0 s" and "elems q0 = {#}"
  shows "accounted s"
  using assms
proof induction
  case (init n)
  then show ?case by (simp add: accounted_def)
qed (auto intro: accounted_step)

lemma no_stranded_waiter:
  assumes "accounted s" and "\<not> is_empty (wq_queue s)" and "Waiting \<in> set (consumers s)"
  shows "0 < notifies s \<or> Checking \<in> set (consumers s)"
proof -
  have "0 < size (elems (wq_queue s))" using assms(2) by (simp add: is_empty_elems nonempty_has_size)
  with assms(1,3) show ?thesis by (auto simp: accounted_def in_set_count)
qed

end

section \<open>The two queues meet the contract\<close>

interpretation fifo: container mset fifo_push fifo_pop IsEmpty
  by unfold_locales (auto simp: fifo_push_def fifo_pop_def IsEmpty_def neq_Nil_conv)

lemma mset_remove_at: "k < length q \<Longrightarrow> mset q = add_mset (q ! k) (mset (remove_at k q))"
  by (metis id_take_nth_drop mset_append mset.simps(2) remove_at_def union_mset_add_mset_right)

text \<open>A relation without cycles has a largest element in every list.\<close>

lemma top_exists:
  assumes "q \<noteq> []" and "irreflp lt" and "transp lt"
  shows "\<exists>k < length q. is_top lt q k"
proof -
  have "\<exists>x \<in> set q. \<forall>y \<in> set q. \<not> lt x y"
    using assms(1)
  proof (induction q rule: list_nonempty_induct)
    case (cons x xs)
    then obtain m where m: "m \<in> set xs" "\<forall>y \<in> set xs. \<not> lt m y" by blast
    show ?case
    proof (cases "lt m x")
      case True
      with m assms(2,3) show ?thesis by (metis set_ConsD list.set_intros(1) irreflpD transpD)
    next
      case False
      with m show ?thesis by (metis set_ConsD list.set_intros(2))
    qed
  qed (use assms(2) in \<open>simp add: irreflpD\<close>)
  then show ?thesis by (auto simp: is_top_def list_all_iff in_set_conv_nth)
qed

lemma pq_container:
  assumes "irreflp lt" and "transp lt"
  shows "container mset pq_push (pq_pop lt) IsEmpty"
proof
  show "\<exists>x q'. pq_pop lt q x q'" if "mset q \<noteq> {#}" for q
    using top_exists [OF _ assms, of q] that by (auto simp: pq_pop_def)
qed (auto simp: pq_push_def pq_pop_def IsEmpty_def mset_remove_at)

section \<open>Properties\<close>

lemma fifo_order:
  assumes "wait_reach fifo_push fifo_pop IsEmpty [] s"
  shows "pushed s = taken s @ wq_queue s"
  using assms
proof induction
  case (step s s')
  from step.hyps(2) step.IH show ?case by cases (auto simp: fifo_push_def fifo_pop_def)
qed simp

text \<open>
  C24. A \<open>WaitableQueue\<close> hands its elements out in the order they were pushed, none lost and none twice; and
  no thread sleeps in \<open>Pop\<close> on a queue that has an element unless a notification is still to come or
  another thread is about to take from it.
\<close>

theorem waitable_queue_delivers:
  assumes "wait_reach fifo_push fifo_pop IsEmpty [] s"
  shows "pushed s = taken s @ wq_queue s \<and>
    (wq_queue s \<noteq> [] \<and> Waiting \<in> set (consumers s) \<longrightarrow> 0 < notifies s \<or> Checking \<in> set (consumers s))"
  using fifo_order [OF assms] fifo.no_stranded_waiter [OF fifo.accounted_reach [OF assms]] by (auto simp: IsEmpty_def)

theorem waitable_queue_delivers_witness:
  "\<exists>s. wait_reach fifo_push fifo_pop IsEmpty [] s \<and> wq_queue s = [5 :: nat] \<and>
    consumers s = [Waiting] \<and> (0 < notifies s \<or> Checking \<in> set (consumers s))"
proof -
  let ?s0 = "\<lparr>wq_queue = [], consumers = replicate 1 Outside, notifies = 0, pushed = [], taken = []\<rparr> ::
    (nat, nat list) waitable"
  let ?R = "wait_reach fifo_push fifo_pop IsEmpty []"
  let ?s3 = "?s0\<lparr>wq_queue := [5], consumers := [Waiting], notifies := 1, pushed := [5]\<rparr>"
  have "?R (?s0\<lparr>consumers := [Checking]\<rparr>)"
    using wait_reach.step [OF wait_reach.init [where n = 1] wait_step.enter [of 0]] by simp
  then have "?R (?s0\<lparr>consumers := [Waiting]\<rparr>)"
    using wait_reach.step [OF _ wait_step.sleep [of 0]] by (fastforce simp: IsEmpty_def)
  then have r: "?R ?s3"
    using wait_reach.step [OF _ wait_step.push [where v = 5]] by (fastforce simp: fifo_push_def)
  from waitable_queue_delivers [OF this] r show ?thesis by (intro exI [of _ ?s3]) simp
qed

end
