(* ===== verification/Thread_Pool.thy ===== *)
theory Thread_Pool
  imports Waitable_Queues
begin

text \<open>
  \<open>framework/src/thread_pool.cpp\<close>: the worker threads, their priority queue and the control calls \<open>AddTask\<close>,
  \<open>Pause\<close>, \<open>Resume\<close>, \<open>SetNumThreads\<close> and the destructor.  The control calls are functions on the pool; the
  threads are a step relation.  One thread at a time makes control calls (the members they use are not
  locked); any thread adds tasks.  Numbers of threads are natural numbers: they never come near \<open>2 ^ 64\<close>.
\<close>

section \<open>Model\<close>

datatype Priority = LOW | MEDIUM | HIGH

datatype InnerPriority = EndPoolRun | ILOW | IMEDIUM | IHIGH | CRITICAL

primrec prio_code :: "InnerPriority \<Rightarrow> nat" where
  "prio_code EndPoolRun = 0"
| "prio_code ILOW = 1"
| "prio_code IMEDIUM = 2"
| "prio_code IHIGH = 3"
| "prio_code CRITICAL = 4"

text \<open>\<open>static_cast<InnerPriority>(pr)\<close>\<close>

primrec to_inner :: "Priority \<Rightarrow> InnerPriority" where
  "to_inner LOW = ILOW"
| "to_inner MEDIUM = IMEDIUM"
| "to_inner HIGH = IHIGH"

text \<open>What a task object does when it runs: the user's function or one of the pool's own.\<close>

datatype 'a ITPTask = UserTask 'a | PauseThreadTask | EndThreadTask

record 'a TPTask =
  tp_task :: "'a ITPTask"
  tp_priority :: InnerPriority
  tp_time :: nat

text \<open>The constructor reads the clock.\<close>

definition new_TPTask :: "'a ITPTask \<Rightarrow> InnerPriority \<Rightarrow> nat \<Rightarrow> 'a TPTask" where
  [simp]: "new_TPTask task pr now = \<lparr>tp_task = task, tp_priority = pr, tp_time = now\<rparr>"

text \<open>\<open>TPTask::operator<\<close>, with the products and sums of \<open>bool\<close> as the source has them.\<close>

definition TPTask_less :: "'a TPTask \<Rightarrow> 'a TPTask \<Rightarrow> bool" where
  "TPTask_less a b \<longleftrightarrow>
     of_bool (tp_time a < tp_time b) * of_bool (tp_priority a = tp_priority b) +
     of_bool (prio_code (tp_priority a) < prio_code (tp_priority b)) \<noteq> (0 :: nat)"

text \<open>
  A worker is about to pop a task, runs a user's task, waits in \<open>PauseThreadTask\<close>, or has left its loop.
\<close>

datatype 'a worker = Popping | Busy 'a | Pausing | Ended

text \<open>
  The keys of \<open>m_threads\<close> are \<open>0\<close> to \<open>m_tid - 1\<close>: a list, \<open>m_tid\<close> its length.  \<open>acquiring\<close> counts the
  acquisitions a \<open>Pause\<close> in progress still waits for, \<open>started_tasks\<close> records the tasks begun.
\<close>

record 'a ThreadPool =
  m_pq :: "'a TPTask list"
  m_deleted_threads :: "nat list"
  m_threads :: "'a worker list"
  m_total_threads :: nat
  m_paused :: bool
  m_pause_sem :: nat
  acquiring :: nat
  started_tasks :: "'a list"

text \<open>The first loop of \<open>AddThreadsToPool\<close>: a slot of an ended thread gets a new one.\<close>

fun reuse_threads :: "nat \<Rightarrow> 'a ThreadPool \<Rightarrow> (nat \<times> 'a ThreadPool) res" where
  "reuse_threads 0 p = Inr (0, p)"
| "reuse_threads (Suc amount) p =
     (case m_deleted_threads p of
        [] \<Rightarrow> Inr (Suc amount, p)
      | curr_idx # ds \<Rightarrow>
          if curr_idx < length (m_threads p)
          then reuse_threads amount
                 (p\<lparr>m_deleted_threads := ds, m_threads := (m_threads p)[curr_idx := Popping]\<rparr>)
          else Inl (Throw (out_of_range ''map::at'')))"

definition AddThreadsToPool :: "nat \<Rightarrow> 'a ThreadPool \<Rightarrow> 'a ThreadPool res" where
  "AddThreadsToPool amount p =
     rbind (reuse_threads amount p) (\<lambda>(amount, p).
     Inr (p\<lparr>m_threads := m_threads p @ replicate amount Popping\<rparr>))"

text \<open>Pushing \<open>amount\<close> copies of a task; \<open>now i\<close> is the clock when the \<open>i\<close>-th one is constructed.\<close>

definition push_copies :: "nat \<Rightarrow> 'a ITPTask \<Rightarrow> InnerPriority \<Rightarrow> (nat \<Rightarrow> nat) \<Rightarrow> 'a ThreadPool \<Rightarrow> 'a ThreadPool" where
  "push_copies amount task pr now p =
     p\<lparr>m_pq := fold pq_push
         (map (\<lambda>i. new_TPTask task pr (now i)) [0..<amount]) (m_pq p)\<rparr>"

definition RemoveThreadsFromPool :: "nat \<Rightarrow> InnerPriority \<Rightarrow> (nat \<Rightarrow> nat) \<Rightarrow> 'a ThreadPool \<Rightarrow> 'a ThreadPool" where
  "RemoveThreadsFromPool amount pr now p = push_copies amount EndThreadTask pr now p"

definition new_ThreadPool :: "nat \<Rightarrow> 'a ThreadPool res" where
  "new_ThreadPool n_threads =
     AddThreadsToPool n_threads \<lparr>m_pq = [], m_deleted_threads = [], m_threads = [],
       m_total_threads = n_threads, m_paused = False, m_pause_sem = 0, acquiring = 0, started_tasks = []\<rparr>"

definition AddTask :: "'a \<Rightarrow> Priority \<Rightarrow> nat \<Rightarrow> 'a ThreadPool \<Rightarrow> 'a ThreadPool" where
  "AddTask a pr now p =
     p\<lparr>m_pq := pq_push (new_TPTask (UserTask a) (to_inner pr) now) (m_pq p)\<rparr>"

text \<open>\<open>Pause\<close> up to its loop of acquisitions; each acquisition is a step of its own below.\<close>

definition Pause :: "(nat \<Rightarrow> nat) \<Rightarrow> 'a ThreadPool \<Rightarrow> 'a ThreadPool" where
  "Pause now p =
     (push_copies (m_total_threads p) PauseThreadTask CRITICAL now (p\<lparr>m_paused := True\<rparr>))
       \<lparr>acquiring := m_total_threads p\<rparr>"

definition Resume :: "'a ThreadPool \<Rightarrow> 'a ThreadPool" where
  "Resume p = p\<lparr>m_paused := False\<rparr>"

definition SetNumThreads :: "nat \<Rightarrow> (nat \<Rightarrow> nat) \<Rightarrow> 'a ThreadPool \<Rightarrow> 'a ThreadPool res" where
  "SetNumThreads n_threads now p =
     rbind (if n_threads > m_total_threads p
            then AddThreadsToPool (n_threads - m_total_threads p) p
            else Inr (RemoveThreadsFromPool (m_total_threads p - n_threads) CRITICAL now p))
       (\<lambda>p. Inr (p\<lparr>m_total_threads := n_threads\<rparr>))"

text \<open>The destructor's body; the members' destructors then join every thread.\<close>

definition ThreadPool_delete :: "(nat \<Rightarrow> nat) \<Rightarrow> 'a ThreadPool \<Rightarrow> 'a ThreadPool" where
  "ThreadPool_delete now p = RemoveThreadsFromPool (m_total_threads p) CRITICAL now p"

text \<open>The part of \<open>ThreadRunTask\<close> after the pop.\<close>

definition run_popped :: "nat \<Rightarrow> 'a ITPTask \<Rightarrow> 'a ThreadPool \<Rightarrow> 'a ThreadPool" where
  "run_popped tid task p =
     (case task of
        UserTask a \<Rightarrow> p\<lparr>m_threads := (m_threads p)[tid := Busy a], started_tasks := started_tasks p @ [a]\<rparr>
      | PauseThreadTask \<Rightarrow> p\<lparr>m_threads := (m_threads p)[tid := Pausing], m_pause_sem := Suc (m_pause_sem p)\<rparr>
      | EndThreadTask \<Rightarrow>
          p\<lparr>m_threads := (m_threads p)[tid := Ended], m_deleted_threads := m_deleted_threads p @ [tid]\<rparr>)"

datatype 'a pool_event =
  Add 'a | PauseCall | ResumeCall | SetNum nat | Acquire | Take nat | Finish nat | Unpause nat

inductive pool_step :: "'a ThreadPool \<Rightarrow> 'a pool_event \<Rightarrow> 'a ThreadPool \<Rightarrow> bool" where
  add: "pool_step p (Add a) (AddTask a pr now p)"
| pause: "acquiring p = 0 \<Longrightarrow> pool_step p PauseCall (Pause nows p)"
| resume: "acquiring p = 0 \<Longrightarrow> pool_step p ResumeCall (Resume p)"
| set_num: "acquiring p = 0 \<Longrightarrow> SetNumThreads n nows p = Inr p' \<Longrightarrow> pool_step p (SetNum n) p'"
| acquire: "acquiring p = Suc n \<Longrightarrow> m_pause_sem p = Suc k \<Longrightarrow>
    pool_step p Acquire (p\<lparr>acquiring := n, m_pause_sem := k\<rparr>)"
| take: "tid < length (m_threads p) \<Longrightarrow> m_threads p ! tid = Popping \<Longrightarrow> pq_pop TPTask_less (m_pq p) task q \<Longrightarrow>
    pool_step p (Take tid) (run_popped tid (tp_task task) (p\<lparr>m_pq := q\<rparr>))"
| finish: "tid < length (m_threads p) \<Longrightarrow> m_threads p ! tid = Busy a \<Longrightarrow>
    pool_step p (Finish tid) (p\<lparr>m_threads := (m_threads p)[tid := Popping]\<rparr>)"
| unpause: "tid < length (m_threads p) \<Longrightarrow> m_threads p ! tid = Pausing \<Longrightarrow> \<not> m_paused p \<Longrightarrow>
    pool_step p (Unpause tid) (p\<lparr>m_threads := (m_threads p)[tid := Popping]\<rparr>)"

inductive_cases pool_stepE: "pool_step p ev p'"

inductive pool_run :: "'a ThreadPool \<Rightarrow> 'a pool_event list \<Rightarrow> 'a ThreadPool \<Rightarrow> bool" where
  nil: "pool_run p [] p"
| cons: "pool_step p ev p1 \<Longrightarrow> pool_run p1 evs p2 \<Longrightarrow> pool_run p (ev # evs) p2"

inductive_cases pool_run_ConsE: "pool_run p (ev # evs) p'"

text \<open>The events that are not calls of the controlling thread.\<close>

primrec uncontrolled :: "'a pool_event \<Rightarrow> bool" where
  "uncontrolled (Add a) = True"
| "uncontrolled PauseCall = False"
| "uncontrolled ResumeCall = False"
| "uncontrolled (SetNum n) = False"
| "uncontrolled Acquire = True"
| "uncontrolled (Take tid) = True"
| "uncontrolled (Finish tid) = True"
| "uncontrolled (Unpause tid) = True"

lemma pool_run_keeps:
  assumes "pool_run p evs p'" and "P p"
    and "\<And>p ev p'. ev \<in> set evs \<Longrightarrow> pool_step p ev p' \<Longrightarrow> P p \<Longrightarrow> P p'"
  shows "P p'"
  using assms by (induction rule: pool_run.induct) auto

section \<open>The order of the queue\<close>

lemma TPTask_less_iff:
  "TPTask_less a b \<longleftrightarrow> prio_code (tp_priority a) < prio_code (tp_priority b) \<or>
     tp_priority a = tp_priority b \<and> tp_time a < tp_time b"
  by (auto simp: TPTask_less_def)

lemma prio_code_inject [simp]: "prio_code a = prio_code b \<longleftrightarrow> a = b"
  by (cases a; cases b) simp_all

lemma TPTask_less_order: "irreflp TPTask_less" "transp TPTask_less"
  by (auto simp: TPTask_less_iff irreflp_def transp_def)

interpretation task_queue: container mset pq_push "pq_pop TPTask_less" IsEmpty
  by (rule pq_container [OF TPTask_less_order])

lemma pq_popD:
  assumes "pq_pop TPTask_less q x q'"
  shows "x \<in> set q" "set q' \<subseteq> set q"
    "\<And>y. y \<in> set q \<Longrightarrow> prio_code (tp_priority y) \<le> prio_code (tp_priority x)"
    "\<And>y. y \<in> set q \<Longrightarrow> tp_priority y = tp_priority x \<Longrightarrow> tp_time y \<le> tp_time x"
  using assms
  by (auto simp: pq_pop_def is_top_def list_all_iff TPTask_less_iff remove_at_def not_less
      dest: in_set_takeD in_set_dropD)

section \<open>Counting threads and tasks\<close>

lemma length_filter_update:
  assumes "i < length xs"
  shows "length (filter P (xs[i := c])) + of_bool (P (xs ! i)) = length (filter P xs) + of_bool (P c)"
  using assms
proof (induction xs arbitrary: i)
  case (Cons y ys)
  then show ?case by (cases i) (auto simp: less_Suc_eq_0_disj)
qed simp

lemma length_filter_pop:
  assumes "pq_pop TPTask_less q x q'"
  shows "length (filter P q) = length (filter P q') + of_bool (P x)"
proof -
  have "mset q = add_mset x (mset q')" using assms by (rule task_queue.elems_pop)
  then have "size (filter_mset P (mset q)) = size (filter_mset P (mset q')) + of_bool (P x)" by simp
  then show ?thesis by (simp flip: mset_filter)
qed

definition live :: "'a ThreadPool \<Rightarrow> nat" where
  "live p = length (filter (\<lambda>w. w \<noteq> Ended) (m_threads p))"

definition pausing :: "'a ThreadPool \<Rightarrow> nat" where
  "pausing p = length (filter (\<lambda>w. w = Pausing) (m_threads p))"

definition tasks_of :: "'a ITPTask \<Rightarrow> 'a ThreadPool \<Rightarrow> nat" where
  "tasks_of task p = length (filter (\<lambda>t. tp_task t = task) (m_pq p))"

abbreviation ends :: "'a ThreadPool \<Rightarrow> nat" where "ends \<equiv> tasks_of EndThreadTask"
abbreviation pauses :: "'a ThreadPool \<Rightarrow> nat" where "pauses \<equiv> tasks_of PauseThreadTask"

lemma fold_pq_push: "fold pq_push xs q = rev xs @ q"
  by (induction xs arbitrary: q) (simp_all add: pq_push_def)

lemma push_copies_fields [simp]:
  "m_threads (push_copies n task pr now p) = m_threads p"
  "m_deleted_threads (push_copies n task pr now p) = m_deleted_threads p"
  "m_total_threads (push_copies n task pr now p) = m_total_threads p"
  "m_paused (push_copies n task pr now p) = m_paused p" "m_pause_sem (push_copies n task pr now p) = m_pause_sem p"
  "acquiring (push_copies n task pr now p) = acquiring p"
  "started_tasks (push_copies n task pr now p) = started_tasks p"
  "tasks_of task' (push_copies n task pr now p) = (if task' = task then n else 0) + tasks_of task' p"
  "set (m_pq (push_copies n task pr now p)) =
     (\<lambda>i. \<lparr>tp_task = task, tp_priority = pr, tp_time = now i\<rparr>) ` {0..<n} \<union> set (m_pq p)"
  by (simp_all add: push_copies_def fold_pq_push tasks_of_def filter_map comp_def)

lemma counts_other [simp]:
  "live (p\<lparr>m_total_threads := n\<rparr>) = live p" "live (p\<lparr>m_paused := b\<rparr>) = live p" "live (p\<lparr>m_pq := q\<rparr>) = live p"
  "live (p\<lparr>acquiring := n\<rparr>) = live p" "live (p\<lparr>m_pause_sem := n\<rparr>) = live p"
  "pausing (p\<lparr>m_total_threads := n\<rparr>) = pausing p" "pausing (p\<lparr>m_paused := b\<rparr>) = pausing p"
  "pausing (p\<lparr>acquiring := n\<rparr>) = pausing p" "pausing (p\<lparr>m_pause_sem := n\<rparr>) = pausing p"
  "tasks_of x (p\<lparr>m_total_threads := n\<rparr>) = tasks_of x p" "tasks_of x (p\<lparr>m_paused := b\<rparr>) = tasks_of x p"
  "tasks_of x (p\<lparr>acquiring := n\<rparr>) = tasks_of x p" "tasks_of x (p\<lparr>m_pause_sem := n\<rparr>) = tasks_of x p"
  "tasks_of x (p\<lparr>m_threads := ths\<rparr>) = tasks_of x p"
  "live (push_copies n task pr now p) = live p" "pausing (push_copies n task pr now p) = pausing p"
  by (simp_all add: live_def pausing_def tasks_of_def)

text \<open>Each worker that has not ended is wanted or has an end task waiting for somebody.\<close>

definition pool_inv :: "'a ThreadPool \<Rightarrow> bool" where
  "pool_inv p \<longleftrightarrow> live p = m_total_threads p + ends p \<and>
     distinct (m_deleted_threads p) \<and>
     (\<forall>tid \<in> set (m_deleted_threads p). tid < length (m_threads p) \<and> m_threads p ! tid = Ended) \<and>
     (\<forall>t \<in> set (m_pq p). tp_priority t = CRITICAL \<longleftrightarrow> (\<forall>a. tp_task t \<noteq> UserTask a))"

section \<open>Every step keeps the count\<close>

lemma reuse_threads_inv:
  assumes "distinct (m_deleted_threads p)"
    and "\<forall>tid \<in> set (m_deleted_threads p). tid < length (m_threads p) \<and> m_threads p ! tid = Ended"
  shows "\<exists>r ds ths. reuse_threads n p = Inr (r, p\<lparr>m_deleted_threads := ds, m_threads := ths\<rparr>) \<and>
    length (filter (\<lambda>w. w \<noteq> Ended) ths) + r = live p + n \<and> distinct ds \<and> length ths = length (m_threads p) \<and>
    (\<forall>tid \<in> set ds. tid < length ths \<and> ths ! tid = Ended)"
  using assms
proof (induction n p rule: reuse_threads.induct)
  case (1 p)
  then show ?case
    by (intro exI [of _ 0] exI [of _ "m_deleted_threads p"] exI [of _ "m_threads p"]) (simp add: live_def)
next
  case (2 amount p)
  show ?case
  proof (cases "m_deleted_threads p")
    case Nil
    then show ?thesis
      by (intro exI [of _ "Suc amount"] exI [of _ "[]"] exI [of _ "m_threads p"]) (simp add: live_def)
  next
    case (Cons tid ds)
    let ?p = "p\<lparr>m_deleted_threads := ds, m_threads := (m_threads p)[tid := Popping]\<rparr>"
    have tid: "tid < length (m_threads p)" "m_threads p ! tid = Ended" "tid \<notin> set ds"
      using "2.prems" Cons by auto
    have "live ?p = live p + 1"
      using length_filter_update [OF tid(1), of "\<lambda>w. w \<noteq> Ended" Popping] tid(2) by (simp add: live_def)
    moreover have "distinct (m_deleted_threads ?p)"
      "\<forall>t \<in> set (m_deleted_threads ?p). t < length (m_threads ?p) \<and> m_threads ?p ! t = Ended"
      using "2.prems" Cons tid(3) by (auto simp: nth_list_update)
    ultimately show ?thesis using "2.IH" [OF Cons tid(1)] Cons tid(1) by simp
  qed
qed

lemma AddThreads_inv:
  assumes "distinct (m_deleted_threads p)"
    and "\<forall>tid \<in> set (m_deleted_threads p). tid < length (m_threads p) \<and> m_threads p ! tid = Ended"
  shows "\<exists>ds ths. AddThreadsToPool n p = Inr (p\<lparr>m_deleted_threads := ds, m_threads := ths\<rparr>) \<and>
    length (filter (\<lambda>w. w \<noteq> Ended) ths) = live p + n \<and> distinct ds \<and>
    (\<forall>tid \<in> set ds. tid < length ths \<and> ths ! tid = Ended)"
proof -
  obtain r ds ths where "reuse_threads n p = Inr (r, p\<lparr>m_deleted_threads := ds, m_threads := ths\<rparr>)"
    "length (filter (\<lambda>w. w \<noteq> Ended) ths) + r = live p + n" "distinct ds"
    "\<forall>tid \<in> set ds. tid < length ths \<and> ths ! tid = Ended"
    using reuse_threads_inv [OF assms] by blast
  then show ?thesis
    by (intro exI [of _ ds] exI [of _ "ths @ replicate r Popping"])
      (auto simp: AddThreadsToPool_def nth_append)
qed

lemma new_pool_inv: "\<exists>p. new_ThreadPool n = Inr p \<and> pool_inv p \<and> live p = n"
  using AddThreads_inv [of "\<lparr>m_pq = [], m_deleted_threads = [], m_threads = [], m_total_threads = n,
      m_paused = False, m_pause_sem = 0, acquiring = 0, started_tasks = []\<rparr>" n]
  by (auto simp: new_ThreadPool_def pool_inv_def live_def tasks_of_def)

lemma SetNum_inv:
  assumes "pool_inv p"
  shows "\<exists>p'. SetNumThreads n now p = Inr p' \<and> pool_inv p' \<and> m_total_threads p' = n"
proof (cases "n > m_total_threads p")
  case True
  from AddThreads_inv [of p "n - m_total_threads p"] assms obtain ds ths where
    "AddThreadsToPool (n - m_total_threads p) p = Inr (p\<lparr>m_deleted_threads := ds, m_threads := ths\<rparr>)"
    "length (filter (\<lambda>w. w \<noteq> Ended) ths) = live p + (n - m_total_threads p)" "distinct ds"
    "\<forall>tid \<in> set ds. tid < length ths \<and> ths ! tid = Ended"
    unfolding pool_inv_def by blast
  with True assms show ?thesis
    by (simp add: SetNumThreads_def pool_inv_def live_def tasks_of_def)
next
  case False
  with assms show ?thesis
    by (auto simp: SetNumThreads_def RemoveThreadsFromPool_def pool_inv_def)
qed

text \<open>What a worker's steps do to the counts.\<close>

lemma take_counts:
  assumes "tid < length (m_threads p)" "m_threads p ! tid = Popping" "pq_pop TPTask_less (m_pq p) task q"
  defines "p' \<equiv> run_popped tid (tp_task task) (p\<lparr>m_pq := q\<rparr>)"
  shows "live p' + of_bool (tp_task task = EndThreadTask) = live p"
    "pausing p' = pausing p + of_bool (tp_task task = PauseThreadTask)"
    "tasks_of x p' + of_bool (tp_task task = x) = tasks_of x p"
    "m_total_threads p' = m_total_threads p" "m_paused p' = m_paused p" "acquiring p' = acquiring p"
    "m_pause_sem p' = m_pause_sem p + of_bool (tp_task task = PauseThreadTask)"
    "length (m_threads p') = length (m_threads p)" "m_pq p' = q"
proof -
  have e: "length (filter (\<lambda>w. w \<noteq> Ended) ((m_threads p)[tid := c])) + of_bool (c = Ended) = live p"
    "length (filter (\<lambda>w. w = Pausing) ((m_threads p)[tid := c])) = pausing p + of_bool (c = Pausing)" for c
    using length_filter_update [OF assms(1), of "\<lambda>w. w \<noteq> Ended" c] assms(2)
      length_filter_update [OF assms(1), of "\<lambda>w. w = Pausing" c] by (auto simp: live_def pausing_def)
  show "live p' + of_bool (tp_task task = EndThreadTask) = live p"
    "pausing p' = pausing p + of_bool (tp_task task = PauseThreadTask)"
    using e(1) [of "Busy _"] e(1) [of Pausing] e(1) [of Ended] e(2) [of "Busy _"] e(2) [of Pausing] e(2) [of Ended]
    by (auto simp: p'_def run_popped_def live_def pausing_def split: ITPTask.split)
  show "tasks_of x p' + of_bool (tp_task task = x) = tasks_of x p"
    using length_filter_pop [OF assms(3), of "\<lambda>t. tp_task t = x"]
    by (auto simp: p'_def run_popped_def tasks_of_def split: ITPTask.split)
qed (simp_all add: p'_def run_popped_def split: ITPTask.split)

lemma wake_counts:
  assumes "tid < length (m_threads p)" "m_threads p ! tid \<noteq> Ended"
  defines "p' \<equiv> p\<lparr>m_threads := (m_threads p)[tid := Popping]\<rparr>"
  shows "live p' = live p" "pausing p' + of_bool (m_threads p ! tid = Pausing) = pausing p"
    "tasks_of x p' = tasks_of x p"
  using assms(2) length_filter_update [OF assms(1), of "\<lambda>w. w \<noteq> Ended" Popping]
    length_filter_update [OF assms(1), of "\<lambda>w. w = Pausing" Popping]
  by (simp_all add: p'_def live_def pausing_def tasks_of_def)

lemma AddTask_counts [simp]:
  "live (AddTask a pr now p) = live p" "pausing (AddTask a pr now p) = pausing p"
  "ends (AddTask a pr now p) = ends p" "pauses (AddTask a pr now p) = pauses p"
  "m_threads (AddTask a pr now p) = m_threads p" "m_total_threads (AddTask a pr now p) = m_total_threads p"
  "m_paused (AddTask a pr now p) = m_paused p" "m_pause_sem (AddTask a pr now p) = m_pause_sem p"
  "acquiring (AddTask a pr now p) = acquiring p" "started_tasks (AddTask a pr now p) = started_tasks p"
  "m_deleted_threads (AddTask a pr now p) = m_deleted_threads p"
  by (simp_all add: AddTask_def live_def pausing_def tasks_of_def pq_push_def)

lemma pool_inv_AddTask: "pool_inv p \<Longrightarrow> pool_inv (AddTask a pr now p)"
  unfolding pool_inv_def by (cases pr) (auto simp: AddTask_def live_def tasks_of_def pq_push_def)

lemma pool_inv_take:
  assumes "pool_inv p" "tid < length (m_threads p)" "m_threads p ! tid = Popping"
    "pq_pop TPTask_less (m_pq p) task q"
  shows "pool_inv (run_popped tid (tp_task task) (p\<lparr>m_pq := q\<rparr>))"
proof -
  let ?p = "run_popped tid (tp_task task) (p\<lparr>m_pq := q\<rparr>)"
  note c = take_counts [OF assms(2-4)]
  have "live ?p = m_total_threads ?p + ends ?p"
    using c(1) c(3) [of EndThreadTask] c(4) assms(1) by (simp add: pool_inv_def)
  moreover have "tid \<notin> set (m_deleted_threads p)" using assms(1,3) by (auto simp: pool_inv_def)
  ultimately show ?thesis
    using assms(1,2) pq_popD(2) [OF assms(4)] unfolding pool_inv_def c(9)
    by (auto simp: run_popped_def nth_list_update split: ITPTask.split)
qed

lemma pool_inv_wake:
  assumes "pool_inv p" "tid < length (m_threads p)" "m_threads p ! tid \<noteq> Ended"
  shows "pool_inv (p\<lparr>m_threads := (m_threads p)[tid := Popping]\<rparr>)"
  using assms wake_counts [OF assms(2,3)] unfolding pool_inv_def
  by (auto simp: nth_list_update)

lemma pool_inv_frame:
  assumes "pool_inv p" "m_threads p' = m_threads p" "m_deleted_threads p' = m_deleted_threads p"
    "m_total_threads p' = m_total_threads p" "m_pq p' = m_pq p"
  shows "pool_inv p'"
  using assms by (simp add: pool_inv_def live_def tasks_of_def)

lemma pool_inv_Pause: "pool_inv p \<Longrightarrow> pool_inv (Pause now p)"
proof -
  assume inv: "pool_inv p"
  let ?q = "push_copies (m_total_threads p) PauseThreadTask CRITICAL now (p\<lparr>m_paused := True\<rparr>)"
  have "pool_inv ?q" using inv by (auto simp: pool_inv_def)
  then show ?thesis unfolding Pause_def by (rule pool_inv_frame) simp_all
qed

lemma pool_inv_step: "pool_step p ev p' \<Longrightarrow> pool_inv p \<Longrightarrow> pool_inv p'"
proof (induction rule: pool_step.induct)
  case (set_num p n nows p')
  then show ?case using SetNum_inv [OF set_num.prems, of n nows] by simp
next
  case (resume p)
  then show ?case by (auto simp: Resume_def intro: pool_inv_frame)
next
  case (acquire p n k)
  then show ?case by (auto intro: pool_inv_frame)
qed (simp_all add: pool_inv_AddTask pool_inv_Pause pool_inv_take pool_inv_wake)

lemma pool_run_inv: "pool_run p evs p' \<Longrightarrow> pool_inv p \<Longrightarrow> pool_inv p'"
  by (induction rule: pool_run.induct) (auto intro: pool_inv_step)

section \<open>Pausing\<close>

text \<open>While a \<open>Pause\<close> that found no old pause runs, every pause task has one worker to stop.\<close>

definition pause_inv :: "'a ThreadPool \<Rightarrow> bool" where
  "pause_inv p \<longleftrightarrow> pool_inv p \<and> m_paused p \<and> pausing p + pauses p = m_total_threads p \<and>
     pauses p + m_pause_sem p = acquiring p \<and> ends p = 0"

lemma pause_inv_step:
  assumes "pool_step p ev p'" "uncontrolled ev" "pause_inv p"
  shows "pause_inv p'"
proof -
  have inv: "pool_inv p'" using assms(1,3) pool_inv_step by (auto simp: pause_inv_def)
  from assms(1) show ?thesis
  proof cases
    case (take tid task q)
    note c = take_counts [OF take(3-5)]
    show ?thesis
      using c(2,4-7) c(3) [of EndThreadTask] c(3) [of PauseThreadTask] assms(3) inv
      unfolding pause_inv_def take(2) by (cases "tp_task task") simp_all
  next
    case (finish tid a)
    with wake_counts [of tid p] assms(3) inv show ?thesis by (auto simp: pause_inv_def)
  qed (use assms(2,3) inv in \<open>auto simp: pause_inv_def\<close>)
qed

lemma pause_inv_start:
  assumes "pool_inv p" "pausing p = 0" "pauses p = 0" "m_pause_sem p = 0" "ends p = 0"
  shows "pause_inv (Pause now p)"
  using assms pool_inv_Pause [OF assms(1)] by (simp add: pause_inv_def) (simp add: Pause_def)

lemma all_paused:
  assumes "live p = pausing p"
  shows "\<forall>w \<in> set (m_threads p). w = Pausing \<or> w = Ended"
proof -
  have "length (filter (\<lambda>w. w \<noteq> Ended) ths) = length (filter (\<lambda>w. w = Pausing) ths) \<Longrightarrow>
      \<forall>w \<in> set ths. w = Pausing \<or> w = Ended" for ths :: "'a worker list"
  proof (induction ths)
    case (Cons w ths)
    have "length (filter (\<lambda>w. w = Pausing) ths) \<le> length (filter (\<lambda>w. w \<noteq> Ended) ths)"
      by (induction ths) auto
    with Cons show ?case by (auto split: if_splits)
  qed simp
  with assms show ?thesis unfolding live_def pausing_def by blast
qed

text \<open>The state in which a second \<open>Pause\<close> waits for workers that sleep in the first one.\<close>

definition hung :: "nat \<Rightarrow> 'a ThreadPool \<Rightarrow> bool" where
  "hung n p \<longleftrightarrow> m_paused p \<and> m_pause_sem p = 0 \<and> acquiring p = n \<and>
     (\<forall>w \<in> set (m_threads p). w = Pausing \<or> w = Ended)"

lemma hung_step:
  assumes "pool_step p ev p'" "hung n p" "0 < n"
  shows "hung n p' \<and> started_tasks p' = started_tasks p"
proof -
  have "m_threads p ! tid = Pausing \<or> m_threads p ! tid = Ended" if "tid < length (m_threads p)" for tid
    using assms(2) that nth_mem unfolding hung_def by blast
  with assms show ?thesis by cases (fastforce simp: hung_def)+
qed

section \<open>The destructor\<close>

definition ending :: "'a ThreadPool \<Rightarrow> bool" where
  "ending p \<longleftrightarrow> live p = ends p \<and>
     (\<forall>t \<in> set (m_pq p). tp_priority t = CRITICAL \<longleftrightarrow> (\<forall>a. tp_task t \<noteq> UserTask a))"

text \<open>A worker that pops while end tasks wait takes a task of the pool, never one of the user's.\<close>

lemma ending_pop:
  assumes "ending p" "0 < live p" "pq_pop TPTask_less (m_pq p) task q"
  shows "tp_task task \<noteq> UserTask a"
proof -
  have "filter (\<lambda>t. tp_task t = EndThreadTask) (m_pq p) \<noteq> []"
    using assms(1,2) by (auto simp: ending_def tasks_of_def)
  then obtain t where t: "t \<in> set (m_pq p)" "tp_task t = EndThreadTask" by (auto simp: filter_empty_conv)
  then have "prio_code (tp_priority task) \<ge> 4"
    using assms(1) pq_popD(3) [OF assms(3) t(1)] by (auto simp: ending_def)
  then have "tp_priority task = CRITICAL" by (cases "tp_priority task") simp_all
  then show ?thesis using assms(1) pq_popD(1) [OF assms(3)] by (auto simp: ending_def)
qed

lemma live_pos: "tid < length (m_threads p) \<Longrightarrow> m_threads p ! tid \<noteq> Ended \<Longrightarrow> 0 < live p"
  unfolding live_def by (metis (mono_tags, lifting) filter_empty_conv length_greater_0_conv nth_mem)

lemma ending_step:
  assumes "pool_step p ev p'" "uncontrolled ev" "ending p"
  shows "ending p' \<and> started_tasks p' = started_tasks p"
  using assms(1)
proof cases
  case (take tid task q)
  have l: "0 < live p" using live_pos [OF take(3)] take(4) by simp
  note c = take_counts [OF take(3-5)] and u = ending_pop [OF assms(3) l take(5)]
  have "live p' = ends p'"
    using c(1) c(3) [of EndThreadTask] assms(3) by (simp add: take(2) ending_def)
  then show ?thesis
    using assms(3) u pq_popD(2) [OF take(5)] unfolding ending_def take(2) c(9)
    by (auto simp: run_popped_def split: ITPTask.split)
next
  case (finish tid a)
  with wake_counts [of tid p] assms(3) show ?thesis by (auto simp: ending_def)
next
  case (unpause tid)
  with wake_counts [of tid p] assms(3) show ?thesis by (auto simp: ending_def)
next
  case (add a pr now)
  with assms(3) show ?thesis by (cases pr) (auto simp: ending_def, auto simp: AddTask_def pq_push_def)
qed (use assms(2,3) in \<open>auto simp: ending_def\<close>)

lemma ending_start: "pool_inv p \<Longrightarrow> ending (ThreadPool_delete now p)"
  by (auto simp: pool_inv_def ending_def ThreadPool_delete_def RemoveThreadsFromPool_def)

text \<open>How many steps the workers still have: a busy one finishes and ends, a popping one ends.\<close>

primrec weight :: "'a worker \<Rightarrow> nat" where
  "weight Popping = 1"
| "weight (Busy a) = 2"
| "weight Pausing = 0"
| "weight Ended = 0"

definition work :: "'a ThreadPool \<Rightarrow> nat" where
  "work p = sum_list (map weight (m_threads p))"

lemma sum_list_weight_update:
  "i < length xs \<Longrightarrow> sum_list (map weight (xs[i := c])) + weight (xs ! i) = sum_list (map weight xs) + weight c"
proof (induction xs arbitrary: i)
  case (Cons y ys)
  then show ?case by (cases i) (auto simp: less_Suc_eq_0_disj)
qed simp

definition unpaused :: "'a ThreadPool \<Rightarrow> bool" where
  "unpaused p \<longleftrightarrow> pausing p = 0 \<and> pauses p = 0 \<and> acquiring p = 0"

lemma pausing_0: "pausing p = 0 \<Longrightarrow> tid < length (m_threads p) \<Longrightarrow> m_threads p ! tid \<noteq> Pausing"
  by (auto simp: pausing_def filter_empty_conv)

lemma ending_work:
  assumes "pool_step p ev p'" "uncontrolled ev" "ending p" "unpaused p"
  shows "unpaused p' \<and> work p' + of_bool (\<forall>a. ev \<noteq> Add a) \<le> work p"
  using assms(1)
proof cases
  case (take tid task q)
  have "0 < live p" using live_pos [OF take(3)] take(4) by simp
  note u = ending_pop [OF assms(3) this take(5)] and c = take_counts [OF take(3-5)]
  have "tp_task task \<noteq> PauseThreadTask"
    using c(3) [of PauseThreadTask] assms(4) by (auto simp: unpaused_def)
  with u have e: "tp_task task = EndThreadTask" by (cases "tp_task task") auto
  have "work p' + 1 \<le> work p"
    using sum_list_weight_update [OF take(3), of Ended] take(2,4) e by (simp add: work_def run_popped_def)
  moreover have "unpaused p'" using c(2,6) c(3) [of PauseThreadTask] assms(4) e by (simp add: unpaused_def take(2))
  ultimately show ?thesis by simp
next
  case (finish tid a)
  with sum_list_weight_update [of tid "m_threads p" Popping] wake_counts [of tid p] assms(4) show ?thesis
    by (auto simp: work_def unpaused_def)
next
  case (unpause tid)
  with pausing_0 [of p tid] assms(4) show ?thesis by (simp add: unpaused_def)
next
  case (add a pr now)
  with assms(4) show ?thesis by (simp add: work_def unpaused_def)
qed (use assms(2,4) in \<open>auto simp: unpaused_def\<close>)

lemma ending_progress:
  assumes "ending p" "unpaused p" "0 < live p"
  shows "\<exists>ev p'. uncontrolled ev \<and> (\<forall>a. ev \<noteq> Add a) \<and> pool_step p ev p'"
proof -
  have "filter (\<lambda>w. w \<noteq> Ended) (m_threads p) \<noteq> []" using assms(3) by (simp add: live_def)
  then obtain tid where tid: "tid < length (m_threads p)" "m_threads p ! tid \<noteq> Ended"
    by (auto simp: filter_empty_conv in_set_conv_nth)
  show ?thesis
  proof (cases "m_threads p ! tid")
    case Popping
    have "mset (m_pq p) \<noteq> {#}" using assms(1,3) by (auto simp: ending_def tasks_of_def)
    then obtain task q where "pq_pop TPTask_less (m_pq p) task q" using task_queue.pop_total by blast
    from pool_step.take [OF tid(1) Popping this] show ?thesis
      by (intro exI [of _ "Take tid"]) auto
  next
    case (Busy a)
    from pool_step.finish [OF tid(1) this] show ?thesis
      by (intro exI [of _ "Finish tid"]) auto
  next
    case Pausing
    with assms(2) pausing_0 [OF _ tid(1)] show ?thesis by (simp add: unpaused_def)
  qed (use tid in simp)
qed

lemma ending_run:
  assumes "pool_run p evs p'" "\<forall>ev \<in> set evs. uncontrolled ev" "ending p" "unpaused p"
  shows "ending p' \<and> unpaused p' \<and> started_tasks p' = started_tasks p \<and>
    work p' + length (filter (\<lambda>ev. \<forall>a. ev \<noteq> Add a) evs) \<le> work p"
  using assms
proof (induction rule: pool_run.induct)
  case (cons p ev p1 evs p2)
  from cons.prems have u: "uncontrolled ev" by simp
  note a = ending_step [OF cons.hyps(1) u cons.prems(2)] and b = ending_work [OF cons.hyps(1) u cons.prems(2,3)]
  with cons.IH cons.prems show ?case by (auto split: if_splits)
qed simp

section \<open>Properties\<close>

text \<open>
  The task a worker starts has the highest priority in the queue and, among those of its priority, is
  the newest one: equal priorities run last in, first out.  \<open>operator<\<close> is a strict weak order, as the
  priority queue needs it.
\<close>

theorem pool_starts_newest_of_highest:
  assumes "pool_step p (Take tid) p'" and "started_tasks p' = started_tasks p @ [a]"
  shows "irreflp (TPTask_less :: 'a TPTask \<Rightarrow> 'a TPTask \<Rightarrow> bool) \<and> transp (TPTask_less :: 'a TPTask \<Rightarrow> 'a TPTask \<Rightarrow> bool) \<and>
    (\<exists>task \<in> set (m_pq (p :: 'a ThreadPool)). tp_task task = UserTask a \<and> (\<forall>t \<in> set (m_pq p).
       prio_code (tp_priority t) \<le> prio_code (tp_priority task) \<and>
       (tp_priority t = tp_priority task \<longrightarrow> tp_time t \<le> tp_time task)))"
proof -
  from assms(1) obtain task q where t: "pq_pop TPTask_less (m_pq p) task q"
    "p' = run_popped tid (tp_task task) (p\<lparr>m_pq := q\<rparr>)" by (auto elim: pool_stepE)
  have "tp_task task = UserTask a"
    using assms(2) by (auto simp: t(2) run_popped_def split: ITPTask.splits)
  with pq_popD [OF t(1)] TPTask_less_order show ?thesis by blast
qed

text \<open>
  C25. Whatever the control calls and the threads do, the number of threads that have not ended is the number
  asked for plus the number of end tasks that still wait, and changing the number never fails: the slots
  it reuses exist and belong to ended threads.
\<close>

theorem pool_thread_count:
  assumes "new_ThreadPool n = Inr p0" and "pool_run p0 evs p"
  shows "live p = m_total_threads p + ends p \<and> (\<exists>p'. SetNumThreads k now p = Inr p' \<and>
    live p' = k + ends p' \<and> m_total_threads p' = k)"
proof -
  have "pool_inv p0" using assms(1) new_pool_inv [of n] by (metis sum.inject(2))
  from pool_run_inv [OF assms(2) this] have inv: "pool_inv p" .
  with SetNum_inv [OF inv, of k now] show ?thesis by (auto simp: pool_inv_def)
qed


text \<open>
  \<open>Resume\<close> followed by \<open>Pause\<close> can hang for ever: when the workers have not yet been scheduled after the
  \<open>Resume\<close>, they find \<open>m_paused\<close> set again and sleep on, so nobody takes the new pause tasks and the
  second \<open>Pause\<close> never gets an acquisition, whatever the threads do and whatever tasks are added.
\<close>

theorem pause_after_resume_hangs:
  assumes "acquiring p = 0" and "m_pause_sem p = 0" and "0 < m_total_threads p"
    and "\<forall>w \<in> set (m_threads p). w = Pausing \<or> w = Ended"
  shows "\<exists>p2. pool_run p [ResumeCall, PauseCall] p2 \<and>
    (\<forall>evs p3. pool_run p2 evs p3 \<longrightarrow> acquiring p3 = m_total_threads p \<and> started_tasks p3 = started_tasks p)"
proof -
  let ?p2 = "Pause (\<lambda>_. 0) (Resume p)"
  have "pool_run p [ResumeCall, PauseCall] ?p2"
    using assms(1) by (auto intro!: pool_run.intros pool_step.intros simp: Resume_def)
  moreover have h: "hung (m_total_threads p) ?p2 \<and> started_tasks ?p2 = started_tasks p"
    using assms(2,4) by (simp add: hung_def Pause_def Resume_def)
  have "hung (m_total_threads p) p3 \<and> started_tasks p3 = started_tasks p" if "pool_run ?p2 evs p3" for evs p3
    by (rule pool_run_keeps [where P = "\<lambda>q. hung (m_total_threads p) q \<and> started_tasks q = started_tasks p", OF that h])
      (use hung_step [OF _ _ assms(3)] in auto)
  ultimately show ?thesis unfolding hung_def by blast
qed


section \<open>Witnesses\<close>

text \<open>A pool of two workers with tasks of equal and of different priority.\<close>

definition ex_pool :: "nat ThreadPool" where
  "ex_pool = \<lparr>m_pq = [\<lparr>tp_task = UserTask 7, tp_priority = ILOW, tp_time = 5\<rparr>,
       \<lparr>tp_task = UserTask 8, tp_priority = ILOW, tp_time = 6\<rparr>],
     m_deleted_threads = [], m_threads = [Popping, Popping], m_total_threads = 2, m_paused = False,
     m_pause_sem = 0, acquiring = 0, started_tasks = []\<rparr>"

lemma ex_pool_inv: "pool_inv ex_pool" "unpaused ex_pool" "pauses ex_pool = 0" "pausing ex_pool = 0" "ends ex_pool = 0"
  by (simp_all add: pool_inv_def unpaused_def ex_pool_def live_def pausing_def tasks_of_def)

lemma ex_pq: "m_pq ex_pool = [\<lparr>tp_task = UserTask 7, tp_priority = ILOW, tp_time = 5\<rparr>,
    \<lparr>tp_task = UserTask 8, tp_priority = ILOW, tp_time = 6\<rparr>]"
  by (simp add: ex_pool_def)

lemma ex_pq_pop: "is_top TPTask_less q k \<Longrightarrow> pq_pop TPTask_less q (q ! k) (remove_at k q)"
  by (auto simp: pq_pop_def is_top_def)

theorem pool_starts_newest_of_highest_witness:
  "\<exists>p'. pool_step ex_pool (Take 0) p' \<and> started_tasks p' = [8] \<and>
    (\<exists>task \<in> set (m_pq ex_pool). tp_task task = UserTask 8 \<and> tp_time task = 6)"
proof -
  have "is_top TPTask_less (m_pq ex_pool) 1" by (simp add: is_top_def ex_pool_def TPTask_less_iff)
  from ex_pq_pop [OF this] have st: "pool_step ex_pool (Take 0)
      (run_popped 0 (UserTask 8) (ex_pool\<lparr>m_pq := remove_at 1 (m_pq ex_pool)\<rparr>))"
    using pool_step.take [of 0 ex_pool "m_pq ex_pool ! 1"] by (simp add: ex_pool_def)
  have "started_tasks (run_popped 0 (UserTask 8) (ex_pool\<lparr>m_pq := remove_at 1 (m_pq ex_pool)\<rparr>)) =
      started_tasks ex_pool @ [8]" by (simp add: run_popped_def)
  from pool_starts_newest_of_highest [OF st this] obtain task where
    "task \<in> set (m_pq ex_pool)" "tp_task task = UserTask 8" by blast
  with st show ?thesis by (intro exI) (auto simp: run_popped_def ex_pool_def)
qed

theorem pool_thread_count_witness:
  "\<exists>p0 p :: nat ThreadPool. new_ThreadPool 2 = Inr p0 \<and> pool_run p0 [Add 3] p \<and> live p = 2 + ends p"
proof -
  obtain p0 :: "nat ThreadPool" where n: "new_ThreadPool 2 = Inr p0" using new_pool_inv by blast
  then have t: "m_total_threads p0 = 2" by (auto simp: new_ThreadPool_def AddThreadsToPool_def numeral_2_eq_2)
  have "pool_run p0 [Add 3] (AddTask 3 LOW 1 p0)" by (rule pool_run.cons [OF pool_step.add pool_run.nil])
  with pool_thread_count [OF n this] n t show ?thesis by auto
qed

text \<open>A complete pause of the example pool: both workers take their pause task and are counted.\<close>

lemma ex_pause:
  "\<exists>p'. pool_run (Pause (\<lambda>_. 9) ex_pool) [Take 0, Take 1, Acquire, Acquire] p' \<and> acquiring p' = 0 \<and>
    m_pause_sem p' = 0 \<and> m_total_threads p' = 2 \<and> m_threads p' = [Pausing, Pausing]"
proof -
  let ?p = "Pause (\<lambda>_. 9) ex_pool"
  have q: "m_pq ?p = \<lparr>tp_task = PauseThreadTask, tp_priority = CRITICAL, tp_time = 9\<rparr> #
      \<lparr>tp_task = PauseThreadTask, tp_priority = CRITICAL, tp_time = 9\<rparr> # m_pq ex_pool"
    by (simp add: Pause_def push_copies_def pq_push_def ex_pool_def numeral_2_eq_2)
  have f: "m_threads ?p = [Popping, Popping]" "acquiring ?p = 2" "m_pause_sem ?p = 0" "m_total_threads ?p = 2"
    by (simp_all add: Pause_def ex_pool_def)
  let ?p1 = "run_popped 0 PauseThreadTask (?p\<lparr>m_pq := tl (m_pq ?p)\<rparr>)"
  let ?p2 = "run_popped 1 PauseThreadTask (?p1\<lparr>m_pq := tl (m_pq ?p1)\<rparr>)"
  have "is_top TPTask_less (m_pq ?p) 0" by (simp add: is_top_def q ex_pq TPTask_less_iff)
  from pool_step.take [of 0 ?p, OF _ _ ex_pq_pop [OF this]] have s1: "pool_step ?p (Take 0) ?p1"
    by (simp add: f q remove_at_def)
  have "is_top TPTask_less (m_pq ?p1) 0" by (simp add: is_top_def q ex_pq TPTask_less_iff run_popped_def)
  from pool_step.take [of 1 ?p1, OF _ _ ex_pq_pop [OF this]] have s2: "pool_step ?p1 (Take 1) ?p2"
    by (simp add: f q remove_at_def run_popped_def)
  let ?p3 = "?p2\<lparr>acquiring := 1, m_pause_sem := 1\<rparr>" and ?p4 = "?p2\<lparr>acquiring := 0, m_pause_sem := 0\<rparr>"
  have s3: "pool_step ?p2 Acquire ?p3" using pool_step.acquire [of ?p2 1 1] by (simp add: f run_popped_def)
  have s4: "pool_step ?p3 Acquire ?p4" using pool_step.acquire [of ?p3 0 0] by (simp add: f run_popped_def)
  have "pool_run ?p [Take 0, Take 1, Acquire, Acquire] ?p4" by (rule pool_run.cons [OF s1 pool_run.cons [OF s2 pool_run.cons [OF s3 pool_run.cons [OF s4 pool_run.nil]]]])
  then show ?thesis by (intro exI [of _ ?p4]) (simp add: f run_popped_def)
qed


theorem pause_after_resume_hangs_witness:
  "\<exists>p p2. pool_run (Pause (\<lambda>_. 9) ex_pool) [Take 0, Take 1, Acquire, Acquire] p \<and>
    pool_run p [ResumeCall, PauseCall] p2 \<and> (\<forall>evs p3. pool_run p2 evs p3 \<longrightarrow> acquiring p3 = 2)"
proof -
  obtain p where p: "pool_run (Pause (\<lambda>_. 9) ex_pool) [Take 0, Take 1, Acquire, Acquire] p" "acquiring p = 0"
    "m_pause_sem p = 0" "m_total_threads p = 2" "m_threads p = [Pausing, Pausing]" using ex_pause by blast
  have "0 < m_total_threads p" "\<forall>w \<in> set (m_threads p). w = Pausing \<or> w = Ended" using p by simp_all
  from pause_after_resume_hangs [OF p(2,3) this] p(1,4) show ?thesis by auto
qed


end
