(* ===== verification/Tasks.thy ===== *)
theory Tasks
  imports Cpp_Monad
begin

text \<open>
  The task objects that carry a function and its arguments: \<open>FunctionTask\<close> and \<open>FutureFunction\<close> of
  \<open>framework/include/tp_task.hpp\<close> for the thread pool.  The function may do anything to the state \<open>'w\<close> of the rest of
  the program.  (\<open>SchedulerTask\<close> of \<open>scheduler_task.hpp\<close>, which is not included anywhere, leaves its parameter pack
  unexpanded and does not compile.)
\<close>

section \<open>Model\<close>

text \<open>The arguments are copied into the object when it is made.\<close>

record ('w, 'a) FunctionTask =
  ft_func :: "'a \<Rightarrow> ('w, unit) cpp"
  ft_args :: 'a

definition new_FunctionTask :: "('a \<Rightarrow> ('w, unit) cpp) \<Rightarrow> 'a \<Rightarrow> ('w, 'a) FunctionTask" where
  "new_FunctionTask func args = \<lparr>ft_func = func, ft_args = args\<rparr>"

definition FunctionTask_Run :: "('w, 'a) FunctionTask \<Rightarrow> ('w, unit) cpp" where
  "FunctionTask_Run t = ft_func t (ft_args t)"

text \<open>
  \<open>m_return_value\<close> is the caller's variable the object has a reference to, \<open>m_sem\<close> the count of the binary semaphore.
\<close>

record ('w, 'a, 'r) FutureFunction =
  m_func :: "'a \<Rightarrow> ('w, 'r) cpp"
  m_args :: 'a
  m_return_value :: 'r
  m_sem :: nat

definition new_FutureFunction :: "('a \<Rightarrow> ('w, 'r) cpp) \<Rightarrow> 'r \<Rightarrow> 'a \<Rightarrow> ('w, 'a, 'r) FutureFunction" where
  "new_FutureFunction func target args = \<lparr>m_func = func, m_args = args, m_return_value = target, m_sem = 0\<rparr>"

text \<open>\<open>release\<close> must not take the count over one.\<close>

definition sem_release :: "('w, 'a, 'r) FutureFunction \<Rightarrow> fault + ('w, 'a, 'r) FutureFunction" where
  "sem_release f = (if m_sem f = 0 then Inr (f\<lparr>m_sem := 1\<rparr>) else Inl SemaphoreOverflow)"

definition FutureFunction_Run :: "(('w, 'a, 'r) FutureFunction \<times> 'w, unit) cpp" where
  "FutureFunction_Run = (\<lambda>(f, w).
     case m_func f (m_args f) w of
       Inl u \<Rightarrow> Inl u
     | Inr (Inl ex, w) \<Rightarrow> Inr (Inl ex, (f, w))
     | Inr (Inr v, w) \<Rightarrow>
         (case sem_release (f\<lparr>m_return_value := v\<rparr>) of
            Inl u \<Rightarrow> Inl u
          | Inr f \<Rightarrow> Inr (Inr (), (f, w))))"

text \<open>\<open>Get\<close>: nothing while \<open>acquire\<close> blocks.\<close>

definition FutureFunction_Get :: "('w, 'a, 'r) FutureFunction \<Rightarrow> ('r \<times> ('w, 'a, 'r) FutureFunction) option" where
  "FutureFunction_Get f = (if m_sem f = 0 then None else Some (m_return_value f, f\<lparr>m_sem := m_sem f - 1\<rparr>))"

text \<open>
  What the threads that share the object see: a run with its value, a run that threw, a \<open>Get\<close> that returned, something
  else in the program.
\<close>

datatype 'r future_event = Ran 'r | Threw exn | Got 'r | Elsewhere

inductive future_step :: "('w, 'a, 'r) FutureFunction \<times> 'w \<Rightarrow> 'r future_event \<Rightarrow> ('w, 'a, 'r) FutureFunction \<times> 'w \<Rightarrow> bool" where
  run: "FutureFunction_Run fw = Inr (Inr (), (f', w')) \<Longrightarrow> future_step fw (Ran (m_return_value f')) (f', w')"
| run_throws: "FutureFunction_Run fw = Inr (Inl ex, fw') \<Longrightarrow> future_step fw (Threw ex) fw'"
| get: "FutureFunction_Get f = Some (v, f') \<Longrightarrow> future_step (f, w) (Got v) (f', w)"
| elsewhere: "future_step (f, w) Elsewhere (f, w')"

inductive_cases future_step_E: "future_step fw ev fw'"

inductive future_run :: "('w, 'a, 'r) FutureFunction \<times> 'w \<Rightarrow> 'r future_event list \<Rightarrow> ('w, 'a, 'r) FutureFunction \<times> 'w \<Rightarrow> bool"
  for fw where
  refl: "future_run fw [] fw"
| step: "future_run fw evs fw1 \<Longrightarrow> future_step fw1 ev fw2 \<Longrightarrow> future_run fw (evs @ [ev]) fw2"

section \<open>Lemmas\<close>

text \<open>
  The specification: runs and gets alternate, and a get returns the value of the run before it.  \<open>pending p evs\<close> is the value
  that waits for its \<open>Get\<close> after \<open>evs\<close> when \<open>p\<close> did before, or nothing when the events do not alternate.
\<close>

fun pending :: "'r option \<Rightarrow> 'r future_event list \<Rightarrow> 'r option option" where
  "pending p [] = Some p"
| "pending None (Ran v # evs) = pending (Some v) evs"
| "pending (Some v) (Got v' # evs) = (if v' = v then pending None evs else None)"
| "pending p (Threw ex # evs) = pending p evs"
| "pending p (Elsewhere # evs) = pending p evs"
| "pending (Some v) (Ran v' # evs) = None"
| "pending None (Got v # evs) = None"

lemma pending_append:
  "pending p (evs @ evs') = (case pending p evs of None \<Rightarrow> None | Some q \<Rightarrow> pending q evs')"
  by (induction p evs rule: pending.induct) simp_all

definition waiting :: "('w, 'a, 'r) FutureFunction \<Rightarrow> 'r option" where
  "waiting f = (if m_sem f = 0 then None else Some (m_return_value f))"

lemma Run_cases:
  assumes "FutureFunction_Run (f, w) = Inr (r, (f', w'))"
  shows "m_func f' = m_func f \<and> m_args f' = m_args f \<and>
    (case r of Inl ex \<Rightarrow> f' = f \<and> m_func f (m_args f) w = Inr (Inl ex, w')
     | Inr _ \<Rightarrow> waiting f = None \<and> waiting f' = Some (m_return_value f') \<and> m_sem f' = 1 \<and>
         m_func f (m_args f) w = Inr (Inr (m_return_value f'), w'))"
  using assms
  by (auto simp: FutureFunction_Run_def sem_release_def waiting_def split: sum.splits prod.splits if_splits)

lemma step_pending:
  assumes "future_step (f, w) ev (f', w')" and "m_sem f \<le> 1"
  shows "pending (waiting f) [ev] = Some (waiting f') \<and> m_sem f' \<le> 1 \<and> m_func f' = m_func f \<and> m_args f' = m_args f"
  using assms(1)
proof cases
  case run
  from Run_cases [OF run(2)] show ?thesis by (simp add: run(1))
next
  case (run_throws ex)
  from Run_cases [OF run_throws(2)] assms(2) show ?thesis by (simp add: run_throws(1))
next
  case (get v)
  with assms(2) show ?thesis by (auto simp: FutureFunction_Get_def waiting_def split: if_splits)
next
  case elsewhere
  with assms(2) show ?thesis by simp
qed

lemma run_pending:
  assumes "future_run (f0, w0) evs fw" and "waiting f0 = None" and "m_sem f0 \<le> 1"
  shows "pending None evs = Some (waiting (fst fw)) \<and> m_sem (fst fw) \<le> 1 \<and>
    m_func (fst fw) = m_func f0 \<and> m_args (fst fw) = m_args f0"
  using assms
proof induction
  case (step evs fw1 ev fw2)
  obtain f1 w1 f2 w2 where fw: "fw1 = (f1, w1)" "fw2 = (f2, w2)" by (cases fw1, cases fw2)
  with step have "future_step (f1, w1) ev (f2, w2)" "m_sem f1 \<le> 1" by simp_all
  from step_pending [OF this] step fw show ?case by (simp add: pending_append)
qed simp

section \<open>Properties\<close>


text \<open>
  A \<open>Get\<close> on a task whose function throws blocks for ever, however often the task is run: only a run that returns
  releases the semaphore.
\<close>

theorem future_of_throwing_function_blocks:
  assumes "future_run (new_FutureFunction func target args, w) evs (f, w')"
    and "\<And>w. \<exists>ex w'. func args w = Inr (Inl ex, w')"
  shows "FutureFunction_Get f = None"
proof -
  have "m_sem (fst fw) = 0 \<and> m_func (fst fw) = func \<and> m_args (fst fw) = args"
    if "future_run (new_FutureFunction func target args, w) evs fw" for fw
    using that
  proof induction
    case (step evs fw1 ev fw2)
    obtain f1 w1 f2 w2 where fw: "fw1 = (f1, w1)" "fw2 = (f2, w2)" by (cases fw1, cases fw2)
    obtain ex w3 where "func args w1 = Inr (Inl ex, w3)" using assms(2) by blast
    with step fw show ?case
      by (auto elim!: future_step_E simp: FutureFunction_Run_def FutureFunction_Get_def)
  qed (simp add: new_FutureFunction_def)
  from this [OF assms(1)] show ?thesis by (simp add: FutureFunction_Get_def)
qed

section \<open>Witnesses\<close>

text \<open>A counter that is incremented and read.\<close>

definition ex_func :: "nat \<Rightarrow> (nat, nat) cpp" where
  "ex_func k = (\<lambda>w. Inr (Inr (w + k), w + k))"

lemma ex_future_run:
  "future_run (new_FutureFunction ex_func 0 5, 1) [Ran 6, Got 6] (\<lparr>m_func = ex_func, m_args = 5, m_return_value = 6, m_sem = 0\<rparr>, 6)"
proof -
  let ?f = "\<lparr>m_func = ex_func, m_args = 5, m_return_value = 6, m_sem = 1\<rparr>"
  have "future_step (new_FutureFunction ex_func 0 5, 1) (Ran (m_return_value ?f)) (?f, 6)"
    by (rule future_step.run) (simp add: FutureFunction_Run_def new_FutureFunction_def ex_func_def sem_release_def)
  from future_run.step [OF future_run.refl this]
  have r: "future_run (new_FutureFunction ex_func 0 5, 1) [Ran 6] (?f, 6)" by simp
  have "future_step (?f, 6) (Got 6) (\<lparr>m_func = ex_func, m_args = 5, m_return_value = 6, m_sem = 0\<rparr>, 6)"
    by (rule future_step.get) (simp add: FutureFunction_Get_def)
  from future_run.step [OF r this] show ?thesis by simp
qed


theorem future_of_throwing_function_blocks_witness:
  "FutureFunction_Get (new_FutureFunction (\<lambda>_. cthrow bad_alloc) (0 :: nat) () :: (nat, unit, nat) FutureFunction) = None"
  using future_of_throwing_function_blocks [OF future_run.refl, of "\<lambda>_. cthrow bad_alloc" "()"]
  by (simp add: cthrow_def)

end
