(* ===== verification/Logging.thy ===== *)
theory Logging
  imports Waitable_Queues Task_Args
begin

text \<open>
  \<open>framework/src/logger.cpp\<close>: every message of the program is pushed on a \<open>WaitableQueue\<close> and written to the
  log file by one thread.  The line that is written is a function of the message; the writing thread, the
  callers of \<open>Log\<close> and the destructor are a step relation.  What \<open>Pop\<close> and \<open>Push\<close> promise is the contract of
  \<open>Waitable_Queues\<close>; a \<open>Pop\<close> that cannot return is a state without a step.
\<close>

section \<open>The line of a message\<close>

text \<open>The fields of \<open>std::tm\<close> the line shows, and the conversion the C library makes.\<close>

record tm =
  tm_mday :: nat
  tm_mon :: nat
  tm_year :: nat
  tm_hour :: nat
  tm_min :: nat

record Message =
  time_created :: nat
  msg_text :: string
  msg_sev :: Severity

primrec s_sev_lut :: "Severity \<Rightarrow> string" where
  "s_sev_lut SEV_DEBUG = ''DEBUG''"
| "s_sev_lut SEV_WARNING = ''WARNING''"
| "s_sev_lut SEV_ERROR = ''ERROR''"

text \<open>\<open>std::setfill('0') << std::setw(w) << n\<close>: never cut, filled on the left.\<close>

definition setw :: "nat \<Rightarrow> nat \<Rightarrow> string" where
  "setw w n = (let ds = digits n in replicate (w - length ds) (CHR ''0'') @ ds)"

definition LogMessageTask :: "(nat \<Rightarrow> tm) \<Rightarrow> Message \<Rightarrow> string" where
  "LogMessageTask localtime message =
     (let now_tm = localtime (time_created message)
      in setw 2 (tm_mday now_tm) @ ''.'' @
         setw 2 (tm_mon now_tm + 1) @ ''.'' @
         setw 4 (tm_year now_tm + 1900) @ '' '' @
         setw 2 (tm_hour now_tm) @ '':'' @
         setw 2 (tm_min now_tm) @ '' ['' @
         s_sev_lut (msg_sev message) @ ''] '' @ msg_text message)"

section \<open>The threads\<close>

text \<open>
  Where the writing thread is: before the loop's condition, in \<open>Pop\<close>, with a message in hand, or ended.  Where
  the destructor is: not called, after its \<open>Push\<close>, after \<open>m_running = false\<close>, or after \<open>join\<close>.
\<close>

datatype writer = AtTest | InPop | Writing Message | Finished
datatype closing = Open | Pushed | Joining | Closed

record Logger =
  m_queue :: "Message list"
  s_logger :: "string list"
  m_running :: bool
  m_thread :: writer
  dtor :: closing
  logged :: "Message list"

definition new_Logger :: "bool \<Rightarrow> Logger res" where
  "new_Logger is_open =
     (if \<not> is_open then Inl (Throw (runtime_error ''Couldn't open Logger.''))
      else Inr \<lparr>m_queue = [], s_logger = [], m_running = True, m_thread = AtTest, dtor = Open, logged = []\<rparr>)"

definition Push :: "Message \<Rightarrow> Logger \<Rightarrow> Logger" where
  "Push msg l = l\<lparr>m_queue := fifo_push msg (m_queue l), logged := logged l @ [msg]\<rparr>"

definition Logger_Log :: "nat \<Rightarrow> string \<Rightarrow> Severity \<Rightarrow> Logger \<Rightarrow> Logger" where
  "Logger_Log now message sev l = Push \<lparr>time_created = now, msg_text = message, msg_sev = sev\<rparr> l"

definition shut_down :: "nat \<Rightarrow> Message" where
  "shut_down now = \<lparr>time_created = now, msg_text = ''Logger shut down'', msg_sev = SEV_WARNING\<rparr>"

inductive logger_step :: "(nat \<Rightarrow> tm) \<Rightarrow> Logger \<Rightarrow> Logger \<Rightarrow> bool" for localtime where
  log: "dtor l = Open \<Longrightarrow> logger_step localtime l (Logger_Log now message sev l)"
| delete_push: "dtor l = Open \<Longrightarrow> logger_step localtime l (Push (shut_down now) (l\<lparr>dtor := Pushed\<rparr>))"
| delete_clear: "dtor l = Pushed \<Longrightarrow> logger_step localtime l (l\<lparr>m_running := False, dtor := Joining\<rparr>)"
| delete_join: "dtor l = Joining \<Longrightarrow> m_thread l = Finished \<Longrightarrow> logger_step localtime l (l\<lparr>dtor := Closed\<rparr>)"
| loop: "m_thread l = AtTest \<Longrightarrow> m_running l \<or> \<not> IsEmpty (m_queue l) \<Longrightarrow>
    logger_step localtime l (l\<lparr>m_thread := InPop\<rparr>)"
| leave: "m_thread l = AtTest \<Longrightarrow> \<not> (m_running l \<or> \<not> IsEmpty (m_queue l)) \<Longrightarrow>
    logger_step localtime l (l\<lparr>m_thread := Finished\<rparr>)"
| pop: "m_thread l = InPop \<Longrightarrow> fifo_pop (m_queue l) msg q \<Longrightarrow>
    logger_step localtime l (l\<lparr>m_queue := q, m_thread := Writing msg\<rparr>)"
| write_line: "m_thread l = Writing msg \<Longrightarrow>
    logger_step localtime l (l\<lparr>s_logger := s_logger l @ [LogMessageTask localtime msg], m_thread := AtTest\<rparr>)"

inductive logger_run :: "(nat \<Rightarrow> tm) \<Rightarrow> Logger \<Rightarrow> Logger \<Rightarrow> bool" for localtime l where
  refl: "logger_run localtime l l"
| step: "logger_run localtime l l1 \<Longrightarrow> logger_step localtime l1 l2 \<Longrightarrow> logger_run localtime l l2"

inductive_simps logger_step_stuck: "logger_step localtime l l'"

section \<open>Nothing is lost\<close>

primrec in_hand :: "writer \<Rightarrow> Message list" where
  "in_hand AtTest = []"
| "in_hand InPop = []"
| "in_hand (Writing msg) = [msg]"
| "in_hand Finished = []"

text \<open>
  The file, the message in hand and the queue are what was logged, in order; the flag follows the destructor;
  the thread has ended only on an empty queue after the destructor cleared the flag.
\<close>

definition logger_inv :: "(nat \<Rightarrow> tm) \<Rightarrow> Logger \<Rightarrow> bool" where
  "logger_inv localtime l \<longleftrightarrow>
     map (LogMessageTask localtime) (logged l) =
       s_logger l @ map (LogMessageTask localtime) (in_hand (m_thread l) @ m_queue l) \<and>
     (m_running l \<longleftrightarrow> dtor l = Open \<or> dtor l = Pushed) \<and>
     (m_thread l = Finished \<longrightarrow> m_queue l = [] \<and> \<not> m_running l) \<and>
     (dtor l = Closed \<longrightarrow> m_thread l = Finished) \<and>
     (dtor l \<noteq> Open \<longrightarrow> (\<exists>now. logged l \<noteq> [] \<and> last (logged l) = shut_down now))"

lemma logger_inv_step:
  assumes "logger_step localtime l l'" and "logger_inv localtime l"
  shows "logger_inv localtime l'"
  using assms
  by cases (auto simp: logger_inv_def Logger_Log_def Push_def fifo_push_def fifo_pop_def IsEmpty_def)

lemma logger_inv_run:
  assumes "logger_run localtime l l'" and "new_Logger is_open = Inr l"
  shows "logger_inv localtime l'"
  using assms
proof induction
  case refl
  then show ?case by (auto simp: new_Logger_def logger_inv_def split: if_splits)
qed (auto intro: logger_inv_step)

section \<open>Progress\<close>

definition hung :: "Logger \<Rightarrow> bool" where
  "hung l \<longleftrightarrow> dtor l = Joining \<and> m_thread l = InPop \<and> m_queue l = []"

lemma progress:
  assumes "logger_inv localtime l" and "dtor l \<noteq> Closed" and "\<not> hung l"
  shows "\<exists>l'. logger_step localtime l l'"
proof (cases "dtor l")
  case Open
  then show ?thesis by (blast intro: logger_step.log)
next
  case Pushed
  then show ?thesis by (blast intro: logger_step.delete_clear)
next
  case Joining
  then show ?thesis
  proof (cases "m_thread l")
    case InPop
    with Joining assms(3) obtain msg q where "m_queue l = msg # q" by (auto simp: hung_def neq_Nil_conv)
    then have "fifo_pop (m_queue l) msg q" by (simp add: fifo_pop_def)
    with InPop show ?thesis by (blast intro: logger_step.pop)
  qed (use Joining in \<open>blast intro: logger_step.intros\<close>)+
qed (use assms(2) in simp)

text \<open>Steps that are left once the destructor waits for the thread.\<close>

primrec writer_left :: "writer \<Rightarrow> nat" where
  "writer_left AtTest = 1"
| "writer_left InPop = 0"
| "writer_left (Writing msg) = 2"
| "writer_left Finished = 0"

definition steps_left :: "Logger \<Rightarrow> nat" where
  "steps_left l = 3 * length (m_queue l) + writer_left (m_thread l) + of_bool (dtor l = Joining)"

lemma steps_left_decreases:
  assumes "logger_step localtime l l'" and "dtor l = Joining"
  shows "steps_left l' < steps_left l \<and> (dtor l' = Joining \<or> dtor l' = Closed)"
  using assms by cases (auto simp: steps_left_def fifo_pop_def)

lemma no_step_closed:
  assumes "logger_step localtime l l'" and "dtor l = Closed" and "logger_inv localtime l"
  shows False
  using assms by cases (auto simp: logger_inv_def)

lemma not_hung_step:
  assumes "logger_step localtime l l'" and "dtor l = Joining" and "\<not> hung l" and "logger_inv localtime l"
  shows "\<not> hung l'"
  using assms by cases (auto simp: hung_def logger_inv_def fifo_pop_def IsEmpty_def)

lemma not_hung_run:
  assumes "logger_run localtime l l'" and "dtor l = Joining" and "\<not> hung l" and "logger_inv localtime l"
  shows "\<not> hung l' \<and> logger_inv localtime l' \<and> (dtor l' = Joining \<or> dtor l' = Closed)"
  using assms
proof induction
  case (step l1 l2)
  then show ?case using not_hung_step steps_left_decreases no_step_closed logger_inv_step by blast
qed simp

lemma no_infinite_shutdown:
  assumes "logger_inv localtime (f 0)" and "dtor (f 0) = Joining"
    and "\<And>i. logger_step localtime (f i) (f (Suc i))"
  shows False
proof -
  have r: "logger_inv localtime (f i) \<and> dtor (f i) = Joining" for i
  proof (induction i)
    case (Suc i)
    with assms(3) [of i] assms(3) [of "Suc i"] show ?case
      using logger_inv_step steps_left_decreases no_step_closed by blast
  qed (use assms in simp)
  have "(f (Suc i), f i) \<in> measure steps_left" for i
    using steps_left_decreases [OF assms(3)] r by simp
  then show False using wf_measure [of steps_left] by (auto simp: wf_iff_no_infinite_down_chain)
qed

section \<open>The fields of a line\<close>

lemma length_digits: "n < 10 ^ w \<Longrightarrow> 0 < w \<Longrightarrow> length (digits n) \<le> w"
proof (induction n arbitrary: w rule: digits.induct)
  case (1 n)
  show ?case
  proof (cases "n < 10")
    case False
    with 1(2,3) obtain v where w: "w = Suc v" "0 < v" by (cases w; cases "w - 1") auto
    with 1(2) have "n div 10 < 10 ^ v" by (simp add: div_less_iff_less_mult mult.commute)
    with 1(1) False w show ?thesis by (simp add: digits.simps [of n])
  qed (use 1 in \<open>simp add: digits.simps\<close>)
qed

lemma length_setw [simp]: "n < 10 ^ w \<Longrightarrow> 0 < w \<Longrightarrow> length (setw w n) = w"
  using length_digits [of n w] by (simp add: setw_def Let_def)

text \<open>Every time the C library gives for the years the four places hold.\<close>

definition tm_ok :: "tm \<Rightarrow> bool" where
  "tm_ok t \<longleftrightarrow> tm_mday t \<in> {1..31} \<and> tm_mon t < 12 \<and> tm_year t < 8100 \<and> tm_hour t < 24 \<and> tm_min t < 60"

lemma tm_ok_widths:
  assumes "tm_ok t"
  shows "length (setw 2 (tm_mday t)) = 2" "length (setw 2 (Suc (tm_mon t))) = 2"
    "length (setw 4 (tm_year t + 1900)) = 4" "length (setw 2 (tm_hour t)) = 2" "length (setw 2 (tm_min t)) = 2"
  using assms by (simp_all add: tm_ok_def)

text \<open>The value of a string of digits: what a reader of the file gets back.\<close>

definition digits_value :: "string \<Rightarrow> nat" where
  "digits_value s = foldl (\<lambda>a c. 10 * a + (of_char c - 48)) 0 s"

lemma digits_value_digits: "digits_value (digits n) = n"
proof (induction n rule: digits.induct)
  case (1 n)
  then show ?case by (cases "n < 10") (simp_all add: digits.simps [of n] digits_value_def)
qed

lemma digits_value_zeros: "digits_value (replicate k (CHR ''0'') @ s) = digits_value s"
proof (induction k)
  case (Suc k)
  then show ?case by (simp add: digits_value_def)
qed simp

lemma setw_value [simp]: "digits_value (setw w n) = n"
  by (simp add: setw_def Let_def digits_value_zeros digits_value_digits)

text \<open>A reader of the log: five numbers at fixed places, the severity up to the bracket, the text.\<close>

definition read_severity :: "string \<Rightarrow> Severity" where
  "read_severity s = (if hd s = CHR ''D'' then SEV_DEBUG else if hd s = CHR ''W'' then SEV_WARNING else SEV_ERROR)"

definition read_line :: "string \<Rightarrow> tm \<times> Severity \<times> string" where
  "read_line s =
     (\<lparr>tm_mday = digits_value (take 2 s), tm_mon = digits_value (take 2 (drop 3 s)) - 1,
       tm_year = digits_value (take 4 (drop 6 s)) - 1900, tm_hour = digits_value (take 2 (drop 11 s)),
       tm_min = digits_value (take 2 (drop 14 s))\<rparr>,
      read_severity (drop 18 s), drop (length (s_sev_lut (read_severity (drop 18 s))) + 2) (drop 18 s))"

section \<open>Properties\<close>

text \<open>
  C28. The log file holds the formatted messages in the order they were logged, followed by the one being
  written and those in the queue; when the destructor has returned the file is complete, and its last line is
  the shut-down message.
\<close>

theorem log_file_complete_in_order:
  assumes "new_Logger True = Inr l0" and "logger_run localtime l0 l"
  shows "map (LogMessageTask localtime) (logged l) =
      s_logger l @ map (LogMessageTask localtime) (in_hand (m_thread l) @ m_queue l) \<and>
    (dtor l = Closed \<longrightarrow>
      s_logger l = map (LogMessageTask localtime) (logged l) \<and> (\<exists>now. last (logged l) = shut_down now))"
  using logger_inv_run [OF assms(2,1)] by (auto simp: logger_inv_def)

text \<open>
  C29. Once the destructor has cleared \<open>m_running\<close>, no run of the threads is infinite.  It comes to rest with
  the destructor returned and every message in the file unless the writing thread was in \<open>Pop\<close> on an empty queue
  at that moment, in which case no step is possible and \<open>join\<close> never returns.
\<close>

theorem logger_shutdown:
  assumes "new_Logger True = Inr l0" and "logger_run localtime l0 l" and "dtor l = Joining"
  shows "(\<nexists>f. f 0 = l \<and> (\<forall>i. logger_step localtime (f i) (f (Suc i)))) \<and>
    (if m_thread l = InPop \<and> m_queue l = [] then \<forall>l'. \<not> logger_step localtime l l'
     else \<forall>l'. logger_run localtime l l' \<and> (\<nexists>l''. logger_step localtime l' l'') \<longrightarrow>
       dtor l' = Closed \<and> s_logger l' = map (LogMessageTask localtime) (logged l'))"
proof -
  have inv: "logger_inv localtime l" using assms by (blast intro: logger_inv_run)
  have "\<not> logger_step localtime l l'" if "hung l" for l'
    using that by (auto simp: hung_def logger_step_stuck fifo_pop_def)
  moreover have "dtor l' = Closed \<and> s_logger l' = map (LogMessageTask localtime) (logged l')"
    if "\<not> hung l" "logger_run localtime l l'" "\<nexists>l''. logger_step localtime l' l''" for l'
    using not_hung_run [OF that(2) assms(3) that(1) inv] progress [of localtime l'] that(3)
    by (auto simp: logger_inv_def)
  moreover have "\<nexists>f. f 0 = l \<and> (\<forall>i. logger_step localtime (f i) (f (Suc i)))"
    using no_infinite_shutdown inv assms(3) by blast
  ultimately show ?thesis using assms(3) unfolding hung_def by presburger
qed

text \<open>
  The format is unambiguous: the line of a message gives back the minute it was logged in, its severity and
  its text.
\<close>

theorem log_line_readable:
  assumes "tm_ok (localtime (time_created msg))"
  shows "read_line (LogMessageTask localtime msg) =
    (localtime (time_created msg), msg_sev msg, msg_text msg)"
proof -
  let ?t = "localtime (time_created msg)" and ?s = "LogMessageTask localtime msg"
  note w = tm_ok_widths [OF assms]
  have "drop 18 ?s = s_sev_lut (msg_sev msg) @ ''] '' @ msg_text msg" by (simp add: LogMessageTask_def Let_def w)
  moreover from this have "read_severity (drop 18 ?s) = msg_sev msg"
    by (cases "msg_sev msg") (simp_all add: read_severity_def)
  moreover have "take 2 ?s = setw 2 (tm_mday ?t)" "take 2 (drop 3 ?s) = setw 2 (tm_mon ?t + 1)"
    "take 4 (drop 6 ?s) = setw 4 (tm_year ?t + 1900)" "take 2 (drop 11 ?s) = setw 2 (tm_hour ?t)"
    "take 2 (drop 14 ?s) = setw 2 (tm_min ?t)"
    by (simp_all add: LogMessageTask_def Let_def w)
  ultimately show ?thesis by (simp add: read_line_def del: drop_drop)
qed

section \<open>Witnesses\<close>

definition ex_logger :: Logger where
  "ex_logger = \<lparr>m_queue = [], s_logger = [], m_running = True, m_thread = AtTest, dtor = Open, logged = []\<rparr>"

definition ex_localtime :: "nat \<Rightarrow> tm" where
  "ex_localtime t = \<lparr>tm_mday = 7, tm_mon = 2, tm_year = 125, tm_hour = 9, tm_min = t mod 60\<rparr>"

lemma ex_logger_new: "new_Logger True = Inr ex_logger"
  by (simp add: new_Logger_def ex_logger_def)

text \<open>The thread writes the last message and tests \<open>m_running\<close> again before the destructor clears it.\<close>

lemma ex_hang:
  "logger_run ex_localtime ex_logger
     (ex_logger\<lparr>s_logger := [''07.03.2025 09:05 [WARNING] Logger shut down''], m_running := False,
        m_thread := InPop, dtor := Joining, logged := [shut_down 5]\<rparr>)"
proof -
  let ?R = "logger_run ex_localtime ex_logger" and ?l = "''07.03.2025 09:05 [WARNING] Logger shut down''"
  have line: "LogMessageTask ex_localtime (shut_down 5) = ?l"
    by (simp add: LogMessageTask_def shut_down_def ex_localtime_def Let_def setw_def digits.simps char_of_def bit_0)
  let ?s1 = "ex_logger\<lparr>m_thread := InPop\<rparr>"
  let ?s2 = "?s1\<lparr>m_queue := [shut_down 5], dtor := Pushed, logged := [shut_down 5]\<rparr>"
  let ?s3 = "?s2\<lparr>m_queue := [], m_thread := Writing (shut_down 5)\<rparr>"
  let ?s4 = "?s3\<lparr>s_logger := [?l], m_thread := AtTest\<rparr>"
  let ?s5 = "?s4\<lparr>m_thread := InPop\<rparr>"
  let ?s6 = "?s5\<lparr>m_running := False, dtor := Joining\<rparr>"
  have t1: "logger_step ex_localtime ex_logger ?s1" using logger_step.loop [of ex_logger] by (simp add: ex_logger_def)
  have t2: "logger_step ex_localtime ?s1 ?s2"
    using logger_step.delete_push [of ?s1 ex_localtime 5] by (simp add: ex_logger_def Push_def fifo_push_def)
  have t3: "logger_step ex_localtime ?s2 ?s3"
    using logger_step.pop [of ?s2 "shut_down 5" "[]" ex_localtime] by (simp add: fifo_pop_def)
  have t4: "logger_step ex_localtime ?s3 ?s4"
    using logger_step.write_line [of ?s3 "shut_down 5" ex_localtime] by (simp add: ex_logger_def line)
  have t5: "logger_step ex_localtime ?s4 ?s5" using logger_step.loop [of ?s4] by (simp add: ex_logger_def)
  have t6: "logger_step ex_localtime ?s5 ?s6" using logger_step.delete_clear [of ?s5] by simp
  have "?R ?s3" by (rule logger_run.step [OF logger_run.step [OF logger_run.step [OF logger_run.refl t1] t2] t3])
  then have "?R ?s6" by (rule logger_run.step [OF logger_run.step [OF logger_run.step [OF _ t4] t5] t6])
  then show ?thesis by (simp add: ex_logger_def)
qed

theorem log_file_complete_in_order_witness:
  "\<exists>l. logger_run ex_localtime ex_logger l \<and> logged l = [shut_down 5] \<and>
    map (LogMessageTask ex_localtime) (logged l) =
      s_logger l @ map (LogMessageTask ex_localtime) (in_hand (m_thread l) @ m_queue l)"
  by (rule exI, rule conjI [OF ex_hang]) (use log_file_complete_in_order [OF ex_logger_new ex_hang] in simp)

theorem logger_shutdown_witness:
  "\<exists>l. logger_run ex_localtime ex_logger l \<and> dtor l = Joining \<and> (\<forall>l'. \<not> logger_step ex_localtime l l')"
  by (rule exI, rule conjI [OF ex_hang])
    (use logger_shutdown [OF ex_logger_new ex_hang] in \<open>simp add: ex_logger_def\<close>)

theorem log_line_readable_witness:
  "read_line (LogMessageTask ex_localtime (shut_down 5)) =
    (ex_localtime 5, SEV_WARNING, ''Logger shut down'')"
  using log_line_readable [of ex_localtime "shut_down 5"] by (simp add: tm_ok_def ex_localtime_def shut_down_def)

end
