(* ===== verification/Scheduling.thy ===== *)
theory Scheduling
  imports Waitable_Queues
begin

text \<open>
  \<open>framework/src/scheduler.cpp\<close> and \<open>framework/src/AsyncInjection.cpp\<close>: tasks that run at a given time on the
  threads a POSIX timer starts, and the periodic functions built on them.  Times are nanoseconds of the system
  clock.  The lock-protected parts of \<open>AddTask\<close> and \<open>RunTask\<close> are functions; the clock, the timer and the threads
  are a step relation.
\<close>

section \<open>Tasks and the timer\<close>

record 'a SchedTask =
  m_task :: 'a
  m_time_to_run :: nat

text \<open>\<open>Task::operator<\<close>: the top of the priority queue is the earliest task.\<close>

definition SchedTask_less :: "'a SchedTask \<Rightarrow> 'a SchedTask \<Rightarrow> bool" where
  "SchedTask_less t other \<longleftrightarrow> m_time_to_run t > m_time_to_run other"

definition new_SchedTask :: "nat \<Rightarrow> 'a \<Rightarrow> nat \<Rightarrow> 'a SchedTask" where
  "new_SchedTask now task interval_ms = \<lparr>m_task = task, m_time_to_run = now + interval_ms * 1000000\<rparr>"

record it_value =
  tv_sec :: nat
  tv_nsec :: nat

text \<open>
  The scheduler with what the system keeps for it: the clock, the time the timer is armed for, the number
  of \<open>ThreadFunc\<close> threads that have not taken the lock yet, the tasks that are running, and a record of what was
  added and of what was started when.
\<close>

record 'a Scheduler =
  m_queue :: "'a SchedTask list"
  m_counter :: size_t
  m_its :: it_value
  armed :: "nat option"
  fired :: nat
  running :: "'a SchedTask list"
  clock :: nat
  added :: "'a SchedTask list"
  started :: "('a SchedTask \<times> nat) list"

definition new_Scheduler :: "bool \<Rightarrow> nat \<Rightarrow> 'a Scheduler res" where
  "new_Scheduler timer_created now =
     (if \<not> timer_created then Inl (Throw (runtime_error ''Failed to create timer''))
      else Inr \<lparr>m_queue = [], m_counter = 0, m_its = \<lparr>tv_sec = 0, tv_nsec = 0\<rparr>, armed = None, fired = 0,
        running = [], clock = now, added = [], started = []\<rparr>)"

text \<open>\<open>timer_settime\<close> with \<open>TIMER_ABSTIME\<close>: zero disarms, a bad number of nanoseconds is \<open>EINVAL\<close>.\<close>

definition timer_settime :: "'a Scheduler \<Rightarrow> ('a Scheduler) option" where
  "timer_settime s =
     (let v = m_its s
      in if 1000000000 \<le> tv_nsec v then None
         else if tv_sec v = 0 \<and> tv_nsec v = 0 then Some (s\<lparr>armed := None\<rparr>)
         else Some (s\<lparr>armed := Some (tv_sec v * 1000000000 + tv_nsec v)\<rparr>))"

text \<open>\<open>tp\<close> is the place of the element \<open>m_queue.top()\<close> gives.\<close>

definition StartTimer :: "nat \<Rightarrow> 'a Scheduler \<Rightarrow> 'a Scheduler res" where
  "StartTimer tp s =
     (let curr_task = m_queue s ! tp;
          sec = m_time_to_run curr_task div 1000000000;
          remainder = m_time_to_run curr_task - sec * 1000000000;
          s = s\<lparr>m_its := \<lparr>tv_sec = sec, tv_nsec = remainder\<rparr>\<rparr>
      in case timer_settime s of None \<Rightarrow> Inl (Throw (runtime_error ''failed to set timer'')) | Some s \<Rightarrow> Inr s)"

definition emplace :: "'a \<Rightarrow> nat \<Rightarrow> 'a Scheduler \<Rightarrow> 'a Scheduler" where
  "emplace task interval_ms s =
     (let t = new_SchedTask (clock s) task interval_ms
      in s\<lparr>m_queue := pq_push t (m_queue s), m_counter := m_counter s + 1, added := added s @ [t]\<rparr>)"

definition AddTask :: "nat \<Rightarrow> 'a \<Rightarrow> nat \<Rightarrow> 'a Scheduler \<Rightarrow> 'a Scheduler res" where
  "AddTask tp task interval_ms s = StartTimer tp (emplace task interval_ms s)"

text \<open>\<open>RunTask\<close>: the part under the first lock, and the part under the second, after the task has returned or thrown.\<close>

definition RunTask_begin :: "nat \<Rightarrow> 'a Scheduler \<Rightarrow> 'a Scheduler" where
  "RunTask_begin tp s =
     (if IsEmpty (m_queue s) then s
      else let curr_task = m_queue s ! tp
           in s\<lparr>m_queue := remove_at tp (m_queue s), running := running s @ [curr_task],
                started := started s @ [(curr_task, clock s)]\<rparr>)"

definition RunTask_end :: "nat \<Rightarrow> nat \<Rightarrow> 'a Scheduler \<Rightarrow> 'a Scheduler res" where
  "RunTask_end tp i s =
     (let s = s\<lparr>m_counter := m_counter s - 1, running := remove_at i (running s)\<rparr>
      in if m_counter s = 0 then Inr s
         else if \<not> IsEmpty (m_queue s) then StartTimer tp s else Inr s)"

text \<open>
  \<open>~Scheduler\<close>: disarms and deletes the timer, empties the queue and clears the counter.  Threads the timer has started
  already are not waited for.  The order in which the loop drops the tasks does not matter.
\<close>

primrec pop_all :: "'a list \<Rightarrow> 'a list" where
  "pop_all [] = []"
| "pop_all (t # q) = pop_all q"

definition Scheduler_delete :: "'a Scheduler \<Rightarrow> 'a Scheduler" where
  "Scheduler_delete s = s\<lparr>armed := None, m_queue := pop_all (m_queue s), m_counter := 0\<rparr>"

section \<open>The threads\<close>

datatype 'a sched_event = Tick nat | Add 'a nat | Fire | Begin | End nat

text \<open>
  A step picks some top of the queue.  Memory holds fewer than \<open>2 ^ 64\<close> tasks.
\<close>

inductive sched_step :: "'a Scheduler \<Rightarrow> 'a sched_event \<Rightarrow> 'a Scheduler \<Rightarrow> bool" where
  tick: "sched_step s (Tick d) (s\<lparr>clock := clock s + d\<rparr>)"
| add: "Suc (length (m_queue s) + length (running s)) < 2 ^ 64 \<Longrightarrow>
    is_top SchedTask_less (m_queue (emplace a ms s)) tp \<Longrightarrow>
    AddTask tp a ms s = Inr s' \<Longrightarrow> sched_step s (Add a ms) s'"
| fire: "armed s = Some t \<Longrightarrow> t \<le> clock s \<Longrightarrow>
    sched_step s Fire (s\<lparr>armed := None, fired := Suc (fired s)\<rparr>)"
| beginning: "fired s = Suc n \<Longrightarrow> IsEmpty (m_queue s) \<or> is_top SchedTask_less (m_queue s) tp \<Longrightarrow>
    sched_step s Begin (RunTask_begin tp (s\<lparr>fired := n\<rparr>))"
| ending: "i < length (running s) \<Longrightarrow> IsEmpty (m_queue s) \<or> is_top SchedTask_less (m_queue s) tp \<Longrightarrow>
    RunTask_end tp i s = Inr s' \<Longrightarrow> sched_step s (End i) s'"

inductive_cases sched_step_E: "sched_step s ev s'"

inductive sched_run :: "('a Scheduler \<Rightarrow> 'a sched_event \<Rightarrow> bool) \<Rightarrow> 'a Scheduler \<Rightarrow> 'a Scheduler \<Rightarrow> bool"
  for allowed s where
  refl: "sched_run allowed s s"
| step: "sched_run allowed s s1 \<Longrightarrow> allowed s1 ev \<Longrightarrow> sched_step s1 ev s2 \<Longrightarrow> sched_run allowed s s2"

text \<open>
  Prompt threads: whenever the timer has fired, the thread it starts takes its task before anything
  else touches the timer.
\<close>

definition prompt :: "'a Scheduler \<Rightarrow> 'a sched_event \<Rightarrow> bool" where
  "prompt s ev \<longleftrightarrow> (case ev of Tick d \<Rightarrow> True | Begin \<Rightarrow> True | _ \<Rightarrow> fired s = 0)"

section \<open>The timer is always set\<close>

lemma StartTimer_armed:
  assumes "0 < m_time_to_run (m_queue s ! tp)"
  shows "\<exists>its. StartTimer tp s = Inr (s\<lparr>m_its := its, armed := Some (m_time_to_run (m_queue s ! tp))\<rparr>)"
proof -
  let ?t = "m_time_to_run (m_queue s ! tp)"
  have m: "?t - ?t div 1000000000 * 1000000000 = ?t mod 1000000000" by (simp add: minus_div_mult_eq_mod)
  have "\<not> (?t div 1000000000 = 0 \<and> ?t mod 1000000000 = 0)" using assms by (metis div_mult_mod_eq mult_0 add_0 neq0_conv)
  moreover have "?t div 1000000000 * 1000000000 + ?t mod 1000000000 = ?t" by simp
  ultimately show ?thesis by (auto simp: StartTimer_def timer_settime_def Let_def m linorder_not_le)
qed

lemma is_top_mem: "is_top lt q k \<Longrightarrow> q ! k \<in> set q"
  by (simp add: is_top_def)

lemma SchedTask_top: "is_top SchedTask_less q k \<Longrightarrow> t \<in> set q \<Longrightarrow> m_time_to_run (q ! k) \<le> m_time_to_run t"
  by (auto simp: is_top_def SchedTask_less_def list_all_iff linorder_not_less)

interpretation sched_queue: container mset pq_push "pq_pop SchedTask_less" IsEmpty
  by (rule pq_container) (auto simp: irreflp_def transp_def SchedTask_less_def)

lemma SchedTask_top_exists:
  assumes "q \<noteq> []"
  shows "\<exists>tp. is_top SchedTask_less q tp"
  using sched_queue.pop_total [of q] assms by (auto simp: pq_pop_def)

lemma set_remove_at: "set (remove_at k q) \<subseteq> set q"
  by (auto simp: remove_at_def dest: in_set_takeD in_set_dropD)

lemma length_remove_at: "k < length q \<Longrightarrow> length (remove_at k q) = length q - 1"
  by (simp add: remove_at_def)

section \<open>Invariants\<close>

text \<open>
  Every task that was added is queued or was started, the counter counts those that have not returned, and a
  task that is queued has a timer, a started thread or a running task that will take it or set the timer.
\<close>

definition sched_inv :: "'a Scheduler \<Rightarrow> bool" where
  "sched_inv s \<longleftrightarrow>
     mset (added s) = mset (m_queue s) + mset (map fst (started s)) \<and>
     m_counter s = word_of_nat (length (m_queue s) + length (running s)) \<and>
     length (m_queue s) + length (running s) < 2 ^ 64 \<and>
     (m_queue s \<noteq> [] \<longrightarrow> armed s \<noteq> None \<or> 0 < fired s \<or> running s \<noteq> []) \<and>
     0 < clock s \<and> (\<forall>t \<in> set (m_queue s). 0 < m_time_to_run t)"

lemma sched_inv_new: "new_Scheduler True now = Inr s \<Longrightarrow> 0 < now \<Longrightarrow> sched_inv s"
  by (auto simp: new_Scheduler_def sched_inv_def)

lemma AddTask_eq:
  assumes "sched_inv s" and "is_top SchedTask_less (m_queue (emplace a ms s)) tp"
  shows "\<exists>its. AddTask tp a ms s = Inr ((emplace a ms s)\<lparr>m_its := its,
    armed := Some (m_time_to_run (m_queue (emplace a ms s) ! tp))\<rparr>)"
proof -
  have "\<forall>t \<in> set (m_queue (emplace a ms s)). 0 < m_time_to_run t"
    using assms(1) by (auto simp: sched_inv_def emplace_def pq_push_def new_SchedTask_def Let_def)
  with is_top_mem [OF assms(2)] StartTimer_armed show ?thesis unfolding AddTask_def by blast
qed

text \<open>\<open>--m_counter == 0\<close> exactly when nothing is queued or running any more.\<close>

lemma counter_zero:
  assumes "sched_inv s" and "i < length (running s)"
  shows "m_counter s - 1 = word_of_nat (length (m_queue s) + (length (running s) - 1))"
    and "m_counter s - 1 = 0 \<longleftrightarrow> m_queue s = [] \<and> length (running s) = 1"
proof -
  let ?n = "length (m_queue s) + (length (running s) - 1)"
  have n: "Suc ?n = length (m_queue s) + length (running s)" using assms(2) by simp
  have c: "m_counter s = word_of_nat (Suc ?n)" and lt: "Suc ?n < 2 ^ 64"
    using assms(1) unfolding sched_inv_def n by blast+
  from c show *: "m_counter s - 1 = word_of_nat ?n" by simp
  have small: "word_of_nat k = (0 :: size_t) \<longleftrightarrow> k = 0" if "k < 2 ^ 64" for k
    using that by (auto simp: word_of_nat_eq_0_iff dest: dvd_imp_le)
  have "word_of_nat ?n = (0 :: size_t) \<longleftrightarrow> ?n = 0" by (rule small) (use lt in simp)
  with * assms(2) show "m_counter s - 1 = 0 \<longleftrightarrow> m_queue s = [] \<and> length (running s) = 1" by (auto simp: Suc_le_eq)
qed

lemma RunTask_end_eq:
  assumes "sched_inv s" and "i < length (running s)"
    and "IsEmpty (m_queue s) \<or> is_top SchedTask_less (m_queue s) tp"
  shows "\<exists>its ar. RunTask_end tp i s = Inr (s\<lparr>m_counter := m_counter s - 1, running := remove_at i (running s),
      m_its := its, armed := ar\<rparr>) \<and>
    ar = (if m_queue s = [] then armed s else Some (m_time_to_run (m_queue s ! tp)))"
proof (cases "m_queue s = []")
  case True
  then show ?thesis
    by (intro exI [of _ "m_its s"]) (auto simp: RunTask_end_def IsEmpty_def Let_def)
next
  case False
  then have "0 < m_time_to_run (m_queue s ! tp)"
    using assms(1,3) by (auto simp: sched_inv_def IsEmpty_def dest: is_top_mem)
  with False StartTimer_armed [of "s\<lparr>m_counter := m_counter s - 1, running := remove_at i (running s)\<rparr>" tp]
    counter_zero(2) [OF assms(1,2)] show ?thesis
    by (auto simp: RunTask_end_def IsEmpty_def Let_def)
qed

lemma sched_inv_step:
  assumes "sched_step s ev s'" and "sched_inv s"
  shows "sched_inv s'"
  using assms(1)
proof cases
  case (add a ms tp)
  from AddTask_eq [OF assms(2) add(3)] add(2,4) assms(2) show ?thesis
    by (auto simp: sched_inv_def emplace_def pq_push_def new_SchedTask_def Let_def)
next
  case (beginning n tp)
  show ?thesis
  proof (cases "m_queue s = []")
    case False
    with beginning have "tp < length (m_queue s)" by (simp add: IsEmpty_def is_top_def)
    with beginning False assms(2) mset_remove_at [of tp "m_queue s"] set_remove_at [of tp "m_queue s"] show ?thesis
      by (auto simp: sched_inv_def RunTask_begin_def IsEmpty_def Let_def length_remove_at)
  qed (use beginning assms(2) in \<open>simp add: sched_inv_def RunTask_begin_def IsEmpty_def\<close>)
next
  case (ending i tp)
  from RunTask_end_eq [OF assms(2) ending(2,3)] ending(2,4) counter_zero(1) [OF assms(2) ending(2)] assms(2)
  show ?thesis by (auto simp: sched_inv_def length_remove_at)
qed (use assms(2) in \<open>auto simp: sched_inv_def\<close>)

lemma sched_inv_run:
  assumes "sched_run allowed s0 s" and "new_Scheduler True now = Inr s0" and "0 < now"
  shows "sched_inv s"
  using assms
proof induction
  case refl
  then show ?case by (rule sched_inv_new)
qed (auto intro: sched_inv_step)

section \<open>Prompt runs\<close>

definition prompt_inv :: "'a Scheduler \<Rightarrow> bool" where
  "prompt_inv s \<longleftrightarrow> sched_inv s \<and>
     (\<forall>t. armed s = Some t \<longrightarrow> fired s = 0 \<and> (\<exists>x \<in> set (m_queue s). m_time_to_run x = t)) \<and>
     fired s \<le> 1 \<and> (fired s = 1 \<longrightarrow> (\<exists>x \<in> set (m_queue s). m_time_to_run x \<le> clock s)) \<and>
     (\<forall>(x, t) \<in> set (started s). m_time_to_run x \<le> t)"

lemma prompt_inv_step:
  assumes "sched_step s ev s'" and "prompt s ev" and "prompt_inv s"
  shows "prompt_inv s'"
proof -
  have inv: "sched_inv s" "sched_inv s'" using assms sched_inv_step by (auto simp: prompt_inv_def)
  from assms(1) show ?thesis
  proof cases
    case (add a ms tp)
    from AddTask_eq [OF inv(1) add(3)] add(1,4) assms(2,3) is_top_mem [OF add(3)] inv(2) show ?thesis
      by (auto simp: prompt_inv_def prompt_def emplace_def Let_def)
  next
    case (beginning n tp)
    then have n: "n = 0" "armed s = None" and x: "\<exists>x \<in> set (m_queue s). m_time_to_run x \<le> clock s"
      using assms(3) by (auto simp: prompt_inv_def)
    then have "m_queue s \<noteq> []" by auto
    with beginning have "is_top SchedTask_less (m_queue s) tp" by (simp add: IsEmpty_def)
    from SchedTask_top [OF this] x have "m_time_to_run (m_queue s ! tp) \<le> clock s" by fastforce
    with beginning n inv(2) assms(3) \<open>m_queue s \<noteq> []\<close> show ?thesis
      by (auto simp: prompt_inv_def RunTask_begin_def IsEmpty_def Let_def)
  next
    case (ending i tp)
    have "m_queue s \<noteq> [] \<Longrightarrow> m_queue s ! tp \<in> set (m_queue s)"
      using ending(3) by (auto simp: IsEmpty_def intro: is_top_mem)
    with RunTask_end_eq [OF inv(1) ending(2,3)] ending(1,4) assms(2,3) inv(2) show ?thesis
      by (auto simp: prompt_inv_def prompt_def split: if_splits)
  next
    case (tick d)
    with assms(3) inv(2) show ?thesis by (auto simp: prompt_inv_def intro: trans_le_add1)
  next
    case (fire t)
    with assms(2,3) inv(2) show ?thesis by (auto simp: prompt_inv_def prompt_def)
  qed
qed

lemma prompt_inv_run:
  assumes "sched_run prompt s0 s" and "new_Scheduler True now = Inr s0" and "0 < now"
  shows "prompt_inv s"
  using assms
proof induction
  case refl
  then show ?case by (auto simp: prompt_inv_def sched_inv_new new_Scheduler_def)
qed (auto intro: prompt_inv_step)

section \<open>Functions called until they are done\<close>

text \<open>
  \<open>AsyncInjection\<close>: the scheduler's tasks hold a weak pointer to an injection, here its number.  \<open>use_count\<close> counts
  the shared pointers to it, \<open>in_Schedule\<close> lists the injections whose \<open>Schedule\<close> call has not returned, \<open>phases\<close> has
  for every running task how far its \<open>Run\<close> is, \<open>calls\<close> records the calls of the functions.
\<close>

datatype phase = Entered | Performing | Returned

record Async =
  sched :: "nat Scheduler"
  next_injection :: nat
  use_count :: "nat \<Rightarrow> nat"
  m_interval :: "nat \<Rightarrow> nat"
  in_Schedule :: "nat list"
  phases :: "phase list"
  calls :: "nat list"

definition retain :: "nat \<Rightarrow> Async \<Rightarrow> Async" where
  "retain a s = s\<lparr>use_count := (use_count s)(a := use_count s a + 1)\<rparr>"

definition release :: "nat \<Rightarrow> Async \<Rightarrow> Async" where
  "release a s = s\<lparr>use_count := (use_count s)(a := use_count s a - 1)\<rparr>"

definition async_AddTask :: "nat \<Rightarrow> nat \<Rightarrow> nat \<Rightarrow> Async \<Rightarrow> Async res" where
  "async_AddTask tp a ms s = rbind (AddTask tp a ms (sched s)) (\<lambda>t. Inr (s\<lparr>sched := t\<rparr>))"

text \<open>\<open>Schedule\<close> up to the return of \<open>AddTask\<close>; its local shared pointer goes with \<open>Schedule_return\<close>.\<close>

definition Schedule_call :: "nat \<Rightarrow> nat \<Rightarrow> Async \<Rightarrow> Async res" where
  "Schedule_call tp interval s =
     (let a = next_injection s;
          s = retain a (s\<lparr>next_injection := Suc a, m_interval := (m_interval s)(a := interval),
                          in_Schedule := a # in_Schedule s\<rparr>)
      in async_AddTask tp a interval s)"

definition Schedule_return :: "nat \<Rightarrow> Async \<Rightarrow> Async" where
  "Schedule_return a s = release a (s\<lparr>in_Schedule := remove1 a (in_Schedule s)\<rparr>)"

text \<open>\<open>AsyncInjectionTask::Run\<close> up to the call of the function, then the rest of \<open>PerformAction\<close>.\<close>

definition AsyncInjectionTask_Run :: "nat \<Rightarrow> nat \<Rightarrow> Async \<Rightarrow> Async" where
  "AsyncInjectionTask_Run i a s =
     (if use_count s a = 0 then s\<lparr>phases := (phases s)[i := Returned]\<rparr>
      else (retain a s)\<lparr>phases := (phases s)[i := Performing], calls := calls s @ [a]\<rparr>)"

definition Reschedule :: "nat \<Rightarrow> nat \<Rightarrow> Async \<Rightarrow> Async res" where
  "Reschedule tp a s = async_AddTask tp a (m_interval s a) s"

definition PerformAction_end :: "nat \<Rightarrow> nat \<Rightarrow> nat \<Rightarrow> bool \<Rightarrow> Async \<Rightarrow> Async res" where
  "PerformAction_end tp i a result s =
     rbind (if result then Inr s else Reschedule tp a s)
       (\<lambda>s. Inr ((release a s)\<lparr>phases := (phases s)[i := Returned]\<rparr>))"

inductive async_step :: "Async \<Rightarrow> Async \<Rightarrow> bool" where
  time: "sched_step (sched s) ev t \<Longrightarrow> ev = Tick d \<or> ev = Fire \<Longrightarrow> async_step s (s\<lparr>sched := t\<rparr>)"
| start: "sched_step (sched s) Begin t \<Longrightarrow>
    async_step s (s\<lparr>sched := t,
      phases := phases s @ replicate (length (running t) - length (running (sched s))) Entered\<rparr>)"
| finish: "i < length (phases s) \<Longrightarrow> phases s ! i = Returned \<Longrightarrow> sched_step (sched s) (End i) t \<Longrightarrow>
    async_step s (s\<lparr>sched := t, phases := remove_at i (phases s)\<rparr>)"
| call: "Schedule_call tp interval s = Inr s' \<Longrightarrow> async_step s s'"
| return: "a \<in> set (in_Schedule s) \<Longrightarrow> async_step s (Schedule_return a s)"
| run: "i < length (phases s) \<Longrightarrow> i < length (running (sched s)) \<Longrightarrow> phases s ! i = Entered \<Longrightarrow>
    async_step s (AsyncInjectionTask_Run i (m_task (running (sched s) ! i)) s)"
| perform: "i < length (phases s) \<Longrightarrow> i < length (running (sched s)) \<Longrightarrow> phases s ! i = Performing \<Longrightarrow>
    PerformAction_end tp i (m_task (running (sched s) ! i)) result s = Inr s' \<Longrightarrow> async_step s s'"

inductive async_run :: "Async \<Rightarrow> Async \<Rightarrow> bool" for s where
  refl: "async_run s s"
| step: "async_run s s1 \<Longrightarrow> async_step s1 s2 \<Longrightarrow> async_run s s2"

definition new_Async :: "nat Scheduler \<Rightarrow> Async" where
  "new_Async sc = \<lparr>sched = sc, next_injection = 0, use_count = (\<lambda>_. 0), m_interval = (\<lambda>_. 0), in_Schedule = [],
     phases = [], calls = []\<rparr>"

text \<open>An injection nobody points to any more is never called again.\<close>

definition dead :: "nat \<Rightarrow> nat \<Rightarrow> Async \<Rightarrow> bool" where
  "dead a n s \<longleftrightarrow> a < next_injection s \<and> use_count s a = 0 \<and> count_list (calls s) a = n"

lemma async_AddTask_fields:
  "async_AddTask tp a ms s = Inr s' \<Longrightarrow> \<exists>t. s' = s\<lparr>sched := t\<rparr>"
  by (auto simp: async_AddTask_def rbind_def split: sum.splits)

lemma dead_step:
  assumes "async_step s s'" and "dead a n s"
  shows "dead a n s'"
  using assms
proof cases
  case (call tp interval)
  with assms(2) show ?thesis
    by (auto simp: Schedule_call_def Let_def retain_def dead_def dest!: async_AddTask_fields)
next
  case (perform i tp result)
  with assms(2) show ?thesis
    by (auto simp: PerformAction_end_def Reschedule_def release_def rbind_def dead_def
        split: if_splits sum.splits dest!: async_AddTask_fields)
qed (auto simp: dead_def Schedule_return_def AsyncInjectionTask_Run_def retain_def release_def)

lemma dead_run: "async_run s s' \<Longrightarrow> dead a n s \<Longrightarrow> dead a n s'"
  by (induction rule: async_run.induct) (auto intro: dead_step)

definition unborn :: "Async \<Rightarrow> bool" where
  "unborn s \<longleftrightarrow> (\<forall>a \<ge> next_injection s. use_count s a = 0 \<and> a \<notin> set (calls s))"

lemma unborn_step:
  assumes "async_step s s'" and "unborn s"
  shows "unborn s'"
  using assms
proof cases
  case (call tp interval)
  with assms(2) show ?thesis
    by (auto simp: Schedule_call_def Let_def retain_def unborn_def dest!: async_AddTask_fields)
next
  case (perform i tp result)
  with assms(2) show ?thesis
    by (auto simp: PerformAction_end_def Reschedule_def release_def rbind_def unborn_def
        split: if_splits sum.splits dest!: async_AddTask_fields)
next
  case (run i)
  with assms(2) show ?thesis
    by (auto simp: AsyncInjectionTask_Run_def retain_def unborn_def leI)
qed (auto simp: unborn_def Schedule_return_def release_def)

lemma unborn_run: "async_run s s' \<Longrightarrow> unborn s \<Longrightarrow> unborn s'"
  by (induction rule: async_run.induct) (auto intro: unborn_step)

section \<open>A race\<close>

text \<open>
  Task 1 is due after ten milliseconds.  The timer fires, and before its thread has the lock task 2 is added, due
  3.6 seconds later: the timer is armed for task 1 again, fires at once, and two threads take two tasks.
\<close>

definition ex_sched :: "nat Scheduler" where
  "ex_sched = \<lparr>m_queue = [], m_counter = 0, m_its = \<lparr>tv_sec = 0, tv_nsec = 0\<rparr>, armed = None, fired = 0,
     running = [], clock = 1, added = [], started = []\<rparr>"

definition ex_task1 :: "nat SchedTask" where
  "ex_task1 = \<lparr>m_task = 1, m_time_to_run = 10000001\<rparr>"

definition ex_task2 :: "nat SchedTask" where
  "ex_task2 = \<lparr>m_task = 2, m_time_to_run = 3610000001\<rparr>"

definition ex_fired :: "nat Scheduler" where
  "ex_fired = \<lparr>m_queue = [ex_task1], m_counter = 1, m_its = \<lparr>tv_sec = 0, tv_nsec = 10000001\<rparr>, armed = None,
     fired = 1, running = [], clock = 10000001, added = [ex_task1], started = []\<rparr>"

lemmas sched_compute = AddTask_def StartTimer_def timer_settime_def emplace_def new_SchedTask_def pq_push_def
  IsEmpty_def is_top_def SchedTask_less_def RunTask_begin_def remove_at_def Let_def ex_task1_def ex_task2_def

lemma ex_fired_reached: "sched_run prompt ex_sched ex_fired"
proof -
  let ?s1 = "ex_fired\<lparr>armed := Some 10000001, fired := 0, clock := 1\<rparr>"
  let ?s2 = "ex_fired\<lparr>armed := Some 10000001, fired := 0\<rparr>"
  have "sched_step ex_sched (Add 1 10) ?s1"
    by (rule sched_step.add [where tp = 0]) (simp_all add: sched_compute ex_sched_def ex_fired_def)
  moreover have "sched_step ?s1 (Tick 10000000) ?s2"
    using sched_step.tick [of ?s1 10000000] by (simp add: ex_fired_def)
  moreover have "sched_step ?s2 Fire ex_fired" using sched_step.fire [of ?s2 10000001] by (simp add: ex_fired_def)
  moreover have "prompt ex_sched (Add 1 10)" "prompt ?s1 (Tick 10000000)" "prompt ?s2 Fire"
    by (simp_all add: prompt_def ex_sched_def)
  ultimately show ?thesis by (metis sched_run.refl sched_run.step)
qed

lemma sched_run_mono: "sched_run P s s' \<Longrightarrow> (\<And>s ev. P s ev \<Longrightarrow> Q s ev) \<Longrightarrow> sched_run Q s s'"
  by (induction rule: sched_run.induct) (auto intro: sched_run.intros)

lemma ex_early:
  "sched_run (\<lambda>_ _. True) ex_sched (ex_fired\<lparr>m_queue := [], m_counter := 2, fired := 0,
     running := [ex_task1, ex_task2], added := [ex_task1, ex_task2],
     started := [(ex_task1, 10000001), (ex_task2, 10000001)]\<rparr>)" (is "sched_run _ _ ?s7")
proof -
  let ?R = "sched_run (\<lambda>_ _. True) ex_sched"
  let ?s4 = "ex_fired\<lparr>m_queue := [ex_task2, ex_task1], m_counter := 2, armed := Some 10000001,
    added := [ex_task1, ex_task2]\<rparr>"
  let ?s5 = "?s4\<lparr>armed := None, fired := 2\<rparr>"
  let ?s6 = "?s5\<lparr>m_queue := [ex_task2], fired := 1, running := [ex_task1], started := [(ex_task1, 10000001)]\<rparr>"
  have r3: "?R ex_fired" using ex_fired_reached by (rule sched_run_mono) simp
  have t4: "sched_step ex_fired (Add 2 3600) ?s4"
    by (rule sched_step.add [where tp = 1]) (simp_all add: sched_compute ex_fired_def)
  have t5: "sched_step ?s4 Fire ?s5" using sched_step.fire [of ?s4 10000001] by (simp add: ex_fired_def numeral_2_eq_2)
  have t6: "sched_step ?s5 Begin ?s6"
    using sched_step.beginning [of ?s5 1 1] by (simp add: sched_compute ex_fired_def)
  have t7: "sched_step ?s6 Begin ?s7"
    using sched_step.beginning [of ?s6 0 0] by (simp add: sched_compute ex_fired_def)
  from sched_run.step [OF sched_run.step [OF sched_run.step [OF sched_run.step [OF r3 _ t4] _ t5] _ t6] _ t7]
  show ?thesis by simp
qed

section \<open>Properties\<close>

text \<open>
  C30. In every run of the scheduler each added task is either still queued or was started exactly once, the counter
  is the number of tasks that have not returned, \<open>timer_settime\<close> never fails, and no task is forgotten: while
  one is queued the timer is armed, a timer thread is about to take a task, or a running task will set the timer again.
\<close>

theorem scheduler_loses_no_task:
  assumes "new_Scheduler True now = Inr s0" and "0 < now" and "sched_run (\<lambda>_ _. True) s0 s"
  shows "mset (added s) = mset (m_queue s) + mset (map fst (started s)) \<and>
    unat (m_counter s) = length (m_queue s) + length (running s) \<and>
    (m_queue s \<noteq> [] \<longrightarrow> armed s \<noteq> None \<or> 0 < fired s \<or> running s \<noteq> []) \<and>
    (\<exists>tp. is_top SchedTask_less (m_queue (emplace a ms s)) tp) \<and>
    (\<forall>tp. is_top SchedTask_less (m_queue (emplace a ms s)) tp \<longrightarrow> (\<exists>s'. AddTask tp a ms s = Inr s'))"
proof -
  have inv: "sched_inv s" using assms by (blast intro: sched_inv_run)
  then have "unat (m_counter s) = length (m_queue s) + length (running s)"
    by (simp add: sched_inv_def unat_of_nat take_bit_nat_eq_self_iff del: of_nat_add)
  moreover have "m_queue (emplace a ms s) \<noteq> []" by (simp add: emplace_def pq_push_def Let_def)
  ultimately show ?thesis
    using inv AddTask_eq [OF inv] SchedTask_top_exists by (simp add: sched_inv_def) blast
qed

text \<open>
  C31. When the thread a timer expiry starts takes its task before anything else sets the timer, no task is started
  before its time.
\<close>

theorem prompt_scheduler_never_early:
  assumes "new_Scheduler True now = Inr s0" and "0 < now" and "sched_run prompt s0 s"
    and "(task, at) \<in> set (started s)"
  shows "m_time_to_run task \<le> at"
  using prompt_inv_run [OF assms(3,1,2)] assms(4) by (auto simp: prompt_inv_def)

text \<open>
  Without that, a task can run long before its time: an \<open>AddTask\<close> between the expiry and the thread's lock
  arms the timer for the past, and the second thread this starts takes the new task at once.
\<close>

theorem scheduler_can_run_early:
  "\<exists>s0 s :: nat Scheduler. new_Scheduler True 1 = Inr s0 \<and> sched_run (\<lambda>_ _. True) s0 s \<and> clock s = 10000001 \<and>
    (\<lparr>m_task = 2, m_time_to_run = 3610000001\<rparr>, 10000001) \<in> set (started s)"
proof -
  have "new_Scheduler True 1 = Inr ex_sched" by (simp add: new_Scheduler_def ex_sched_def)
  then show ?thesis
    by (intro exI conjI, assumption) (rule ex_early, simp_all add: ex_fired_def ex_task2_def)
qed

text \<open>
  The destructor of the scheduler drops the tasks that have not started and does not wait for the one that is running:
  when that task returns, its thread takes the lock of the destroyed object and decrements its counter, which wraps
  around.
\<close>

lemma pop_all_empty [simp]: "pop_all q = []"
  by (induction q) simp_all

theorem scheduler_destructor_does_not_wait:
  assumes "i < length (running s)"
  shows "m_queue (Scheduler_delete s) = [] \<and> armed (Scheduler_delete s) = None \<and>
    running (Scheduler_delete s) = running s \<and>
    RunTask_begin tp (Scheduler_delete s) = Scheduler_delete s \<and>
    RunTask_end tp i (Scheduler_delete s) =
      Inr ((Scheduler_delete s)\<lparr>m_counter := - 1, running := remove_at i (running s)\<rparr>)"
  using assms by (simp add: Scheduler_delete_def RunTask_begin_def RunTask_end_def IsEmpty_def)


section \<open>Witnesses\<close>

lemma ex_sched_new: "new_Scheduler True 1 = Inr ex_sched"
  by (simp add: new_Scheduler_def ex_sched_def)

theorem scheduler_loses_no_task_witness:
  "\<exists>s. sched_run (\<lambda>_ _. True) ex_sched s \<and> unat (m_counter s) = 2 \<and> length (running s) = 2 \<and>
    mset (added s) = mset (m_queue s) + mset (map fst (started s))"
  by (rule exI, rule conjI [OF ex_early])
    (use scheduler_loses_no_task [OF ex_sched_new _ ex_early] in \<open>simp add: ex_fired_def\<close>)

theorem prompt_scheduler_never_early_witness:
  "\<exists>s. sched_run prompt ex_sched s \<and> (ex_task1, 10000001) \<in> set (started s) \<and> m_time_to_run ex_task1 \<le> 10000001"
proof -
  let ?s = "ex_fired\<lparr>m_queue := [], fired := 0, running := [ex_task1], started := [(ex_task1, 10000001)]\<rparr>"
  have "sched_step ex_fired Begin ?s"
    using sched_step.beginning [of ex_fired 0 0] by (simp add: sched_compute ex_fired_def)
  then have r: "sched_run prompt ex_sched ?s"
    by (rule sched_run.step [OF ex_fired_reached, rotated]) (simp add: prompt_def)
  have "m_time_to_run ex_task1 \<le> 10000001" by (rule prompt_scheduler_never_early [OF ex_sched_new _ r]) simp_all
  with r show ?thesis by (intro exI [of _ ?s]) simp
qed

theorem scheduler_destructor_does_not_wait_witness:
  "RunTask_end 0 0 (Scheduler_delete (ex_sched\<lparr>running := [ex_task1], m_counter := 1\<rparr>)) =
     Inr (ex_sched\<lparr>m_counter := - 1\<rparr>)"
proof -
  let ?s = "ex_sched\<lparr>running := [ex_task1], m_counter := 1\<rparr>"
  have "RunTask_end 0 0 (Scheduler_delete ?s) =
      Inr ((Scheduler_delete ?s)\<lparr>m_counter := - 1, running := remove_at 0 (running ?s)\<rparr>)"
    using scheduler_destructor_does_not_wait [of 0 ?s 0] by simp
  then show ?thesis by (simp add: Scheduler_delete_def ex_sched_def remove_at_def)
qed


end
