(* ===== verification/Reactors.thy ===== *)
theory Reactors
  imports Iot_Prelude "HOL-Library.Product_Lexorder"
begin

text \<open>
  \<open>framework/src/listener.cpp\<close> and \<open>framework/src/reactor.cpp\<close>: the event loop of both programs.  \<open>Listen\<close> turns a list
  of descriptors with a mode each into the list of those \<open>select\<close> finds ready; the reactor calls the function that is
  registered for each.  A registered function is a name here, and \<open>call\<close> says what it does to the reactor and to the
  rest of the program: functions register, unregister and stop while the reactor runs.
\<close>

section \<open>Modes\<close>

datatype Mode = WRITE | READ

instantiation Mode :: linorder
begin

definition less_eq_Mode :: "Mode \<Rightarrow> Mode \<Rightarrow> bool" where
  "less_eq_Mode a b \<longleftrightarrow> a = WRITE \<or> b = READ"

definition less_Mode :: "Mode \<Rightarrow> Mode \<Rightarrow> bool" where
  "less_Mode a b \<longleftrightarrow> a = WRITE \<and> b = READ"

instance
proof
  fix a b c :: Mode
  show "a < b \<longleftrightarrow> a \<le> b \<and> \<not> b \<le> a" by (cases a; cases b) (simp_all add: less_eq_Mode_def less_Mode_def)
  show "a \<le> a" by (cases a) (simp_all add: less_eq_Mode_def)
  show "a \<le> b \<Longrightarrow> b \<le> c \<Longrightarrow> a \<le> c" by (cases a; cases b) (simp_all add: less_eq_Mode_def)
  show "a \<le> b \<Longrightarrow> b \<le> a \<Longrightarrow> a = b" by (cases a; cases b) (simp_all add: less_eq_Mode_def)
  show "a \<le> b \<or> b \<le> a" by (cases a; cases b) (simp_all add: less_eq_Mode_def)
qed

end

type_synonym fd_mode = "int \<times> Mode"

section \<open>Listening\<close>

text \<open>\<open>FD_SET\<close> on a descriptor outside the set's bits writes past it.\<close>

abbreviation FD_SETSIZE :: int where
  "FD_SETSIZE \<equiv> 1024"

definition FD_SET :: "int \<Rightarrow> int set \<Rightarrow> int set res" where
  "FD_SET fd s = (if 0 \<le> fd \<and> fd < FD_SETSIZE then Inr (insert fd s) else Inl (UB OutOfBoundsWrite))"

definition next_max :: "int \<Rightarrow> int \<Rightarrow> int" where
  "next_max max_fd fd = max_fd * of_bool (max_fd > fd) + fd * of_bool (max_fd \<le> fd)"

fun fill_sets :: "fd_mode list \<Rightarrow> int set \<Rightarrow> int set \<Rightarrow> int \<Rightarrow> (int set \<times> int set \<times> int) res" where
  "fill_sets [] read_fds write_fds max_fd = Inr (read_fds, write_fds, max_fd)"
| "fill_sets ((fd, mode) # fd_list) read_fds write_fds max_fd =
     rbind (FD_SET fd (if mode = READ then read_fds else write_fds)) (\<lambda>s.
     fill_sets fd_list (if mode = READ then s else read_fds) (if mode = READ then write_fds else s)
       (next_max max_fd fd))"

text \<open>
  \<open>select\<close> without a timeout: it fails, or leaves in each set the descriptors below \<open>nfds\<close> that are ready.
  \<open>ready\<close> is the state of the descriptors when it returns, \<open>None\<close> a failure.
\<close>

definition select :: "(fd_mode \<Rightarrow> bool) option \<Rightarrow> int \<Rightarrow> int set \<Rightarrow> int set \<Rightarrow> (int set \<times> int set) option" where
  "select ready nfds read_fds write_fds =
     map_option (\<lambda>rd. (Set.filter (\<lambda>fd. fd < nfds \<and> rd (fd, READ)) read_fds,
       Set.filter (\<lambda>fd. fd < nfds \<and> rd (fd, WRITE)) write_fds)) ready"

definition Listen :: "(fd_mode \<Rightarrow> bool) option \<Rightarrow> fd_mode list \<Rightarrow> fd_mode list res" where
  "Listen ready fd_list =
     rbind (fill_sets fd_list {} {} 0) (\<lambda>(read_fds, write_fds, max_fd).
     case select ready (max_fd + 1) read_fds write_fds of
       None \<Rightarrow> Inl (Throw (runtime_error ''select failed''))
     | Some (read_fds, write_fds) \<Rightarrow>
         Inr (filter (\<lambda>(fd, mode). fd \<in> read_fds \<or> fd \<in> write_fds) fd_list))"

section \<open>The reactor\<close>

text \<open>\<open>m_listen_funcs\<close> is a \<open>std::map\<close>: an association list in the order of its keys.\<close>

record ('f, 'w) Reactor =
  m_listen_funcs :: "(fd_mode \<times> 'f) list"
  m_running :: bool
  world :: 'w

definition new_Reactor :: "'w \<Rightarrow> ('f, 'w) Reactor" where
  "new_Reactor w = \<lparr>m_listen_funcs = [], m_running = False, world = w\<rparr>"

definition Register :: "int \<Rightarrow> Mode \<Rightarrow> 'f \<Rightarrow> ('f, 'w) Reactor \<Rightarrow> ('f, 'w) Reactor" where
  "Register fd mode func r =
     (case map_of (m_listen_funcs r) (fd, mode) of
        Some _ \<Rightarrow> r
      | None \<Rightarrow> r\<lparr>m_listen_funcs := insort_key fst ((fd, mode), func) (m_listen_funcs r)\<rparr>)"

definition Unregister :: "int \<Rightarrow> Mode \<Rightarrow> ('f, 'w) Reactor \<Rightarrow> ('f, 'w) Reactor" where
  "Unregister fd mode r = r\<lparr>m_listen_funcs := filter (\<lambda>(key, _). key \<noteq> (fd, mode)) (m_listen_funcs r)\<rparr>"

definition Reactor_Stop :: "('f, 'w) Reactor \<Rightarrow> ('f, 'w) Reactor" where
  "Reactor_Stop r = r\<lparr>m_running := False\<rparr>"

fun call_selected :: "('f \<Rightarrow> fd_mode \<Rightarrow> ('f, 'w) Reactor \<Rightarrow> ('f, 'w) Reactor res) \<Rightarrow> fd_mode list
    \<Rightarrow> ('f, 'w) Reactor \<Rightarrow> ('f, 'w) Reactor res" where
  "call_selected call [] r = Inr r"
| "call_selected call (p # selected_fds) r =
     (case map_of (m_listen_funcs r) p of
        None \<Rightarrow> Inl (Throw (out_of_range ''map::at''))
      | Some func \<Rightarrow> rbind (call func p r) (call_selected call selected_fds))"

text \<open>One turn of the loop; \<open>ready\<close> is what \<open>select\<close> finds.\<close>

definition turn :: "('f \<Rightarrow> fd_mode \<Rightarrow> ('f, 'w) Reactor \<Rightarrow> ('f, 'w) Reactor res) \<Rightarrow> (fd_mode \<Rightarrow> bool) option
    \<Rightarrow> ('f, 'w) Reactor \<Rightarrow> ('f, 'w) Reactor res" where
  "turn call ready r =
     (let fd_list = map fst (m_listen_funcs r)
      in rbind (Listen ready fd_list) (\<lambda>selected_fds. call_selected call selected_fds r))"

text \<open>
  The loop over what \<open>select\<close> finds turn by turn: \<open>None\<close> when it is still running, in \<open>select\<close>, at the end of the list.
\<close>

fun Run_loop :: "('f \<Rightarrow> fd_mode \<Rightarrow> ('f, 'w) Reactor \<Rightarrow> ('f, 'w) Reactor res) \<Rightarrow> (fd_mode \<Rightarrow> bool) option list
    \<Rightarrow> ('f, 'w) Reactor \<Rightarrow> ('f, 'w) Reactor res option" where
  "Run_loop call readies r =
     (if \<not> m_running r then Some (Inr r)
      else case readies of
        [] \<Rightarrow> None
      | ready # readies \<Rightarrow>
          (case turn call ready r of Inl e \<Rightarrow> Some (Inl e) | Inr r \<Rightarrow> Run_loop call readies r))"

definition Reactor_Run :: "('f \<Rightarrow> fd_mode \<Rightarrow> ('f, 'w) Reactor \<Rightarrow> ('f, 'w) Reactor res) \<Rightarrow> (fd_mode \<Rightarrow> bool) option list
    \<Rightarrow> ('f, 'w) Reactor \<Rightarrow> ('f, 'w) Reactor res option" where
  "Reactor_Run call readies r = Run_loop call readies (r\<lparr>m_running := True\<rparr>)"

section \<open>What is listened to\<close>

lemma next_max [simp]: "next_max m fd = max m fd"
  by (simp add: next_max_def max_def)

definition listenable :: "fd_mode list \<Rightarrow> bool" where
  "listenable fds \<longleftrightarrow> list_all (\<lambda>(fd, _). 0 \<le> fd \<and> fd < FD_SETSIZE) fds"

lemma fill_sets_eq:
  "listenable fds \<Longrightarrow> fill_sets fds R W m =
    Inr (R \<union> {fd. (fd, READ) \<in> set fds}, W \<union> {fd. (fd, WRITE) \<in> set fds}, foldl max m (map fst fds))"
proof (induction fds R W m rule: fill_sets.induct)
  case (2 fd mode fds R W m)
  then show ?case by (cases mode) (auto simp: listenable_def FD_SET_def rbind_def)
qed (simp add: listenable_def)

lemma foldl_max: "fd \<in> set fds \<Longrightarrow> fd \<le> foldl max (m :: int) fds"
proof (induction fds arbitrary: m)
  case (Cons x xs)
  have ge: "k \<le> foldl max k ys" for k and ys :: "int list"
  proof (induction ys arbitrary: k)
    case (Cons y ys)
    from Cons [of "max k y"] show ?case by simp
  qed simp
  from Cons ge [of "max m x" xs] show ?case by auto
qed simp

lemma Listen_ready:
  assumes "listenable fds"
  shows "Listen (Some rd) fds =
    Inr (filter (\<lambda>(fd, _). (fd, READ) \<in> set fds \<and> rd (fd, READ) \<or> (fd, WRITE) \<in> set fds \<and> rd (fd, WRITE)) fds)"
proof -
  have "fd < foldl max 0 (map fst fds) + 1" if "(fd, mode) \<in> set fds" for fd mode
    using foldl_max [of fd "map fst fds" 0] that by force
  then show ?thesis
    by (auto simp: Listen_def fill_sets_eq [OF assms] rbind_def select_def intro!: filter_cong)
qed

section \<open>The registry\<close>

definition registry_ok :: "('f, 'w) Reactor \<Rightarrow> bool" where
  "registry_ok r \<longleftrightarrow> sorted (map fst (m_listen_funcs r)) \<and> distinct (map fst (m_listen_funcs r))"

abbreviation registered :: "('f, 'w) Reactor \<Rightarrow> fd_mode \<Rightarrow> 'f option" where
  "registered r \<equiv> map_of (m_listen_funcs r)"

lemma registry_ok_new [simp]: "registry_ok (new_Reactor w)"
  by (simp add: registry_ok_def new_Reactor_def)

lemma map_of_insort: "k \<notin> fst ` set xs \<Longrightarrow> map_of (insort_key fst (k, v) xs) = (map_of xs)(k \<mapsto> v)"
  by (induction xs) auto

lemma map_of_filter_key: "map_of (filter (\<lambda>(key, _). key \<noteq> k) xs) = (map_of xs)(k := None)"
  by (induction xs) auto

lemma registered_Register:
  "registered (Register fd mode func r) =
    (if registered r (fd, mode) = None then (registered r)((fd, mode) \<mapsto> func) else registered r)"
  by (cases "registered r (fd, mode)") (simp_all add: Register_def map_of_insort map_of_eq_None_iff [THEN iffD1])

lemma registered_Unregister: "registered (Unregister fd mode r) = (registered r)((fd, mode) := None)"
  by (simp add: Unregister_def map_of_filter_key)

lemma registry_ok_Register: "registry_ok r \<Longrightarrow> registry_ok (Register fd mode func r)"
  by (auto simp: registry_ok_def Register_def sorted_insort_key distinct_insort_key map_of_eq_None_iff
      split: option.split)

lemma registry_ok_Unregister: "registry_ok r \<Longrightarrow> registry_ok (Unregister fd mode r)"
  by (auto simp: registry_ok_def Unregister_def sorted_filter distinct_map_filter)

text \<open>The registry as its users see it: the first registration of a descriptor and mode holds until it is undone.\<close>

datatype 'f registration = Reg int Mode 'f | Unreg int Mode

primrec register_op :: "'f registration \<Rightarrow> ('f, 'w) Reactor \<Rightarrow> ('f, 'w) Reactor" where
  "register_op (Reg fd mode func) r = Register fd mode func r"
| "register_op (Unreg fd mode) r = Unregister fd mode r"

primrec register_spec :: "'f registration \<Rightarrow> (fd_mode \<Rightarrow> 'f option) \<Rightarrow> fd_mode \<Rightarrow> 'f option" where
  "register_spec (Reg fd mode func) m = (if m (fd, mode) = None then m((fd, mode) \<mapsto> func) else m)"
| "register_spec (Unreg fd mode) m = m((fd, mode) := None)"

lemma register_op_refines: "registered (register_op op r) = register_spec op (registered r)"
  by (cases op) (simp_all add: registered_Register registered_Unregister)

lemma register_op_ok: "registry_ok r \<Longrightarrow> registry_ok (register_op op r)"
  by (cases op) (simp_all add: registry_ok_Register registry_ok_Unregister)

section \<open>A turn\<close>

text \<open>What a turn is meant to do: call some registered functions one after the other.\<close>

fun run_calls :: "('f \<Rightarrow> fd_mode \<Rightarrow> ('f, 'w) Reactor \<Rightarrow> ('f, 'w) Reactor res) \<Rightarrow> (fd_mode \<times> 'f) list
    \<Rightarrow> ('f, 'w) Reactor \<Rightarrow> ('f, 'w) Reactor res" where
  "run_calls call [] r = Inr r"
| "run_calls call ((p, func) # fs) r = rbind (call func p r) (run_calls call fs)"

text \<open>Functions that neither register nor unregister.\<close>

definition keeps_registry :: "('f \<Rightarrow> fd_mode \<Rightarrow> ('f, 'w) Reactor \<Rightarrow> ('f, 'w) Reactor res) \<Rightarrow> bool" where
  "keeps_registry call \<longleftrightarrow> (\<forall>func p r r'. call func p r = Inr r' \<longrightarrow> m_listen_funcs r' = m_listen_funcs r)"

lemma call_selected_run_calls:
  assumes "keeps_registry call" and "\<forall>(p, func) \<in> set fs. registered r p = Some func"
  shows "call_selected call (map fst fs) r = run_calls call fs r"
  using assms(2)
proof (induction fs arbitrary: r)
  case (Cons pf fs)
  obtain p func where pf: "pf = (p, func)" by (cases pf)
  have "call_selected call (map fst fs) r' = run_calls call fs r'" if "call func p r = Inr r'" for r'
  proof (rule Cons.IH)
    have "m_listen_funcs r' = m_listen_funcs r" using that assms(1) by (simp only: keeps_registry_def)
    with Cons.prems show "\<forall>(p, func) \<in> set fs. registered r' p = Some func" by simp
  qed
  with Cons.prems pf show ?case by (auto simp: rbind_def split: sum.split)
qed simp

lemma filter_one_mode:
  assumes "distinct (map fst fds)" and "(fd, mode) \<in> set fds"
  shows "(fd, READ) \<in> set fds \<and> rd (fd, READ) \<or> (fd, WRITE) \<in> set fds \<and> rd (fd, WRITE) \<longleftrightarrow> rd (fd, mode)"
proof -
  have "(fd, m) \<in> set fds \<longleftrightarrow> m = mode" for m using assms by (meson eq_key_imp_eq_value)
  then show ?thesis by (cases mode) auto
qed

lemma Listen_one_mode:
  assumes "listenable fds" and "distinct (map fst fds)"
  shows "Listen (Some rd) fds = Inr (filter rd fds)"
  using filter_one_mode [OF assms(2)] by (auto simp: Listen_ready [OF assms(1)] intro!: filter_cong)

text \<open>A turn calls the functions of the ready descriptors.\<close>

lemma turn_run_calls:
  assumes "registry_ok r" and "listenable (map fst (m_listen_funcs r))"
    and "distinct (map (fst \<circ> fst) (m_listen_funcs r))" and "keeps_registry call"
  shows "turn call (Some rd) r = run_calls call (filter (\<lambda>(p, _). rd p) (m_listen_funcs r)) r"
proof -
  have "Listen (Some rd) (map fst (m_listen_funcs r)) = Inr (filter rd (map fst (m_listen_funcs r)))"
    using Listen_one_mode [OF assms(2)] assms(3) by simp
  moreover have "filter rd (map fst (m_listen_funcs r)) = map fst (filter (\<lambda>(p, _). rd p) (m_listen_funcs r))"
    by (simp add: filter_map comp_def case_prod_unfold)
  moreover have "\<forall>(p, func) \<in> set (filter (\<lambda>(p, _). rd p) (m_listen_funcs r)). registered r p = Some func"
    using assms(1) by (auto simp: registry_ok_def)
  ultimately show ?thesis
    using call_selected_run_calls [OF assms(4)] by (simp add: turn_def Let_def rbind_def)
qed

section \<open>Properties\<close>

text \<open>
  \<open>Listen\<close> returns, in the order they were passed, exactly the pairs that are ready when every descriptor is
  passed with one mode only; a descriptor passed with both is returned with both as soon as one of them is ready.
\<close>

theorem listen_returns_ready:
  assumes "listenable fds"
  shows "(distinct (map fst fds) \<longrightarrow> Listen (Some rd) fds = Inr (filter rd fds)) \<and>
    (\<exists>sel. Listen (Some rd) fds = Inr sel \<and>
      ((fd, READ) \<in> set fds \<and> (fd, WRITE) \<in> set fds \<longrightarrow>
        ((fd, mode) \<in> set sel \<longleftrightarrow> rd (fd, READ) \<or> rd (fd, WRITE)))) \<and>
    Listen None fds = Inl (Throw (runtime_error ''select failed''))"
  using Listen_one_mode [OF assms] Listen_ready [OF assms, of rd]
  by (cases mode) (auto simp: Listen_def fill_sets_eq [OF assms] rbind_def select_def)

text \<open>
  The registry of the reactor behaves as a map from descriptor and mode to the function first registered: over any
  sequence of \<open>Register\<close> and \<open>Unregister\<close> a second registration is ignored, and the keys stay sorted and distinct.
\<close>

theorem reactor_registry_refines_map:
  "registry_ok (fold register_op ops (new_Reactor w)) \<and>
   registered (fold register_op ops (new_Reactor w)) = fold register_spec ops Map.empty"
proof -
  have "registry_ok (fold register_op ops r) \<and>
      registered (fold register_op ops r) = fold register_spec ops (registered r)" if "registry_ok r"
    for r :: "('a, 'b) Reactor"
    using that
  proof (induction ops arbitrary: r)
    case (Cons op ops)
    from Cons.IH [OF register_op_ok [OF Cons.prems, of op]] show ?case by (simp add: register_op_refines)
  qed simp
  from this [OF registry_ok_new, of w] show ?thesis by (simp add: new_Reactor_def)
qed

text \<open>
  One turn of the reactor's loop calls the functions of the ready descriptors, each once and in the order of the
  keys, provided the functions leave the registrations alone and no descriptor is registered with both modes.
\<close>

theorem reactor_turn_calls_ready:
  assumes "registry_ok r" and "listenable (map fst (m_listen_funcs r))"
    and "distinct (map (fst \<circ> fst) (m_listen_funcs r))" and "keeps_registry call"
  shows "turn call (Some rd) r = run_calls call (filter (\<lambda>(p, _). rd p) (m_listen_funcs r)) r"
  by (rule turn_run_calls [OF assms])

text \<open>
  A function that unregisters a descriptor that is selected later in the same turn makes \<open>at\<close> throw, which ends the loop.
\<close>

theorem unregister_in_turn_throws:
  assumes "Listen (Some rd) (map fst (m_listen_funcs r)) = Inr (p # (fd, mode) # rest)"
    and "registered r p = Some func" and "call func p r = Inr (Unregister fd mode r')"
  shows "turn call (Some rd) r = Inl (Throw (out_of_range ''map::at''))"
  using assms by (simp add: turn_def rbind_def registered_Unregister)

section \<open>Witnesses\<close>

definition ex_call :: "nat \<Rightarrow> fd_mode \<Rightarrow> (nat, nat list) Reactor \<Rightarrow> (nat, nat list) Reactor res" where
  "ex_call func p r = Inr (r\<lparr>world := world r @ [func]\<rparr>)"

definition ex_reactor :: "(nat, nat list) Reactor" where
  "ex_reactor = Register 3 READ 30 (Register 5 WRITE 50 (Register 4 READ 40 (new_Reactor [])))"

lemma ex_reactor_funcs: "m_listen_funcs ex_reactor = [((3, READ), 30), ((4, READ), 40), ((5, WRITE), 50)]"
  by (simp add: ex_reactor_def Register_def new_Reactor_def)

theorem listen_returns_ready_witness:
  "Listen (Some (\<lambda>p. p = (3, READ))) [(3, READ), (4, READ)] = Inr [(3, READ)] \<and>
   (\<exists>sel. Listen (Some (\<lambda>p. p = (3, READ))) [(3, READ), (3, WRITE)] = Inr sel \<and> (3, WRITE) \<in> set sel)"
  using listen_returns_ready [of "[(3, READ), (4, READ)]" "\<lambda>p. p = (3, READ)"]
    listen_returns_ready [of "[(3, READ), (3, WRITE)]" "\<lambda>p. p = (3, READ)" 3 WRITE]
  by (auto simp: listenable_def)

theorem reactor_turn_calls_ready_witness:
  "turn ex_call (Some (\<lambda>p. fst p \<noteq> 4)) ex_reactor = Inr (ex_reactor\<lparr>world := [30, 50]\<rparr>)"
proof -
  have "registry_ok ex_reactor" "listenable (map fst (m_listen_funcs ex_reactor))"
    "distinct (map (fst \<circ> fst) (m_listen_funcs ex_reactor))"
    by (simp_all add: registry_ok_def ex_reactor_funcs listenable_def less_eq_Mode_def)
  moreover have "keeps_registry ex_call" by (auto simp: keeps_registry_def ex_call_def)
  moreover have "world ex_reactor = []" by (simp add: ex_reactor_def Register_def new_Reactor_def)
  ultimately show ?thesis
    using reactor_turn_calls_ready [of ex_reactor ex_call "\<lambda>p. fst p \<noteq> 4"]
    by (simp add: ex_reactor_funcs ex_call_def rbind_def)
qed

end
