(* ===== verification/Dispatchers.thy ===== *)
theory Dispatchers
  imports Cpp_Monad
begin

text \<open>
  \<open>framework/include/dispatcher.hpp\<close>: a dispatcher holds a list of pointers to callbacks and a callback
  holds one pointer back to a dispatcher.  Objects are numbered; \<open>dispatchers\<close> gives the registration
  list of each live dispatcher and \<open>callbacks\<close> the back pointer of each live callback (\<open>None\<close> for
  null).  A callback that was never registered has an indeterminate back pointer in the sources; it
  enters this model when it is first registered.
\<close>

section \<open>Model\<close>

record disp_world =
  dispatchers :: "nat \<rightharpoonup> nat list"
  callbacks :: "nat \<rightharpoonup> nat option"

definition Dispatcher_new :: "nat \<Rightarrow> disp_world \<Rightarrow> disp_world" where
  "Dispatcher_new d w = w\<lparr>dispatchers := (dispatchers w)(d \<mapsto> [])\<rparr>"

definition SetDispatcher :: "nat \<Rightarrow> nat option \<Rightarrow> disp_world \<Rightarrow> disp_world" where
  "SetDispatcher c p w = w\<lparr>callbacks := (callbacks w)(c \<mapsto> p)\<rparr>"

definition reg_list :: "nat \<Rightarrow> disp_world \<Rightarrow> nat list" where
  "reg_list d w = (case dispatchers w d of None \<Rightarrow> [] | Some cs \<Rightarrow> cs)"

definition set_reg_list :: "nat \<Rightarrow> nat list \<Rightarrow> disp_world \<Rightarrow> disp_world" where
  "set_reg_list d cs w = w\<lparr>dispatchers := (dispatchers w)(d \<mapsto> cs)\<rparr>"

definition Register :: "nat \<Rightarrow> nat \<Rightarrow> disp_world \<Rightarrow> disp_world" where
  "Register d c w =
     (let w = SetDispatcher c (Some d) w in set_reg_list d (reg_list d w @ [c]) w)"

definition Unregister :: "nat \<Rightarrow> nat \<Rightarrow> disp_world \<Rightarrow> disp_world" where
  "Unregister d c w =
     (let w = SetDispatcher c None w in set_reg_list d (removeAll c (reg_list d w)) w)"

text \<open>
  \<open>Notify\<close> walks a copy of the list, so what the callbacks do to the list does not change who is
  called; the result is the calls made, in order.
\<close>

definition Notify :: "nat \<Rightarrow> 'e \<Rightarrow> disp_world \<Rightarrow> (nat \<times> 'e) list" where
  "Notify d event w = map (\<lambda>c. (c, event)) (reg_list d w)"

text \<open>\<open>~Dispatcher\<close>: \<open>NotifyDeath\<close> and a null back pointer for every registered callback.\<close>

definition Dispatcher_delete :: "nat \<Rightarrow> disp_world \<Rightarrow> disp_world \<times> nat list" where
  "Dispatcher_delete d w =
     (let list_copy = reg_list d w;
          w = fold (\<lambda>c. SetDispatcher c None) list_copy w
      in (w\<lparr>dispatchers := (dispatchers w)(d := None)\<rparr>, list_copy))"

text \<open>\<open>~ACallback\<close>: unregisters at the dispatcher of the back pointer, if there is one.\<close>

definition ACallback_delete :: "nat \<Rightarrow> disp_world \<Rightarrow> disp_world" where
  "ACallback_delete c w =
     (let w = (case callbacks w c of Some (Some d) \<Rightarrow> Unregister d c w | _ \<Rightarrow> w)
      in w\<lparr>callbacks := (callbacks w)(c := None)\<rparr>)"

text \<open>
  \<open>Callback\<close>: a member function and the object to call it on, together a run on the state \<open>'s\<close> of the program, and a
  second member function that may be missing.  \<open>Notify_run\<close> and \<open>NotifyDeath_run\<close> are the two loops over the copy of the
  list.
\<close>

record ('s, 'e) Callback =
  cb_notify :: "'e \<Rightarrow> ('s, unit) cpp"
  cb_notify_death :: "('s, unit) cpp option"

definition new_Callback :: "('e \<Rightarrow> ('s, unit) cpp) \<Rightarrow> ('s, unit) cpp option \<Rightarrow> ('s, 'e) Callback" where
  "new_Callback notify notify_death = \<lparr>cb_notify = notify, cb_notify_death = notify_death\<rparr>"

definition Callback_Notify :: "('s, 'e) Callback \<Rightarrow> 'e \<Rightarrow> ('s, unit) cpp" where
  "Callback_Notify cb arg = cb_notify cb arg"

definition Callback_NotifyDeath :: "('s, 'e) Callback \<Rightarrow> ('s, unit) cpp" where
  "Callback_NotifyDeath cb = (case cb_notify_death cb of None \<Rightarrow> cret () | Some notify_death \<Rightarrow> notify_death)"

definition Notify_run :: "(nat \<Rightarrow> ('s, 'e) Callback) \<Rightarrow> nat \<Rightarrow> 'e \<Rightarrow> disp_world \<Rightarrow> ('s, unit) cpp" where
  "Notify_run cbs d event w = cforeach (\<lambda>(c, ev). Callback_Notify (cbs c) ev) (Notify d event w)"

definition NotifyDeath_run :: "(nat \<Rightarrow> ('s, 'e) Callback) \<Rightarrow> nat \<Rightarrow> disp_world \<Rightarrow> ('s, unit) cpp" where
  "NotifyDeath_run cbs d w = cforeach (\<lambda>c. Callback_NotifyDeath (cbs c)) (snd (Dispatcher_delete d w))"

section \<open>Invariant\<close>

text \<open>Well-linked: a callback's back pointer names a dispatcher exactly when that one lists it.\<close>

definition well_linked :: "disp_world \<Rightarrow> bool" where
  "well_linked w \<longleftrightarrow> (\<forall>c d. callbacks w c = Some (Some d) \<longleftrightarrow> c \<in> set (reg_list d w))"

text \<open>The memory-safety condition alone: no list holds a pointer to a callback that is gone.\<close>

definition no_dangling :: "disp_world \<Rightarrow> bool" where
  "no_dangling w \<longleftrightarrow> (\<forall>d c. c \<in> set (reg_list d w) \<longrightarrow> callbacks w c \<noteq> None)"

lemma reg_list_set [simp]: "reg_list d (set_reg_list e cs w) = (if d = e then cs else reg_list d w)"
  by (simp add: reg_list_def set_reg_list_def)

lemma reg_list_SetDispatcher [simp]: "reg_list d (SetDispatcher c p w) = reg_list d w"
  by (simp add: reg_list_def SetDispatcher_def)

lemma callbacks_set_reg_list [simp]: "callbacks (set_reg_list d cs w) = callbacks w"
  by (simp add: set_reg_list_def)

lemma callbacks_SetDispatcher [simp]: "callbacks (SetDispatcher c p w) = (callbacks w)(c \<mapsto> p)"
  by (simp add: SetDispatcher_def)

lemma dispatchers_SetDispatcher [simp]: "dispatchers (SetDispatcher c p w) = dispatchers w"
  by (simp add: SetDispatcher_def)

lemma fold_SetDispatcher:
  "callbacks (fold (\<lambda>c. SetDispatcher c None) cs w) c =
     (if c \<in> set cs then Some None else callbacks w c)"
  "dispatchers (fold (\<lambda>c. SetDispatcher c None) cs w) = dispatchers w"
  by (induction cs arbitrary: w) auto

lemma reg_list_delete: "reg_list e (fst (Dispatcher_delete d w)) = (if e = d then [] else reg_list e w)"
  by (simp add: Dispatcher_delete_def Let_def reg_list_def fold_SetDispatcher)

lemma callbacks_delete:
  "callbacks (fst (Dispatcher_delete d w)) c =
     (if c \<in> set (reg_list d w) then Some None else callbacks w c)"
  by (simp add: Dispatcher_delete_def Let_def fold_SetDispatcher)

lemma dispatchers_set_reg_list [simp]:
  "dispatchers (set_reg_list d cs w) = (dispatchers w)(d \<mapsto> cs)"
  by (simp add: set_reg_list_def)

lemma Register_fields [simp]:
  "callbacks (Register d c w) = (callbacks w)(c \<mapsto> Some d)"
  "dispatchers (Register d c w) = (dispatchers w)(d \<mapsto> reg_list d w @ [c])"
  "reg_list e (Register d c w) = (if e = d then reg_list d w @ [c] else reg_list e w)"
  by (simp_all add: Register_def)

lemma Unregister_fields [simp]:
  "callbacks (Unregister d c w) = (callbacks w)(c \<mapsto> None)"
  "dispatchers (Unregister d c w) = (dispatchers w)(d \<mapsto> removeAll c (reg_list d w))"
  "reg_list e (Unregister d c w) = (if e = d then removeAll c (reg_list d w) else reg_list e w)"
  by (simp_all add: Unregister_def)

lemma ACallback_delete_fields:
  "callbacks (ACallback_delete c w) c' = (if c' = c then None else callbacks w c')"
  "reg_list d (ACallback_delete c w) =
     (if callbacks w c = Some (Some d) then removeAll c (reg_list d w) else reg_list d w)"
proof -
  have r: "reg_list d (w\<lparr>callbacks := f\<rparr>) = reg_list d w" for f w
    by (simp add: reg_list_def)
  show "callbacks (ACallback_delete c w) c' = (if c' = c then None else callbacks w c')"
    "reg_list d (ACallback_delete c w) =
      (if callbacks w c = Some (Some d) then removeAll c (reg_list d w) else reg_list d w)"
    by (auto simp: ACallback_delete_def r split: option.split)
qed

lemma well_linkedD: "well_linked w \<Longrightarrow> callbacks w c = Some (Some d) \<longleftrightarrow> c \<in> set (reg_list d w)"
  by (simp add: well_linked_def)

lemma well_linked_no_dangling: "well_linked w \<Longrightarrow> no_dangling w"
  by (simp add: no_dangling_def well_linkedD [symmetric])

lemma well_linked_Register:
  assumes "well_linked w" and "\<And>e. callbacks w c = Some (Some e) \<Longrightarrow> e = d"
  shows "well_linked (Register d c w)"
  using assms(2) unfolding well_linked_def
  by (auto simp: well_linkedD [OF assms(1)])

lemma well_linked_Unregister:
  assumes "well_linked w" and "callbacks w c = Some (Some d)"
  shows "well_linked (Unregister d c w)"
  using assms(2) unfolding well_linked_def
  by (auto simp: well_linkedD [OF assms(1), symmetric])

lemma well_linked_Dispatcher_delete:
  assumes "well_linked w"
  shows "well_linked (fst (Dispatcher_delete d w))"
  unfolding well_linked_def
  by (auto simp: callbacks_delete reg_list_delete well_linkedD [OF assms, symmetric])

lemma well_linked_ACallback_delete:
  assumes "well_linked w"
  shows "well_linked (ACallback_delete c w)"
  unfolding well_linked_def
  by (auto simp: ACallback_delete_fields well_linkedD [OF assms, symmetric])

section \<open>Properties\<close>

text \<open>
  C20. As long as a callback is registered with at most one dispatcher at a time, every operation
  (registering, unregistering the registered, destroying a dispatcher, destroying a callback) keeps
  the registration lists and the back pointers consistent, and so no list ever holds a pointer to a
  destroyed callback.
\<close>

theorem dispatcher_links_preserved:
  assumes "well_linked w"
  shows "((\<forall>e. callbacks w c = Some (Some e) \<longrightarrow> e = d) \<longrightarrow> well_linked (Register d c w)) \<and>
    (callbacks w c = Some (Some d) \<longrightarrow> well_linked (Unregister d c w)) \<and>
    well_linked (fst (Dispatcher_delete d w)) \<and>
    well_linked (ACallback_delete c w) \<and> no_dangling w"
  using assms well_linked_Register well_linked_Unregister well_linked_Dispatcher_delete
    well_linked_ACallback_delete well_linked_no_dangling
  by metis

theorem dispatcher_links_preserved_witness:
  "well_linked (Register 7 1 \<lparr>dispatchers = [7 \<mapsto> []], callbacks = Map.empty\<rparr>) \<and>
   reg_list 7 (Register 7 1 \<lparr>dispatchers = [7 \<mapsto> []], callbacks = Map.empty\<rparr>) = [1]"
proof -
  have "well_linked \<lparr>dispatchers = [7 \<mapsto> []], callbacks = Map.empty\<rparr>"
    by (simp add: well_linked_def reg_list_def)
  from dispatcher_links_preserved [OF this, of 1 7] show ?thesis
    by (simp add: reg_list_def)
qed

text \<open>
  A notification calls the registered callbacks in the order of registration up to the first that throws: the
  exception leaves \<open>Notify\<close>, what the callbacks before it did stays done, and the callbacks after it are not called.
\<close>

lemma cforeach_append: "cforeach f (xs @ ys) = cbind (cforeach f xs) (\<lambda>_. cforeach f ys)"
  by (induction xs) (auto simp: cbind_def cret_def fun_eq_iff split: sum.split prod.split)

theorem notify_stops_at_throw:
  assumes "reg_list d w = before @ c # rest"
    and "cforeach (\<lambda>c. Callback_Notify (cbs c) event) before s = Inr (Inr (), s1)"
    and "cb_notify (cbs c) event s1 = Inr (Inl ex, s2)"
  shows "Notify_run cbs d event w s = Inr (Inl ex, s2)"
proof -
  have m: "cforeach (\<lambda>(c, ev). Callback_Notify (cbs c) ev) (map (\<lambda>c. (c, event)) cs) =
      cforeach (\<lambda>c. Callback_Notify (cbs c) event) cs" for cs
    by (induction cs) simp_all
  from assms(2,3) show ?thesis
    unfolding Notify_run_def Notify_def m assms(1) cforeach_append by (simp add: cbind_run Callback_Notify_def)
qed

theorem notify_stops_at_throw_witness:
  "Notify_run (\<lambda>c. new_Callback (\<lambda>e n. if c = 2 then Inr (Inl bad_alloc, n) else Inr (Inr (), n + e)) None) 7 5
     \<lparr>dispatchers = [7 \<mapsto> [1, 2, 3]], callbacks = Map.empty\<rparr> (10 :: nat) = Inr (Inl bad_alloc, 15)"
  by (rule notify_stops_at_throw [where before = "[1]" and c = 2 and rest = "[3]" and ?s1.0 = 15])
    (simp_all add: reg_list_def new_Callback_def Callback_Notify_def cbind_def cret_def)

text \<open>
  One callback object registered with two dispatchers, as \<open>ResponseManager\<close> registers its single
  ticket callback with every ticket, leaves a dangling pointer in the first dispatcher's list when it
  is destroyed: the one back pointer only remembers the second.
\<close>

theorem shared_callback_dangles:
  assumes "d \<noteq> e" and "reg_list d w = []"
  shows "reg_list d (ACallback_delete c (Register e c (Register d c w))) = [c] \<and>
    \<not> no_dangling (ACallback_delete c (Register e c (Register d c w)))"
proof -
  have "reg_list d (ACallback_delete c (Register e c (Register d c w))) = [c]"
    using assms by (simp add: ACallback_delete_fields)
  moreover have "callbacks (ACallback_delete c (Register e c (Register d c w))) c = None"
    by (simp add: ACallback_delete_fields)
  ultimately show ?thesis
    unfolding no_dangling_def by (metis list.set_intros(1))
qed

theorem shared_callback_dangles_witness:
  "(0::nat) \<noteq> 1 \<and> \<not> no_dangling (ACallback_delete 5 (Register 1 5 (Register 0 5
     \<lparr>dispatchers = [0 \<mapsto> [], 1 \<mapsto> []], callbacks = Map.empty\<rparr>)))"
  using shared_callback_dangles [of 0 1 "\<lparr>dispatchers = [0 \<mapsto> [], 1 \<mapsto> []],
    callbacks = Map.empty\<rparr>" 5] by (simp add: reg_list_def)

end
