(* ===== verification/Plugins.thy ===== *)
theory Plugins
  imports Dispatchers "HOL-Library.Multiset"
begin

unbundle bit_operations_syntax

text \<open>
  \<open>framework/src/dir_monitor.cpp\<close> and \<open>framework/src/dll_loader.cpp\<close>: a thread reads the events of a directory and
  loads and unloads the shared objects that appear and disappear there.  The events are read from the bytes
  the kernel writes; \<open>dlopen\<close> is a parameter that says which files open, and a handle it returns is a fresh number.
\<close>

section \<open>The loader\<close>

record DLLLoader =
  m_dll_map :: "(string \<times> nat) list"
  open_handles :: "nat list"
  next_handle :: nat

definition new_DLLLoader :: DLLLoader where
  "new_DLLLoader = \<lparr>m_dll_map = [], open_handles = [], next_handle = 0\<rparr>"

definition dlclose :: "nat \<Rightarrow> DLLLoader \<Rightarrow> DLLLoader res" where
  "dlclose h l = (if h \<in> set (open_handles l) then Inr (l\<lparr>open_handles := remove1 h (open_handles l)\<rparr>)
     else Inl (UB BadHandle))"

definition dlopen :: "(string \<Rightarrow> bool) \<Rightarrow> string \<Rightarrow> DLLLoader \<Rightarrow> (nat \<times> DLLLoader) option" where
  "dlopen opens file_name l =
     (if opens file_name
      then Some (next_handle l, l\<lparr>open_handles := next_handle l # open_handles l, next_handle := Suc (next_handle l)\<rparr>)
      else None)"

definition Load :: "(string \<Rightarrow> bool) \<Rightarrow> string \<Rightarrow> DLLLoader \<Rightarrow> DLLLoader res" where
  "Load opens file_name l =
     (if map_of (m_dll_map l) file_name \<noteq> None then Inr l
      else case dlopen opens file_name l of
        None \<Rightarrow> Inl (Throw (runtime_error ''Couldn't open plugin''))
      | Some (handler, l) \<Rightarrow>
          if map_of (m_dll_map l) file_name \<noteq> None then dlclose handler l
          else Inr (l\<lparr>m_dll_map := (file_name, handler) # m_dll_map l\<rparr>))"

definition Unload :: "string \<Rightarrow> DLLLoader \<Rightarrow> DLLLoader res" where
  "Unload file_name l =
     (case map_of (m_dll_map l) file_name of
        None \<Rightarrow> Inl (Throw (runtime_error ''Plugin doesn't exist''))
      | Some handler \<Rightarrow> rbind (dlclose handler l) (\<lambda>l.
          Inr (l\<lparr>m_dll_map := filter (\<lambda>(key, _). key \<noteq> file_name) (m_dll_map l)\<rparr>)))"

fun close_all :: "(string \<times> nat) list \<Rightarrow> DLLLoader \<Rightarrow> DLLLoader res" where
  "close_all [] l = Inr l"
| "close_all ((_, handler) # hs) l = rbind (dlclose handler l) (close_all hs)"

definition DLLLoader_delete :: "DLLLoader \<Rightarrow> DLLLoader res" where
  "DLLLoader_delete l = close_all (m_dll_map l) l"

section \<open>The events of the directory\<close>

definition IsSharedObject :: "string \<Rightarrow> bool" where
  "IsSharedObject path \<longleftrightarrow> 3 \<le> length path \<and> drop (length path - 3) path = ''.so''"

definition IN_CLOSE_WRITE :: uint32_t where
  "IN_CLOSE_WRITE = 8"

definition IN_DELETE :: uint32_t where
  "IN_DELETE = 512"

text \<open>The fixed fields of \<open>struct inotify_event\<close>: watch, mask, cookie and the length of the name.\<close>

definition fetch_event :: "byte list \<Rightarrow> (uint32_t \<times> uint32_t \<times> byte list) res" where
  "fetch_event p =
     rbind (fetch_u32 p) (\<lambda>(wd, p). rbind (fetch_u32 p) (\<lambda>(ev_mask, p). rbind (fetch_u32 p) (\<lambda>(cookie, p).
     rbind (fetch_u32 p) (\<lambda>(len, p). Inr (ev_mask, len, p)))))"

text \<open>\<open>event->name\<close> as a C string.\<close>

definition c_string :: "byte list \<Rightarrow> string res" where
  "c_string p = (if 0 \<in> set p then Inr (map (\<lambda>b. char_of (unat b)) (takeWhile (\<lambda>b. b \<noteq> 0) p))
     else Inl (UB OutOfBoundsRead))"

record Framework_plugins =
  disp :: disp_world
  m_loader :: DLLLoader

text \<open>The two dispatchers of the monitor and the two callbacks of the framework, by number.\<close>

abbreviation m_open_dispatcher :: nat where "m_open_dispatcher \<equiv> 0"
abbreviation m_close_dispatcher :: nat where "m_close_dispatcher \<equiv> 1"
abbreviation m_open_callback :: nat where "m_open_callback \<equiv> 0"
abbreviation m_close_callback :: nat where "m_close_callback \<equiv> 1"

definition RegisterOpen :: "nat \<Rightarrow> Framework_plugins \<Rightarrow> Framework_plugins" where
  "RegisterOpen plugin w = w\<lparr>disp := Register m_open_dispatcher plugin (disp w)\<rparr>"

definition RegisterClose :: "nat \<Rightarrow> Framework_plugins \<Rightarrow> Framework_plugins" where
  "RegisterClose plugin w = w\<lparr>disp := Register m_close_dispatcher plugin (disp w)\<rparr>"

definition new_plugins :: Framework_plugins where
  "new_plugins =
     RegisterClose m_close_callback (RegisterOpen m_open_callback
       \<lparr>disp = Dispatcher_new m_close_dispatcher (Dispatcher_new m_open_dispatcher
          \<lparr>dispatchers = Map.empty, callbacks = Map.empty\<rparr>),
        m_loader = new_DLLLoader\<rparr>)"

fun deliver :: "(string \<Rightarrow> bool) \<Rightarrow> (nat \<times> string) list \<Rightarrow> Framework_plugins \<Rightarrow> Framework_plugins res" where
  "deliver opens [] w = Inr w"
| "deliver opens ((c, path) # cs) w =
     rbind (if c = m_open_callback then Load opens path (m_loader w) else Unload path (m_loader w))
       (\<lambda>l. deliver opens cs (w\<lparr>m_loader := l\<rparr>))"

definition notify_event :: "(string \<Rightarrow> bool) \<Rightarrow> string \<Rightarrow> uint32_t \<Rightarrow> byte list \<Rightarrow> Framework_plugins
    \<Rightarrow> Framework_plugins res" where
  "notify_event opens m_dir_name ev_mask p w =
     (let named = (\<lambda>bit. if ev_mask AND bit = 0 then Inr None
            else rbind (c_string p) (\<lambda>name. Inr (if IsSharedObject name then Some name else None)))
      in rbind (named IN_CLOSE_WRITE) (\<lambda>opened.
         case opened of
           Some name \<Rightarrow> deliver opens (Notify m_open_dispatcher (m_dir_name @ name) (disp w)) w
         | None \<Rightarrow> rbind (named IN_DELETE) (\<lambda>closed.
             case closed of
               Some name \<Rightarrow> deliver opens (Notify m_close_dispatcher (m_dir_name @ name) (disp w)) w
             | None \<Rightarrow> Inr w)))"

text \<open>
  The inner loop: \<open>data\<close> is what \<open>read\<close> has returned from the current position on, \<open>stale\<close> the rest of the buffer.
\<close>

function handle_events :: "(string \<Rightarrow> bool) \<Rightarrow> string \<Rightarrow> byte list \<Rightarrow> byte list \<Rightarrow> Framework_plugins
    \<Rightarrow> Framework_plugins res" where
  "handle_events opens m_dir_name stale data w =
     (if data = [] then Inr w
      else case fetch_event (data @ stale) of
        Inl e \<Rightarrow> Inl e
      | Inr (ev_mask, len, p) \<Rightarrow>
          (case notify_event opens m_dir_name ev_mask p w of
             Inl e \<Rightarrow> Inl e
           | Inr w \<Rightarrow> handle_events opens m_dir_name stale (drop (16 + unat len) data) w))"
  by pat_completeness auto

termination
  by (relation "measure (\<lambda>(_, _, _, data, _). length data)") auto

declare handle_events.simps [simp del]

text \<open>
  The outer loop.  An entry of \<open>reads\<close> is the result of one \<open>read\<close>, none for -1, and whether \<open>Stop\<close> had cleared
  \<open>m_running\<close> when it returned; no result means the thread waits in \<open>read\<close>.
\<close>

fun MonitorRun :: "(string \<Rightarrow> bool) \<Rightarrow> string \<Rightarrow> (byte list option \<times> byte list \<times> bool) list \<Rightarrow> bool
    \<Rightarrow> Framework_plugins \<Rightarrow> Framework_plugins res option" where
  "MonitorRun opens m_dir_name [] m_running w = (if m_running then None else Some (Inr w))"
| "MonitorRun opens m_dir_name ((got, stale, stopped) # reads) m_running w =
     (if \<not> m_running then Some (Inr w)
      else case got of
        None \<Rightarrow> if stopped then Some (Inr w) else Some (Inl (Throw (runtime_error ''Error reading events'')))
      | Some data \<Rightarrow>
          (case handle_events opens m_dir_name stale data w of
             Inl e \<Rightarrow> Some (Inl e)
           | Inr w \<Rightarrow> MonitorRun opens m_dir_name reads (\<not> stopped) w))"

section \<open>The life of the monitor\<close>

text \<open>What \<open>Run\<close> and \<open>Stop\<close> do to the flag, the thread and the descriptor; \<open>closed_fds\<close> lists the calls of \<open>close\<close>.\<close>

record DirMonitor =
  m_running :: bool
  joinable :: bool
  m_notify_fd :: int
  closed_fds :: "int list"

definition new_DirMonitor :: "int \<Rightarrow> int \<Rightarrow> DirMonitor res" where
  "new_DirMonitor notify_fd watchfd =
     (if notify_fd = - 1 then Inl (Throw (runtime_error ''Couldn't init inotify''))
      else if watchfd = - 1 then Inl (Throw (runtime_error ''Couldn't init watch''))
      else Inr \<lparr>m_running = False, joinable = False, m_notify_fd = notify_fd, closed_fds = []\<rparr>)"

definition DirMonitor_Run :: "DirMonitor \<Rightarrow> DirMonitor" where
  "DirMonitor_Run d = d\<lparr>m_running := True, joinable := True\<rparr>"

definition DirMonitor_Stop :: "DirMonitor \<Rightarrow> DirMonitor" where
  "DirMonitor_Stop d =
     (if \<not> m_running d \<and> \<not> joinable d then d
      else let d = d\<lparr>m_running := False\<rparr>;
               d = (if m_notify_fd d \<noteq> - 1
                    then d\<lparr>closed_fds := m_notify_fd d # closed_fds d, m_notify_fd := - 1\<rparr> else d)
           in d\<lparr>joinable := False\<rparr>)"

definition DirMonitor_delete :: "DirMonitor \<Rightarrow> DirMonitor" where
  "DirMonitor_delete d = DirMonitor_Stop d"

section \<open>What the kernel writes\<close>

record inotify_event =
  ev_wd :: uint32_t
  ev_bits :: uint32_t
  ev_cookie :: uint32_t
  ev_name :: "byte list"
  ev_pad :: nat

definition encode_event :: "inotify_event \<Rightarrow> byte list" where
  "encode_event e = le_bytes 4 (unat (ev_wd e)) @ le_bytes 4 (unat (ev_bits e)) @ le_bytes 4 (unat (ev_cookie e)) @
     le_bytes 4 (unat (word_of_nat (length (ev_name e) + ev_pad e) :: uint32_t)) @ ev_name e @ replicate (ev_pad e) 0"

text \<open>A name ends with a zero byte; an event without a name is not about a file of the directory.\<close>

definition valid_event :: "inotify_event \<Rightarrow> bool" where
  "valid_event e \<longleftrightarrow> 0 \<notin> set (ev_name e) \<and> length (ev_name e) + ev_pad e < 2 ^ 32 \<and>
     (ev_pad e = 0 \<longrightarrow> ev_name e = [] \<and> ev_bits e AND IN_CLOSE_WRITE = 0 \<and> ev_bits e AND IN_DELETE = 0)"

datatype plugin_action = Opened string | Removed string

definition event_name :: "inotify_event \<Rightarrow> string" where
  "event_name e = map (\<lambda>b. char_of (unat b)) (ev_name e)"

definition event_action :: "inotify_event \<Rightarrow> plugin_action option" where
  "event_action e =
     (if ev_bits e AND IN_CLOSE_WRITE \<noteq> 0 \<and> IsSharedObject (event_name e) then Some (Opened (event_name e))
      else if ev_bits e AND IN_DELETE \<noteq> 0 \<and> IsSharedObject (event_name e) then Some (Removed (event_name e))
      else None)"

primrec plugin_step :: "(string \<Rightarrow> bool) \<Rightarrow> string \<Rightarrow> plugin_action \<Rightarrow> DLLLoader \<Rightarrow> DLLLoader res" where
  "plugin_step opens dir (Opened name) l = Load opens (dir @ name) l"
| "plugin_step opens dir (Removed name) l = Unload (dir @ name) l"

fun plugin_steps :: "(string \<Rightarrow> bool) \<Rightarrow> string \<Rightarrow> plugin_action list \<Rightarrow> DLLLoader \<Rightarrow> DLLLoader res" where
  "plugin_steps opens dir [] l = Inr l"
| "plugin_steps opens dir (a # as) l = rbind (plugin_step opens dir a l) (plugin_steps opens dir as)"

definition connected :: "Framework_plugins \<Rightarrow> bool" where
  "connected w \<longleftrightarrow> reg_list m_open_dispatcher (disp w) = [m_open_callback] \<and>
     reg_list m_close_dispatcher (disp w) = [m_close_callback]"

lemma connected_new: "connected new_plugins"
  by (simp add: connected_def new_plugins_def RegisterOpen_def RegisterClose_def Dispatcher_new_def reg_list_def
      del: One_nat_def)

lemma connected_loader [simp]: "connected (w\<lparr>m_loader := l\<rparr>) = connected w"
  by (simp add: connected_def)

lemma takeWhile_name: "0 \<notin> set xs \<Longrightarrow> takeWhile (\<lambda>b. b \<noteq> 0) (xs @ 0 # ys) = (xs :: byte list)"
  by (induction xs) auto

lemma c_string_event:
  assumes "valid_event e" and "ev_pad e \<noteq> 0"
  shows "c_string (ev_name e @ replicate (ev_pad e) 0 @ rest) = Inr (event_name e)"
proof -
  obtain k where "ev_pad e = Suc k" using assms(2) by (cases "ev_pad e") auto
  with assms(1) show ?thesis by (simp add: c_string_def valid_event_def takeWhile_name event_name_def)
qed

lemma notify_event_action:
  assumes "valid_event e" and "connected w"
  shows "notify_event opens dir (ev_bits e) (ev_name e @ replicate (ev_pad e) 0 @ rest) w =
    rbind (case event_action e of None \<Rightarrow> Inr (m_loader w) | Some a \<Rightarrow> plugin_step opens dir a (m_loader w))
      (\<lambda>l. Inr (w\<lparr>m_loader := l\<rparr>))"
proof (cases "ev_pad e = 0")
  case True
  with assms(1) show ?thesis by (simp add: valid_event_def notify_event_def event_action_def)
next
  case False
  from c_string_event [OF assms(1) this] assms(2) show ?thesis
    by (auto simp: notify_event_def event_action_def connected_def Notify_def Let_def simp del: One_nat_def)
qed

lemma fetch_encoded:
  assumes "valid_event e"
  shows "\<exists>len. fetch_event (encode_event e @ rest) =
      Inr (ev_bits e, len, ev_name e @ replicate (ev_pad e) 0 @ rest) \<and>
    16 + unat len = length (encode_event e)"
proof -
  let ?len = "word_of_nat (length (ev_name e) + ev_pad e) :: uint32_t"
  have f: "fetch_event (encode_event e @ rest) = Inr (ev_bits e, ?len, ev_name e @ replicate (ev_pad e) 0 @ rest)"
    by (simp add: fetch_event_def encode_event_def del: of_nat_add)
  have "unat ?len = length (ev_name e) + ev_pad e"
    using assms by (simp add: valid_event_def unat_of_nat take_bit_nat_eq_self_iff del: of_nat_add)
  then have "16 + unat ?len = length (encode_event e)" by (simp add: encode_event_def)
  with f show ?thesis by blast
qed

lemma length_encode_event: "16 \<le> length (encode_event e)"
  by (simp add: encode_event_def)

lemma handle_events_encoded:
  assumes "list_all valid_event evs" and "connected w"
  shows "handle_events opens dir stale (concat (map encode_event evs)) w =
    rbind (plugin_steps opens dir (List.map_filter event_action evs) (m_loader w)) (\<lambda>l. Inr (w\<lparr>m_loader := l\<rparr>))"
  using assms
proof (induction evs arbitrary: w)
  case Nil
  then show ?case by (simp add: handle_events.simps List.map_filter_def)
next
  case (Cons e evs)
  let ?data = "concat (map encode_event (e # evs))" and ?rest = "concat (map encode_event evs)"
  have v: "valid_event e" using Cons.prems by simp
  have ne: "?data \<noteq> []" using length_encode_event [of e] by auto
  from fetch_encoded [OF v, of "?rest @ stale"] obtain len where
    f: "fetch_event (?data @ stale) = Inr (ev_bits e, len, ev_name e @ replicate (ev_pad e) 0 @ ?rest @ stale)"
    and d: "16 + unat len = length (encode_event e)" by auto
  from d have r: "drop (16 + unat len) ?data = ?rest" by simp
  note n = notify_event_action [OF v Cons.prems(2), of opens dir "?rest @ stale"]
  have "handle_events opens dir stale ?data w =
      rbind (case event_action e of None \<Rightarrow> Inr (m_loader w) | Some a \<Rightarrow> plugin_step opens dir a (m_loader w))
        (\<lambda>l. handle_events opens dir stale ?rest (w\<lparr>m_loader := l\<rparr>))"
    unfolding handle_events.simps [of opens dir stale ?data w] f r
    by (simp only: ne if_False sum.case prod.case r n) (simp add: rbind_def split: sum.split)
  with Cons show ?case by (auto simp: List.map_filter_def rbind_def split: option.split sum.split)
qed

section \<open>The loader's book-keeping\<close>

definition loader_ok :: "DLLLoader \<Rightarrow> bool" where
  "loader_ok l \<longleftrightarrow> distinct (map fst (m_dll_map l)) \<and> distinct (open_handles l) \<and>
     mset (open_handles l) = mset (map snd (m_dll_map l)) \<and> (\<forall>h \<in> set (open_handles l). h < next_handle l)"

definition loaded :: "string \<Rightarrow> DLLLoader \<Rightarrow> string set" where
  "loaded dir l = {name. map_of (m_dll_map l) (dir @ name) \<noteq> None}"

text \<open>The set of loaded plugins the actions lead to; none when an action fails.\<close>

primrec plugin_spec :: "(string \<Rightarrow> bool) \<Rightarrow> string \<Rightarrow> plugin_action \<Rightarrow> string set \<Rightarrow> string set option" where
  "plugin_spec opens dir (Opened name) S =
     (if name \<in> S then Some S else if opens (dir @ name) then Some (insert name S) else None)"
| "plugin_spec opens dir (Removed name) S = (if name \<in> S then Some (S - {name}) else None)"

fun plugin_specs :: "(string \<Rightarrow> bool) \<Rightarrow> string \<Rightarrow> plugin_action list \<Rightarrow> string set \<Rightarrow> string set option" where
  "plugin_specs opens dir [] S = Some S"
| "plugin_specs opens dir (a # as) S = Option.bind (plugin_spec opens dir a S) (plugin_specs opens dir as)"

lemma open_handles_set: "loader_ok l \<Longrightarrow> set (open_handles l) = snd ` set (m_dll_map l)"
  unfolding loader_ok_def by (metis mset_eq_setD set_map)

lemma map_of_filter_name: "map_of (filter (\<lambda>(key, _). key \<noteq> k) xs) = (map_of xs)(k := None)"
  by (induction xs) auto

lemma handles_after_erase:
  assumes "distinct (map fst xs)" and "map_of xs k = Some h"
  shows "mset (map snd xs) = add_mset h (mset (map snd (filter (\<lambda>(key, _). key \<noteq> k) xs)))"
  using assms
proof (induction xs)
  case (Cons x xs)
  have "filter (\<lambda>(key, _). key \<noteq> k) xs = xs" if "k \<notin> fst ` set xs"
    using that by (intro filter_True) force
  with Cons show ?case by (cases x) (auto simp del: mset_filter split: if_splits)
qed simp

lemma Load_cases:
  assumes "loader_ok l"
  shows "case Load opens (dir @ name) l of
      Inr l' \<Rightarrow> loader_ok l' \<and> plugin_spec opens dir (Opened name) (loaded dir l) = Some (loaded dir l')
    | Inl e \<Rightarrow> plugin_spec opens dir (Opened name) (loaded dir l) = None \<and> (\<exists>x. e = Throw x)"
proof -
  have "next_handle l \<notin> set (open_handles l)" using assms by (auto simp: loader_ok_def)
  with assms show ?thesis
  proof (cases "map_of (m_dll_map l) (dir @ name)")
    case None
    then have "dir @ name \<notin> fst ` set (m_dll_map l)" by (simp add: map_of_eq_None_iff)
    with None assms \<open>next_handle l \<notin> set (open_handles l)\<close> show ?thesis
      by (auto simp: Load_def dlopen_def loaded_def loader_ok_def less_Suc_eq)
  qed (simp add: Load_def loaded_def)
qed

lemma Unload_cases:
  assumes "loader_ok l"
  shows "case Unload (dir @ name) l of
      Inr l' \<Rightarrow> loader_ok l' \<and> plugin_spec opens dir (Removed name) (loaded dir l) = Some (loaded dir l')
    | Inl e \<Rightarrow> plugin_spec opens dir (Removed name) (loaded dir l) = None \<and> (\<exists>x. e = Throw x)"
proof (cases "map_of (m_dll_map l) (dir @ name)")
  case None
  then show ?thesis by (simp add: Unload_def loaded_def)
next
  case (Some h)
  have h: "h \<in> set (open_handles l)"
    using Some open_handles_set [OF assms] by (force dest: map_of_SomeD)
  let ?l = "l\<lparr>open_handles := remove1 h (open_handles l),
    m_dll_map := filter (\<lambda>(key, _). key \<noteq> dir @ name) (m_dll_map l)\<rparr>"
  have "Unload (dir @ name) l = Inr ?l" using Some h by (simp add: Unload_def dlclose_def)
  moreover have "loader_ok ?l"
    using assms handles_after_erase [OF _ Some] h
    by (auto simp: loader_ok_def distinct_map_filter dest: in_set_remove1)
  moreover have "loaded dir ?l = loaded dir l - {name}" "name \<in> loaded dir l"
    using Some by (auto simp: loaded_def map_of_filter_name)
  ultimately show ?thesis by simp
qed

lemma plugin_step_cases:
  assumes "loader_ok l"
  shows "case plugin_step opens dir a l of
      Inr l' \<Rightarrow> loader_ok l' \<and> plugin_spec opens dir a (loaded dir l) = Some (loaded dir l')
    | Inl e \<Rightarrow> plugin_spec opens dir a (loaded dir l) = None \<and> (\<exists>x. e = Throw x)"
proof (cases a)
  case (Opened name)
  from Load_cases [OF assms, of opens dir name] show ?thesis unfolding Opened plugin_step.simps .
next
  case (Removed name)
  from Unload_cases [OF assms, of opens dir name] show ?thesis unfolding Removed plugin_step.simps .
qed

lemma plugin_steps_cases:
  assumes "loader_ok l"
  shows "case plugin_steps opens dir as l of
      Inr l' \<Rightarrow> loader_ok l' \<and> plugin_specs opens dir as (loaded dir l) = Some (loaded dir l')
    | Inl e \<Rightarrow> plugin_specs opens dir as (loaded dir l) = None \<and> (\<exists>x. e = Throw x)"
  using assms
proof (induction as arbitrary: l)
  case (Cons a as)
  show ?case
  proof (cases "plugin_step opens dir a l")
    case (Inr l')
    with plugin_step_cases [OF Cons.prems, of opens dir a] Cons.IH [of l'] show ?thesis
      by (cases "plugin_steps opens dir as l'") auto
  qed (use plugin_step_cases [OF Cons.prems, of opens dir a] in simp)
qed simp

lemma close_all_ok:
  assumes "distinct (open_handles l)" and "mset (open_handles l) = mset (map snd hs)"
  shows "\<exists>l'. close_all hs l = Inr l' \<and> open_handles l' = []"
  using assms
proof (induction hs arbitrary: l)
  case (Cons x hs)
  obtain k h where x: "x = (k, h)" by (cases x)
  have "h \<in> set (open_handles l)" using Cons.prems(2) x by (metis in_multiset_in_set union_single_eq_member list.simps(9) mset.simps(2) snd_conv)
  moreover have "\<exists>l'. close_all hs (l\<lparr>open_handles := remove1 h (open_handles l)\<rparr>) = Inr l' \<and> open_handles l' = []"
    by (rule Cons.IH) (use Cons.prems x in simp_all)
  ultimately show ?case using x by (simp add: dlclose_def)
qed simp

section \<open>Properties\<close>

text \<open>
  C37. The monitor takes the bytes of a read apart into exactly the events the kernel wrote, whatever the rest of the
  buffer holds: each completed write of a shared object is one \<open>Load\<close> of its path, each deletion of one is
  one \<open>Unload\<close>, in order, and every other event is passed over.
\<close>

theorem monitor_handles_every_event:
  assumes "list_all valid_event evs" and "connected w"
  shows "handle_events opens dir stale (concat (map encode_event evs)) w =
    rbind (plugin_steps opens dir (List.map_filter event_action evs) (m_loader w)) (\<lambda>l. Inr (w\<lparr>m_loader := l\<rparr>))"
  using assms by (rule handle_events_encoded)

text \<open>
  C38. Over any sequence of loads and unloads the loader holds exactly the plugins that were written and not deleted
  since, and throws exactly when a file does not open or a file that is not loaded is deleted; each loaded plugin
  has one open handle of its own, and the destructor closes all of them, none twice.
\<close>

theorem plugin_loader_refines_set:
  "case plugin_steps opens dir as new_DLLLoader of
     Inr l \<Rightarrow> plugin_specs opens dir as {} = Some (loaded dir l) \<and> distinct (open_handles l) \<and>
       mset (open_handles l) = mset (map snd (m_dll_map l)) \<and>
       (\<exists>l'. DLLLoader_delete l = Inr l' \<and> open_handles l' = [])
   | Inl e \<Rightarrow> plugin_specs opens dir as {} = None \<and> (\<exists>x. e = Throw x)"
proof -
  have n: "loader_ok new_DLLLoader" "loaded dir new_DLLLoader = {}"
    by (simp_all add: loader_ok_def loaded_def new_DLLLoader_def)
  have "distinct (open_handles l) \<and> mset (open_handles l) = mset (map snd (m_dll_map l)) \<and>
      (\<exists>l'. DLLLoader_delete l = Inr l' \<and> open_handles l' = [])" if "loader_ok l" for l
    using that close_all_ok [of l "m_dll_map l"] by (simp add: loader_ok_def DLLLoader_delete_def)
  with plugin_steps_cases [OF n(1), of opens dir as] show ?thesis
    by (cases "plugin_steps opens dir as new_DLLLoader") (simp_all add: n(2))
qed

text \<open>
  Deleting a shared object the loader does not hold, one that was in the directory before the monitor
  started for instance, makes \<open>Unload\<close> throw in the monitor's thread, which nothing catches.
\<close>

theorem unknown_plugin_ends_monitor:
  assumes "valid_event e" and "event_action e = Some (Removed name)"
    and "connected w" and "name \<notin> loaded dir (m_loader w)"
  shows "MonitorRun opens dir ((Some (encode_event e), stale, stopped) # reads) True w =
    Some (Inl (Throw (runtime_error ''Plugin doesn't exist'')))"
  using handle_events_encoded [of "[e]" w opens dir stale] assms
  by (simp add: List.map_filter_def Unload_def loaded_def)

text \<open>A shared object that is written again keeps the handle of its first version.\<close>

theorem overwritten_plugin_not_reloaded:
  assumes "name \<in> loaded dir l"
  shows "plugin_step opens dir (Opened name) l = Inr l"
  using assms by (simp add: Load_def loaded_def)

text \<open>
  \<open>Stop\<close> closes the descriptor once however often it is called, but only if \<open>Run\<close> was called: the destructor of
  a monitor that never ran leaves it open.
\<close>

theorem monitor_closes_once:
  assumes "new_DirMonitor fd watch = Inr d" and "0 < n"
  shows "closed_fds ((DirMonitor_Stop ^^ n) (DirMonitor_Run d)) = [fd] \<and> closed_fds ((DirMonitor_Stop ^^ n) d) = []"
proof -
  have "(DirMonitor_Stop ^^ n) d = d"
    using assms(1) by (induction n) (auto simp: DirMonitor_Stop_def new_DirMonitor_def split: if_splits)
  moreover have "(DirMonitor_Stop ^^ Suc k) (DirMonitor_Run d) =
      d\<lparr>m_running := False, joinable := False, m_notify_fd := - 1, closed_fds := [fd]\<rparr>" for k
    using assms(1)
    by (induction k) (auto simp: DirMonitor_Stop_def DirMonitor_Run_def new_DirMonitor_def split: if_splits)
  moreover obtain k where "n = Suc k" using assms(2) by (cases n) auto
  ultimately show ?thesis using assms(1) by (auto simp: new_DirMonitor_def simp del: funpow.simps split: if_splits)
qed

section \<open>Witnesses\<close>

text \<open>The events of a file \<open>a.so\<close> being written and deleted.\<close>

definition ex_event :: "uint32_t \<Rightarrow> inotify_event" where
  "ex_event bits = \<lparr>ev_wd = 1, ev_bits = bits, ev_cookie = 0, ev_name = [97, 46, 115, 111], ev_pad = 12\<rparr>"

lemma ex_event:
  "valid_event (ex_event bits)" "event_name (ex_event bits) = ''a.so''"
  "event_action (ex_event 8) = Some (Opened ''a.so'')" "event_action (ex_event 512) = Some (Removed ''a.so'')"
proof -
  show "valid_event (ex_event bits)" by (simp add: valid_event_def ex_event_def)
  show *: "event_name (ex_event bits) = ''a.so''" for bits
    by (simp add: event_name_def ex_event_def char_of_def bit_0)
  show "event_action (ex_event 8) = Some (Opened ''a.so'')" "event_action (ex_event 512) = Some (Removed ''a.so'')"
    by (simp_all add: event_action_def *) (simp_all add: ex_event_def IN_CLOSE_WRITE_def IN_DELETE_def IsSharedObject_def)
qed

theorem monitor_handles_every_event_witness:
  "handle_events (\<lambda>_. True) ''plugins/'' [] (concat (map encode_event [ex_event 8, ex_event 512])) new_plugins =
    Inr (new_plugins\<lparr>m_loader := new_DLLLoader\<lparr>next_handle := 1\<rparr>\<rparr>)"
proof -
  have l: "m_loader new_plugins = new_DLLLoader" by (simp add: new_plugins_def RegisterOpen_def RegisterClose_def)
  show ?thesis
    by (subst monitor_handles_every_event)
      (simp_all add: ex_event connected_new List.map_filter_def l Load_def Unload_def dlopen_def dlclose_def
        new_DLLLoader_def)
qed

theorem unknown_plugin_ends_monitor_witness:
  "MonitorRun (\<lambda>_. True) ''plugins/'' [(Some (encode_event (ex_event 512)), [], False)] True new_plugins =
    Some (Inl (Throw (runtime_error ''Plugin doesn't exist'')))"
proof -
  have "''a.so'' \<notin> loaded ''plugins/'' (m_loader new_plugins)"
    by (simp add: new_plugins_def RegisterOpen_def RegisterClose_def loaded_def new_DLLLoader_def)
  then show ?thesis by (rule unknown_plugin_ends_monitor [OF ex_event(1,4) connected_new])
qed

end
