(* ===== verification/Frameworks.thy ===== *)
theory Frameworks
  imports Reactors Plugins Factories Task_Args
begin

text \<open>
  \<open>framework/src/Framework.cpp\<close>: the object that both programs build from input proxies and command creators.  It owns
  the reactor, the directory monitor and the loader; its constructor registers a function per descriptor that asks the
  proxy for task arguments and gives them to the thread pool, and the creators at the factory.  A proxy is a name \<open>'p\<close>,
  and \<open>get_args\<close> says what \<open>GetTaskArgs\<close> of a proxy returns or throws and what it does to the proxies' state \<open>'w\<close>.
\<close>

section \<open>Model\<close>

text \<open>What the functions of the reactor work on: the proxies, the tasks given to the pool and the log.\<close>

record ('w, 'a) fw_world =
  fw_proxies :: 'w
  pool_tasks :: "'a list"
  fw_log :: "log_entry list"

record ('p, 'w, 'a) Framework =
  m_fd_callbacks :: "(int \<times> Mode \<times> 'p) list"
  m_monitor :: DirMonitor
  m_reactor :: "('p, ('w, 'a) fw_world) Reactor"
  fw_plugins :: Framework_plugins

type_synonym ('p, 'w, 'a) get_args = "'p \<Rightarrow> fd_mode \<Rightarrow> 'w \<Rightarrow> (exn + 'a option) \<times> 'w"

text \<open>The function that is registered for a descriptor.\<close>

definition fd_callback :: "('p, 'w, 'a) get_args \<Rightarrow> 'p \<Rightarrow> fd_mode \<Rightarrow> ('p, ('w, 'a) fw_world) Reactor
    \<Rightarrow> ('p, ('w, 'a) fw_world) Reactor res" where
  "fd_callback get_args callback p r =
     (case get_args callback p (fw_proxies (world r)) of
        (Inl ex, w) \<Rightarrow> Inl (Throw ex)
      | (Inr None, w) \<Rightarrow> Inr (r\<lparr>world := (world r)\<lparr>fw_proxies := w,
          fw_log := fw_log (world r) @ [(SEV_WARNING, ''Framework: failed to get task args'')]\<rparr>\<rparr>)
      | (Inr (Some pTaskArgs), w) \<Rightarrow>
          Inr (r\<lparr>world := (world r)\<lparr>fw_proxies := w, pool_tasks := pool_tasks (world r) @ [pTaskArgs]\<rparr>\<rparr>))"

fun register_fds :: "(int \<times> Mode \<times> 'p) list \<Rightarrow> ('p, 'v) Reactor \<Rightarrow> ('p, 'v) Reactor" where
  "register_fds [] r = r"
| "register_fds ((fd, mode, callback) # cbs) r = register_fds cbs (Reactors.Register fd mode callback r)"

fun register_creators :: "(int \<times> 'c) list \<Rightarrow> (int, 'c) Factory \<Rightarrow> (int, 'c) Factory" where
  "register_creators [] f = f"
| "register_creators ((key, creator) # cs) f = register_creators cs (Factory_Register key creator f)"

text \<open>
  The constructor, with the outcomes of \<open>inotify_init\<close> and \<open>inotify_add_watch\<close>; the factory is the process-wide one.
\<close>

definition new_Framework :: "int \<Rightarrow> int \<Rightarrow> (int \<times> Mode \<times> 'p) list \<Rightarrow> (int \<times> 'c) list \<Rightarrow> 'w \<Rightarrow> (int, 'c) Factory
    \<Rightarrow> (('p, 'w, 'a) Framework \<times> (int, 'c) Factory) res" where
  "new_Framework notify_fd watchfd fd_callbacks creators w factory =
     rbind (new_DirMonitor notify_fd watchfd) (\<lambda>mon.
     Inr (\<lparr>m_fd_callbacks = fd_callbacks, m_monitor = mon,
           m_reactor = register_fds fd_callbacks (new_Reactor \<lparr>fw_proxies = w, pool_tasks = [], fw_log = []\<rparr>),
           fw_plugins = new_plugins\<rparr>,
          register_creators creators factory))"

text \<open>\<open>Run\<close> starts the monitor's thread and stays in the reactor's loop; no result while it is there.\<close>

definition Framework_Run :: "('p, 'w, 'a) get_args \<Rightarrow> (fd_mode \<Rightarrow> bool) option list \<Rightarrow> ('p, 'w, 'a) Framework
    \<Rightarrow> ('p, 'w, 'a) Framework res option" where
  "Framework_Run get_args readies f =
     map_option (\<lambda>r. rbind r (\<lambda>r. Inr (f\<lparr>m_monitor := DirMonitor_Run (m_monitor f), m_reactor := r\<rparr>)))
       (Reactor_Run (fd_callback get_args) readies (m_reactor f))"

definition Framework_Stop :: "('p, 'w, 'a) Framework \<Rightarrow> ('p, 'w, 'a) Framework" where
  "Framework_Stop f = f\<lparr>m_reactor := Reactor_Stop (m_reactor f), m_monitor := DirMonitor_Stop (m_monitor f)\<rparr>"

definition Framework_delete :: "('p, 'w, 'a) Framework \<Rightarrow> ('p, 'w, 'a) Framework" where
  "Framework_delete f = Framework_Stop f"

section \<open>Lemmas\<close>

lemma keeps_registry_fd_callback: "keeps_registry (fd_callback get_args)"
  by (auto simp: keeps_registry_def fd_callback_def split: prod.splits sum.splits option.splits)

text \<open>The first proxy listed for a descriptor and mode, the last creator listed for a key.\<close>

lemma register_fds_ok: "registry_ok r \<Longrightarrow> registry_ok (register_fds cbs r)"
  by (induction cbs r rule: register_fds.induct) (auto simp: registry_ok_Register)

lemma register_fds_registered:
  "registered (register_fds cbs r) p =
    (case registered r p of None \<Rightarrow> map_of (map (\<lambda>(fd, mode, cb). ((fd, mode), cb)) cbs) p | Some cb \<Rightarrow> Some cb)"
proof (induction cbs r rule: register_fds.induct)
  case (2 fd mode cb cbs r)
  then show ?case
    by (cases "registered r (fd, mode)"; cases "p = (fd, mode)") (auto simp: registered_Register split: option.split)
qed (simp split: option.split)

lemma register_creators_map: "register_creators cs f = f ++ map_of (rev cs)"
proof (induction cs arbitrary: f)
  case (Cons c cs)
  obtain key creator where "c = (key, creator)" by (cases c)
  with Cons show ?case by (auto simp: Factory_Register_def map_add_def fun_eq_iff split: option.split)
qed simp

lemma register_fds_world: "world (register_fds cbs r) = world r"
  by (induction cbs r rule: register_fds.induct) (simp_all add: Reactors.Register_def split: option.split)

text \<open>What a run of several functions leaves: the arguments the proxies gave, in order.\<close>

fun collect :: "('p, 'w, 'a) get_args \<Rightarrow> (fd_mode \<times> 'p) list \<Rightarrow> 'w \<Rightarrow> 'a list option" where
  "collect get_args [] w = Some []"
| "collect get_args ((p, callback) # fs) w =
     (case get_args callback p w of
        (Inl ex, w) \<Rightarrow> None
      | (Inr a, w) \<Rightarrow> map_option (\<lambda>as. (case a of None \<Rightarrow> [] | Some x \<Rightarrow> [x]) @ as) (collect get_args fs w))"

lemma run_calls_collect:
  assumes "collect get_args fs (fw_proxies (world r)) = Some as"
  shows "\<exists>r'. run_calls (fd_callback get_args) fs r = Inr r' \<and> pool_tasks (world r') = pool_tasks (world r) @ as"
  using assms
proof (induction fs arbitrary: r as)
  case (Cons f fs)
  obtain p callback where f: "f = (p, callback)" by (cases f)
  obtain a w where g: "get_args callback p (fw_proxies (world r)) = (Inr a, w)"
    using Cons.prems f by (auto split: prod.splits sum.splits)
  obtain as' where c: "collect get_args fs w = Some as'" "as = (case a of None \<Rightarrow> [] | Some x \<Rightarrow> [x]) @ as'"
    using Cons.prems f g by auto
  obtain r1 where r1: "fd_callback get_args callback p r = Inr r1" "fw_proxies (world r1) = w"
    "pool_tasks (world r1) = pool_tasks (world r) @ (case a of None \<Rightarrow> [] | Some x \<Rightarrow> [x])"
    using g by (cases a) (auto simp: fd_callback_def)
  have "collect get_args fs (fw_proxies (world r1)) = Some as'" using c(1) r1(2) by simp
  from Cons.IH [OF this] r1 c(2) show ?case by (auto simp: f)
qed simp

section \<open>Properties\<close>

text \<open>
  The constructor fails exactly when the plugin directory cannot be watched; otherwise every descriptor is served by
  the first proxy listed for it, every key of the factory has the last creator listed for it and other keys keep theirs,
  the loader is connected to the monitor, and the reactor's table is well formed.
\<close>

theorem framework_construction:
  "(case new_Framework notify_fd watchfd fd_callbacks creators w factory of
      Inl e \<Rightarrow> notify_fd = -1 \<or> watchfd = -1
    | Inr (f, factory') \<Rightarrow> notify_fd \<noteq> -1 \<and> watchfd \<noteq> -1 \<and> registry_ok (m_reactor f) \<and> connected (fw_plugins f) \<and>
        registered (m_reactor f) = map_of (map (\<lambda>(fd, mode, cb). ((fd, mode), cb)) fd_callbacks) \<and>
        factory' = factory ++ map_of (rev creators))"
proof -
  have "registered (register_fds fd_callbacks (new_Reactor v)) =
      map_of (map (\<lambda>(fd, mode, cb). ((fd, mode), cb)) fd_callbacks)" for v :: "('b, 'e) fw_world"
    by (rule ext) (simp add: register_fds_registered new_Reactor_def)
  then show ?thesis
    by (auto simp: new_Framework_def new_DirMonitor_def rbind_def register_fds_ok connected_new register_creators_map)
qed


text \<open>
  A framework that has been started and stopped is stopped once more by its destructor: the reactor is out of its loop and
  the descriptor of the monitor has been closed exactly once.
\<close>

theorem framework_stops_once:
  assumes "new_Framework notify_fd watchfd fd_callbacks creators w factory = Inr (f, factory')"
    and "m_monitor f' = DirMonitor_Run (m_monitor f)"
  shows "\<not> Reactors.m_running (m_reactor (Framework_delete (Framework_Stop f'))) \<and>
    closed_fds (m_monitor (Framework_delete (Framework_Stop f'))) = [notify_fd]"
proof -
  have "m_monitor f = \<lparr>m_running = False, joinable = False, m_notify_fd = notify_fd, closed_fds = []\<rparr>" "notify_fd \<noteq> -1"
    using assms(1) by (auto simp: new_Framework_def new_DirMonitor_def rbind_def split: sum.splits if_splits)
  then show ?thesis using assms(2)
    by (simp add: Framework_delete_def Framework_Stop_def Reactor_Stop_def DirMonitor_Run_def DirMonitor_Stop_def Let_def)
qed

section \<open>Witnesses\<close>

text \<open>Two proxies, of which the second has nothing to hand over.\<close>

definition ex_get_args :: "(nat, nat, nat) get_args" where
  "ex_get_args callback p w = (Inr (if callback = 1 then Some w else None), w + 1)"

definition ex_framework :: "(nat, nat, nat) Framework" where
  "ex_framework = \<lparr>m_fd_callbacks = [(7, READ, 1), (5, READ, 2)],
     m_monitor = \<lparr>m_running = False, joinable = False, m_notify_fd = 3, closed_fds = []\<rparr>,
     m_reactor = \<lparr>m_listen_funcs = [((5, READ), 2), ((7, READ), 1)], m_running = False,
       world = \<lparr>fw_proxies = 40, pool_tasks = [], fw_log = []\<rparr>\<rparr>,
     fw_plugins = new_plugins\<rparr>"

lemma ex_framework_new:
  "new_Framework 3 4 [(7, READ, 1), (5, READ, 2)] [(0, ''write''), (1, ''read'')] 40 Map.empty =
    Inr (ex_framework, [0 \<mapsto> ''write'', 1 \<mapsto> ''read''])"
  by (simp add: new_Framework_def new_DirMonitor_def ex_framework_def Reactors.Register_def new_Reactor_def
      Factory_Register_def)


theorem framework_stops_once_witness:
  "closed_fds (m_monitor (Framework_delete (Framework_Stop
     (ex_framework\<lparr>m_monitor := DirMonitor_Run (m_monitor ex_framework)\<rparr>)))) = [3]"
  using framework_stops_once [OF ex_framework_new, of "ex_framework\<lparr>m_monitor := DirMonitor_Run (m_monitor ex_framework)\<rparr>"]
  by simp

end
