(* ===== verification/Plugin_Commands.thy ===== *)
theory Plugin_Commands
  imports Frameworks Master_Server
begin

text \<open>
  Plugins and the commands of a running master together.  A shared object that \<open>DLLLoader::Load\<close> opens runs its
  constructor functions, which put creators into the factory that \<open>FW_TPTask::Run\<close> asks; \<open>dlclose\<close> takes the code away
  again.  The plugin is \<open>framework/src/FrameworkPlugin.cpp\<close>.
\<close>

section \<open>Model\<close>

text \<open>A creator of the process itself, or one whose code is in the shared object of the given path.\<close>

datatype creator = Builtin master_command | InPlugin string

record hosted =
  ho_master :: master
  ho_factory :: "(int, creator) Factory"
  ho_loader :: DLLLoader
  ho_stdout :: "string list"

definition on_master :: "(master, 'a) cpp \<Rightarrow> (hosted, 'a) cpp" where
  "on_master = zoom ho_master (\<lambda>m s. s\<lparr>ho_master := m\<rparr>)"

definition print_line :: "string \<Rightarrow> (hosted, unit) cpp" where
  "print_line l = cmodify (\<lambda>s. s\<lparr>ho_stdout := ho_stdout s @ [l]\<rparr>)"

definition UpdatedReadCommand_Run :: "ATaskArgs \<Rightarrow> (hosted, unit) cpp" where
  "UpdatedReadCommand_Run args = print_line ''Updated''"

text \<open>The constructor and the destructor function of the shared object at \<open>path\<close>.\<close>

definition SoMain :: "string \<Rightarrow> (hosted, unit) cpp" where
  "SoMain path = cmodify (\<lambda>s. s\<lparr>ho_factory := Factory_Register 0 (InPlugin path) (ho_factory s)\<rparr>)"

definition SoExit :: "(hosted, unit) cpp" where
  "SoExit = print_line ''plugin removed''"

text \<open>A path is mapped while the loader holds a handle for it: \<open>dlclose\<close> of the last handle unmaps the object.\<close>

definition mapped :: "hosted \<Rightarrow> string \<Rightarrow> bool" where
  "mapped s path \<longleftrightarrow> map_of (m_dll_map (ho_loader s)) path \<noteq> None"

definition hosted_Load :: "(string \<Rightarrow> bool) \<Rightarrow> string \<Rightarrow> (hosted, unit) cpp" where
  "hosted_Load opens path =
     cbind (cget (\<lambda>s. (mapped s path, ho_loader s))) (\<lambda>(known, l).
     cbind (clift (Load opens path l)) (\<lambda>l.
     cbind (cmodify (\<lambda>s. s\<lparr>ho_loader := l\<rparr>)) (\<lambda>_.
     if known then cret () else SoMain path)))"

definition hosted_Unload :: "string \<Rightarrow> (hosted, unit) cpp" where
  "hosted_Unload path =
     cbind (cget ho_loader) (\<lambda>l.
     cbind (clift (Unload path l)) (\<lambda>l.
     cbind (cmodify (\<lambda>s. s\<lparr>ho_loader := l\<rparr>)) (\<lambda>_. SoExit)))"

text \<open>\<open>FW_TPTask::Run\<close> with creators of both kinds; calling a creator of an unmapped object is undefined.\<close>

definition hosted_command :: "env \<Rightarrow> creator \<Rightarrow> ATaskArgs \<Rightarrow> (hosted, unit) cpp" where
  "hosted_command e pCommand args =
     (case pCommand of
        Builtin ReadCommand \<Rightarrow> on_master (ReadCommand_Run e args)
      | Builtin WriteCommand \<Rightarrow> on_master (WriteCommand_Run e args)
      | InPlugin path \<Rightarrow> cbind (cget (\<lambda>s. mapped s path)) (\<lambda>there.
          if there then UpdatedReadCommand_Run args else clift (Inl (UB UnmappedCode))))"

definition hosted_FW_TPTask_Run :: "env \<Rightarrow> ATaskArgs \<Rightarrow> (hosted, unit) cpp" where
  "hosted_FW_TPTask_Run e args =
     ctry
       (cbind (cget ho_factory) (\<lambda>f.
        cbind (clift (Factory_Create f (GetKey args))) (\<lambda>pCommand. hosted_command e pCommand args)))
       (\<lambda>ex. on_master (Log (''FW_TPTask: '' @ what ex) SEV_ERROR))"

text \<open>A master whose factory holds its own commands.\<close>

definition host :: "master \<Rightarrow> hosted" where
  "host m = \<lparr>ho_master = m, ho_factory = map_option Builtin \<circ> cmd_factory m, ho_loader = new_DLLLoader, ho_stdout = []\<rparr>"

section \<open>Lemmas\<close>

lemma ctry_on_master: "ctry (on_master m) (\<lambda>ex. on_master (h ex)) = on_master (ctry m h)"
  by (rule ext) (auto simp: ctry_def on_master_def zoom_def split: sum.split prod.split)

text \<open>A key with a command of the process runs as in the master without plugins.\<close>

lemma builtin_run:
  assumes "ho_factory s (GetKey args) = Some (Builtin c)" and "cmd_factory (ho_master s) (GetKey args) = Some c"
  shows "hosted_FW_TPTask_Run e args s = on_master (FW_TPTask_Run e args) s"
proof -
  let ?run = "case c of ReadCommand \<Rightarrow> ReadCommand_Run e args | WriteCommand \<Rightarrow> WriteCommand_Run e args"
  have "hosted_FW_TPTask_Run e args s = ctry (on_master ?run) (\<lambda>ex. on_master (Log (''FW_TPTask: '' @ what ex) SEV_ERROR)) s"
    using assms(1) by (cases c)
      (simp_all add: hosted_FW_TPTask_Run_def ctry_def cpp_simps Factory_Create_def hosted_command_def)
  also have "\<dots> = on_master (ctry ?run (\<lambda>ex. Log (''FW_TPTask: '' @ what ex) SEV_ERROR)) s"
    by (simp only: ctry_on_master)
  also have "\<dots> = on_master (FW_TPTask_Run e args) s"
    using assms(2) by (cases c) (simp_all add: on_master_def zoom_def FW_TPTask_Run_def ctry_def cpp_simps Factory_Create_def)
  finally show ?thesis .
qed

lemma plugin_run:
  assumes "ho_factory s (GetKey args) = Some (InPlugin path)"
  shows "hosted_FW_TPTask_Run e args s =
    (if mapped s path then Inr (Inr (), s\<lparr>ho_stdout := ho_stdout s @ [''Updated'']\<rparr>) else Inl UnmappedCode)"
  using assms by (simp add: hosted_FW_TPTask_Run_def ctry_def cpp_simps Factory_Create_def hosted_command_def
      UpdatedReadCommand_Run_def print_line_def)

lemma hosted_Load_new:
  assumes "opens path" and "\<not> mapped s path"
  shows "\<exists>l. hosted_Load opens path s =
      Inr (Inr (), s\<lparr>ho_loader := l, ho_factory := (ho_factory s)(0 \<mapsto> InPlugin path)\<rparr>) \<and>
    map_of (m_dll_map l) = (map_of (m_dll_map (ho_loader s)))(path \<mapsto> next_handle (ho_loader s)) \<and>
    next_handle (ho_loader s) \<in> set (open_handles l)"
  using assms
  by (intro exI [of _ "(ho_loader s)\<lparr>open_handles := next_handle (ho_loader s) # open_handles (ho_loader s),
      next_handle := Suc (next_handle (ho_loader s)),
      m_dll_map := (path, next_handle (ho_loader s)) # m_dll_map (ho_loader s)\<rparr>"])
    (simp add: hosted_Load_def mapped_def Load_def dlopen_def cpp_simps SoMain_def Factory_Register_def)

lemma hosted_Unload_loaded:
  assumes "map_of (m_dll_map (ho_loader s)) path = Some h" and "h \<in> set (open_handles (ho_loader s))"
  shows "\<exists>l. hosted_Unload path s = Inr (Inr (), s\<lparr>ho_loader := l, ho_stdout := ho_stdout s @ [''plugin removed'']\<rparr>) \<and>
    map_of (m_dll_map l) path = None"
proof -
  have "map_of (filter (\<lambda>(key, _). key \<noteq> path) hs) path = None" for hs :: "(string \<times> nat) list"
    by (induction hs) auto
  then show ?thesis using assms
    by (intro exI [of _ "(ho_loader s)\<lparr>open_handles := remove1 h (open_handles (ho_loader s)),
        m_dll_map := filter (\<lambda>(key, _). key \<noteq> path) (m_dll_map (ho_loader s))\<rparr>"])
      (simp add: hosted_Unload_def Unload_def dlclose_def cpp_simps SoExit_def print_line_def)
qed

section \<open>Properties\<close>

text \<open>
  Loading the plugin of the repository into a running master: key 0, under which it registers its
  \<open>UpdatedReadCommand\<close>, is the key of writes.  From then on a write task prints a line and ends, with nothing sent to a
  minion and the request still waiting for its reply, while reads run exactly as before.  Loading the same path again
  changes nothing.
\<close>

theorem loaded_plugin_swallows_writes:
  assumes "cmd_factory m = [0 \<mapsto> WriteCommand, 1 \<mapsto> ReadCommand]" and "opens path"
  shows "\<exists>s. hosted_Load opens path (host m) = Inr (Inr (), s) \<and> ho_master s = m \<and>
    hosted_FW_TPTask_Run e (NBDWriteArgs u ta) s = Inr (Inr (), s\<lparr>ho_stdout := [''Updated'']\<rparr>) \<and>
    hosted_FW_TPTask_Run e (NBDReadArgs u ta) s = on_master (FW_TPTask_Run e (NBDReadArgs u ta)) s \<and>
    hosted_Load opens path s = Inr (Inr (), s)"
proof -
  have "\<not> mapped (host m) path" by (simp add: mapped_def host_def new_DLLLoader_def)
  from hosted_Load_new [where opens = opens, OF assms(2) this] obtain l where
    s: "hosted_Load opens path (host m) =
      Inr (Inr (), (host m)\<lparr>ho_loader := l, ho_factory := (ho_factory (host m))(0 \<mapsto> InPlugin path)\<rparr>)" (is "_ = Inr (_, ?s)")
    and l: "map_of (m_dll_map l) path \<noteq> None" by auto
  have w: "hosted_FW_TPTask_Run e (NBDWriteArgs u ta) ?s = Inr (Inr (), ?s\<lparr>ho_stdout := [''Updated'']\<rparr>)"
    using l by (subst plugin_run [of _ _ path]) (simp_all add: mapped_def host_def)
  have r: "hosted_FW_TPTask_Run e (NBDReadArgs u ta) ?s = on_master (FW_TPTask_Run e (NBDReadArgs u ta)) ?s"
    using assms(1) by (intro builtin_run [of _ _ ReadCommand]) (simp_all add: host_def)
  have "hosted_Load opens path ?s = Inr (Inr (), ?s)"
    using l by (simp add: hosted_Load_def mapped_def Load_def cpp_simps)
  with s w r show ?thesis by (auto simp: host_def)
qed

text \<open>
  Removing the plugin does not bring the write command back: the factory still has the plugin's creator, and the next
  write calls code that is no longer mapped.
\<close>

theorem unloaded_plugin_dangles:
  assumes "opens path" and "\<not> mapped s path" and "GetKey args = 0"
  shows "\<exists>s1 s2. hosted_Load opens path s = Inr (Inr (), s1) \<and> hosted_Unload path s1 = Inr (Inr (), s2) \<and>
    hosted_FW_TPTask_Run e args s2 = Inl UnmappedCode"
proof -
  from hosted_Load_new [where opens = opens, OF assms(1,2)] obtain l where
    s: "hosted_Load opens path s = Inr (Inr (), s\<lparr>ho_loader := l, ho_factory := (ho_factory s)(0 \<mapsto> InPlugin path)\<rparr>)"
      (is "_ = Inr (_, ?s)")
    and l: "map_of (m_dll_map l) path = Some (next_handle (ho_loader s))" "next_handle (ho_loader s) \<in> set (open_handles l)"
    by auto
  from hosted_Unload_loaded [of ?s path] l obtain l' where
    u: "hosted_Unload path ?s = Inr (Inr (), ?s\<lparr>ho_loader := l', ho_stdout := ho_stdout s @ [''plugin removed'']\<rparr>)"
    "map_of (m_dll_map l') path = None" by auto
  from u(2) assms(3) have "hosted_FW_TPTask_Run e args
      (?s\<lparr>ho_loader := l', ho_stdout := ho_stdout s @ [''plugin removed'']\<rparr>) = Inl UnmappedCode"
    by (subst plugin_run [of _ _ path]) (simp_all add: mapped_def)
  with s u(1) show ?thesis by blast
qed

section \<open>Witnesses\<close>

definition ex_hosted :: master where
  "ex_hosted = started \<lparr>tcp_in = [], tcp_sends = [], tcp_out = []\<rparr> 4 []"

theorem loaded_plugin_swallows_writes_witness:
  "\<forall>e. \<exists>s. hosted_Load (\<lambda>_. True) ''plugins/a.so'' (host ex_hosted) = Inr (Inr (), s) \<and>
    hosted_FW_TPTask_Run e (NBDWriteArgs (UID 0) (new_TaskArgs 0 2 (Some [1, 2]))) s =
      Inr (Inr (), s\<lparr>ho_stdout := [''Updated'']\<rparr>)"
proof -
  have "cmd_factory ex_hosted = [0 \<mapsto> WriteCommand, 1 \<mapsto> ReadCommand]" by (simp add: ex_hosted_def started_def)
  from loaded_plugin_swallows_writes [OF this, of "\<lambda>_. True"] show ?thesis by blast
qed

theorem unloaded_plugin_dangles_witness:
  "\<forall>e. \<exists>s1 s2. hosted_Load (\<lambda>_. True) ''plugins/a.so'' (host ex_hosted) = Inr (Inr (), s1) \<and>
    hosted_Unload ''plugins/a.so'' s1 = Inr (Inr (), s2) \<and>
    hosted_FW_TPTask_Run e (NBDWriteArgs (UID 0) (new_TaskArgs 0 2 (Some [1, 2]))) s2 = Inl UnmappedCode"
  by (rule allI, rule unloaded_plugin_dangles) (simp_all add: mapped_def host_def new_DLLLoader_def)

end
