(* ===== verification/Reactor_Threads.thy ===== *)
theory Reactor_Threads
  imports Reactors
begin

text \<open>
  The thread of \<open>MinionManager\<close> (\<open>concrete/src/MinionManager.cpp\<close>): \<open>Init\<close> starts it, it runs the manager's reactor, and the
  destructor stops the reactor and joins the thread (\<open>m_worker\<close> is a \<open>std::jthread\<close>).  The functions of one turn are one
  step; between the steps the destructor may run.
\<close>

section \<open>Model\<close>

text \<open>
  The worker before the first line of \<open>Reactor::Run\<close>, at the test of the loop, in \<open>select\<close>, at its end, or gone with an
  exception, which ends the process; the owner of the manager before its destructor, in the join, after it.
\<close>

datatype rt_pc = Starting | Testing | Listening | Ended | Terminated
datatype owner_pc = Owning | Joining | Gone

record ('f, 'w) reactor_thread =
  rt_reactor :: "('f, 'w) Reactor"
  m_worker :: rt_pc
  rt_owner :: owner_pc

definition Init_worker :: "('f, 'w) Reactor \<Rightarrow> ('f, 'w) reactor_thread" where
  "Init_worker r = \<lparr>rt_reactor = r, m_worker = Starting, rt_owner = Owning\<rparr>"

definition Run_enter :: "('f, 'w) reactor_thread \<Rightarrow> ('f, 'w) reactor_thread" where
  "Run_enter s = s\<lparr>m_worker := Testing, rt_reactor := (rt_reactor s)\<lparr>m_running := True\<rparr>\<rparr>"

definition Run_test :: "('f, 'w) reactor_thread \<Rightarrow> ('f, 'w) reactor_thread" where
  "Run_test s = s\<lparr>m_worker := (if m_running (rt_reactor s) then Listening else Ended)\<rparr>"

definition Run_turn :: "('f \<Rightarrow> fd_mode \<Rightarrow> ('f, 'w) Reactor \<Rightarrow> ('f, 'w) Reactor res) \<Rightarrow> (fd_mode \<Rightarrow> bool) option
    \<Rightarrow> ('f, 'w) reactor_thread \<Rightarrow> ('f, 'w) reactor_thread" where
  "Run_turn call ready s =
     (case turn call ready (rt_reactor s) of
        Inl e \<Rightarrow> s\<lparr>m_worker := Terminated\<rparr>
      | Inr r \<Rightarrow> s\<lparr>m_worker := Testing, rt_reactor := r\<rparr>)"

text \<open>The destructor's body, after which the members are destroyed and \<open>m_worker\<close> is joined.\<close>

definition MinionManager_delete :: "('f, 'w) reactor_thread \<Rightarrow> ('f, 'w) reactor_thread" where
  "MinionManager_delete s = s\<lparr>rt_reactor := Reactor_Stop (rt_reactor s), rt_owner := Joining\<rparr>"

text \<open>\<open>Woken\<close> is the return of \<open>select\<close>, which needs a datagram of a minion or an error.\<close>

datatype rt_event = Entered | Tested | Woken | Destructed | Joined

inductive rt_step :: "('f \<Rightarrow> fd_mode \<Rightarrow> ('f, 'w) Reactor \<Rightarrow> ('f, 'w) Reactor res) \<Rightarrow> ('f, 'w) reactor_thread \<Rightarrow> rt_event
    \<Rightarrow> ('f, 'w) reactor_thread \<Rightarrow> bool" for call where
  enter: "m_worker s = Starting \<Longrightarrow> rt_step call s Entered (Run_enter s)"
| test: "m_worker s = Testing \<Longrightarrow> rt_step call s Tested (Run_test s)"
| wake: "m_worker s = Listening \<Longrightarrow> rt_step call s Woken (Run_turn call ready s)"
| destruct: "rt_owner s = Owning \<Longrightarrow> rt_step call s Destructed (MinionManager_delete s)"
| join: "rt_owner s = Joining \<Longrightarrow> m_worker s = Ended \<Longrightarrow> rt_step call s Joined (s\<lparr>rt_owner := Gone\<rparr>)"

inductive_cases rt_step_E: "rt_step call s ev s'"

inductive rt_run :: "('f \<Rightarrow> fd_mode \<Rightarrow> ('f, 'w) Reactor \<Rightarrow> ('f, 'w) Reactor res) \<Rightarrow> ('f, 'w) reactor_thread \<Rightarrow> rt_event list
    \<Rightarrow> ('f, 'w) reactor_thread \<Rightarrow> bool" for call s where
  refl: "rt_run call s [] s"
| step: "rt_run call s evs s1 \<Longrightarrow> rt_step call s1 ev s2 \<Longrightarrow> rt_run call s (evs @ [ev]) s2"

section \<open>Lemmas\<close>

text \<open>Functions that do not stop the reactor themselves, as those of the minions' descriptors.\<close>

definition keeps_flag :: "('f \<Rightarrow> fd_mode \<Rightarrow> ('f, 'w) Reactor \<Rightarrow> ('f, 'w) Reactor res) \<Rightarrow> bool" where
  "keeps_flag call \<longleftrightarrow> (\<forall>f p r r'. call f p r = Inr r' \<longrightarrow> m_running r' = m_running r)"

lemma call_selected_flag: "keeps_flag call \<Longrightarrow> call_selected call ps r = Inr r' \<Longrightarrow> m_running r' = m_running r"
proof (induction ps arbitrary: r)
  case (Cons p ps)
  obtain func r1 where "call func p r = Inr r1" "call_selected call ps r1 = Inr r'"
    using Cons.prems(2) by (auto simp: rbind_def split: option.splits sum.splits)
  with Cons show ?case unfolding keeps_flag_def by metis
qed simp

lemma Run_turn_cases:
  assumes "keeps_flag call"
  shows "rt_owner (Run_turn call ready s) = rt_owner s \<and>
    (m_worker (Run_turn call ready s) = Terminated \<or>
     m_worker (Run_turn call ready s) = Testing \<and> m_running (rt_reactor (Run_turn call ready s)) = m_running (rt_reactor s))"
  using call_selected_flag [OF assms] by (auto simp: Run_turn_def turn_def Let_def rbind_def split: sum.split)

text \<open>A reactor that has been stopped after its loop was entered, and how far it is from the end.\<close>

definition closing :: "('f, 'w) reactor_thread \<Rightarrow> bool" where
  "closing s \<longleftrightarrow> m_worker s = Terminated \<or> rt_owner s \<noteq> Owning \<and> \<not> m_running (rt_reactor s) \<and> m_worker s \<noteq> Starting"

definition rank :: "('f, 'w) reactor_thread \<Rightarrow> nat" where
  "rank s = (case m_worker s of Starting \<Rightarrow> 5 | Listening \<Rightarrow> 4 | Testing \<Rightarrow> 3 | Ended \<Rightarrow> 2 | Terminated \<Rightarrow> 0) -
     (if rt_owner s = Gone then 1 else 0) + (if rt_owner s = Owning then 1 else 0)"

lemma closing_step:
  assumes "closing s" and "rt_step call s ev s'" and "keeps_flag call" and "rt_owner s = Owning \<longrightarrow> m_worker s \<noteq> Terminated"
  shows "closing s' \<and> rank s' < rank s \<and> m_worker s' \<noteq> Listening \<and> rt_owner s' \<noteq> Owning"
  using assms(2,1,4)
proof cases
  case (wake ready)
  then show ?thesis using assms(1) Run_turn_cases [OF assms(3), of ready s]
    by (auto simp: closing_def rank_def)
qed (auto simp: closing_def rank_def Run_test_def)

lemma closing_run:
  assumes "rt_run call s evs s'" and "closing s" and "rt_owner s \<noteq> Owning" and "keeps_flag call"
  shows "closing s' \<and> rt_owner s' \<noteq> Owning \<and> rank s' + length evs \<le> rank s \<and> (evs = [] \<or> m_worker s' \<noteq> Listening)"
  using assms
proof induction
  case (step evs s1 ev s2)
  with closing_step [of s1 call ev s2] show ?case by fastforce
qed simp

section \<open>Properties\<close>

text \<open>
  A manager that is destroyed after its thread has entered the loop: the thread takes at most four more steps and waits in
  no new \<open>select\<close>; when nothing more happens, the destructor has returned, or an exception has ended the process, or the
  thread is in the very \<open>select\<close> that it was in when the destructor began.
\<close>

theorem destructor_joins_worker:
  assumes "rt_run call (MinionManager_delete s) evs s'" and "m_worker s \<in> {Testing, Listening, Ended}" and "keeps_flag call"
  shows "length evs \<le> 4 \<and> (m_worker s' = Listening \<longrightarrow> evs = []) \<and>
    (rt_owner s' = Gone \<or> m_worker s' \<in> {Listening, Terminated} \<or> (\<exists>ev s''. ev \<noteq> Woken \<and> rt_step call s' ev s''))"
proof -
  have c: "closing (MinionManager_delete s)" "rt_owner (MinionManager_delete s) \<noteq> Owning" "rank (MinionManager_delete s) \<le> 4"
    using assms(2) by (auto simp: closing_def MinionManager_delete_def Reactor_Stop_def rank_def)
  note r = closing_run [OF assms(1) c(1,2) assms(3)]
  have "\<exists>ev s''. ev \<noteq> Woken \<and> rt_step call s' ev s''"
    if "rt_owner s' \<noteq> Gone" "m_worker s' \<notin> {Listening, Terminated}"
    using that r rt_step.test [of s' call] rt_step.join [of s' call]
    by (cases "m_worker s'"; cases "rt_owner s'") (auto simp: closing_def)
  with r c(3) show ?thesis by auto
qed

text \<open>
  While the minions are silent the destructor does not return: \<open>Stop\<close> only clears a flag, and the \<open>select\<close> the thread is
  in has no time limit.
\<close>

theorem silent_minions_block_destructor:
  assumes "rt_run call s evs s'" and "m_worker s = Listening" and "rt_owner s = Joining" and "Woken \<notin> set evs"
  shows "s' = s"
  using assms by induction (auto elim!: rt_step_E)

text \<open>
  A \<open>Stop\<close> that comes before the thread has executed the first line of \<open>Run\<close> is lost: \<open>Run\<close> sets the flag again, and the
  destructor never returns, whatever the minions send.
\<close>

theorem early_stop_lost:
  assumes "keeps_flag call" and "rt_run call (Run_enter (MinionManager_delete (Init_worker r))) evs s"
  shows "rt_owner s = Joining"
proof -
  have "m_worker s = Terminated \<and> rt_owner s = Joining \<or>
      m_worker s \<in> {Testing, Listening} \<and> rt_owner s = Joining \<and> m_running (rt_reactor s)"
    using assms(2)
  proof induction
    case (step evs s1 ev s2)
    from step(2) show ?case
    proof cases
      case (wake ready)
      then show ?thesis using step(3) Run_turn_cases [OF assms(1), of ready s1] by auto
    qed (use step(3) in \<open>auto simp: Run_test_def\<close>)
  qed (simp add: Run_enter_def MinionManager_delete_def Init_worker_def)
  then show ?thesis by auto
qed

section \<open>Witnesses\<close>

definition ex_thread :: "(nat, unit) reactor_thread" where
  "ex_thread = \<lparr>rt_reactor = \<lparr>m_listen_funcs = [], m_running = True, world = ()\<rparr>, m_worker = Listening, rt_owner = Owning\<rparr>"

lemma ex_keeps_flag: "keeps_flag (\<lambda>_ _. Inr)"
  by (simp add: keeps_flag_def)

theorem destructor_joins_worker_witness:
  "\<exists>ev s. ev \<noteq> Woken \<and> rt_step (\<lambda>_ _. Inr) (Run_turn (\<lambda>_ _. Inr) (Some (\<lambda>_. True)) (MinionManager_delete ex_thread)) ev s"
proof -
  let ?s = "Run_turn (\<lambda>_ _. Inr) (Some (\<lambda>_. True)) (MinionManager_delete ex_thread)"
  have s: "m_worker ?s = Testing" "rt_owner ?s = Joining"
    by (simp_all add: ex_thread_def Run_turn_def turn_def Listen_def select_def MinionManager_delete_def Reactor_Stop_def)
  have "rt_step (\<lambda>_ _. Inr) (MinionManager_delete ex_thread) Woken ?s"
    by (rule rt_step.wake) (simp add: MinionManager_delete_def ex_thread_def)
  from destructor_joins_worker [OF rt_run.step [OF rt_run.refl this] _ ex_keeps_flag] s show ?thesis
    by (simp add: ex_thread_def)
qed

theorem silent_minions_block_destructor_witness:
  "\<exists>s. rt_run (\<lambda>_ _. Inr) (MinionManager_delete ex_thread) [] s \<and> s = MinionManager_delete ex_thread"
proof -
  have r: "rt_run (\<lambda>_ _. Inr) (MinionManager_delete ex_thread) [] (MinionManager_delete ex_thread)" by (rule rt_run.refl)
  have "MinionManager_delete ex_thread = MinionManager_delete ex_thread"
    by (rule silent_minions_block_destructor [OF r]) (simp_all add: MinionManager_delete_def ex_thread_def)
  with r show ?thesis by blast
qed

theorem early_stop_lost_witness:
  "rt_owner (Run_enter (MinionManager_delete (Init_worker (new_Reactor () :: (nat, unit) Reactor)))) = Joining"
  by (rule early_stop_lost [OF ex_keeps_flag rt_run.refl])

end
