(* ===== verification/Descriptors.thy ===== *)
theory Descriptors
  imports Task_Args "HOL-Library.Multiset"
begin

text \<open>
  Who owns which descriptor: \<open>concrete/include/SocketBase.hpp\<close>, the base of both socket classes, and the life of the
  block device in \<open>concrete/src/NBD.cpp\<close>.  Closing a descriptor that is not open is made visible as a fault: the number
  may by then belong to somebody else.
\<close>

section \<open>Sockets\<close>

record sockets =
  open_fds :: "int list"
  m_fd :: "nat \<rightharpoonup> int"

definition close_fd :: "int \<Rightarrow> sockets \<Rightarrow> sockets res" where
  "close_fd fd w = (if fd \<in> set (open_fds w) then Inr (w\<lparr>open_fds := remove1 fd (open_fds w)\<rparr>) else Inl (UB BadHandle))"

definition set_fd :: "nat \<Rightarrow> int \<Rightarrow> sockets \<Rightarrow> sockets" where
  "set_fd s fd w = w\<lparr>m_fd := (m_fd w)(s \<mapsto> fd)\<rparr>"

text \<open>A use of an object that does not exist is not a step of a program; it has no value here.\<close>

definition Reset :: "nat \<Rightarrow> int \<Rightarrow> sockets \<Rightarrow> sockets res" where
  "Reset s fd w =
     (case m_fd w s of
        None \<Rightarrow> Inl (UB NullPointer)
      | Some old \<Rightarrow> rbind (if old \<noteq> - 1 then close_fd old w else Inr w) (\<lambda>w. Inr (set_fd s fd w)))"

definition SocketBase_new :: "nat \<Rightarrow> int \<Rightarrow> sockets \<Rightarrow> sockets" where
  "SocketBase_new s fd w = set_fd s fd w"

definition SocketBase_move :: "nat \<Rightarrow> nat \<Rightarrow> sockets \<Rightarrow> sockets res" where
  "SocketBase_move s other w =
     (case m_fd w other of None \<Rightarrow> Inl (UB NullPointer) | Some fd \<Rightarrow> Inr (set_fd other (- 1) (set_fd s fd w)))"

definition SocketBase_assign :: "nat \<Rightarrow> nat \<Rightarrow> sockets \<Rightarrow> sockets res" where
  "SocketBase_assign s other w =
     (if s \<noteq> other
      then case m_fd w other of
        None \<Rightarrow> Inl (UB NullPointer)
      | Some fd \<Rightarrow> rbind (Reset s fd w) (\<lambda>w. Inr (set_fd other (- 1) w))
      else Inr w)"

definition SocketBase_delete :: "nat \<Rightarrow> sockets \<Rightarrow> sockets res" where
  "SocketBase_delete s w = rbind (Reset s (- 1) w) (\<lambda>w. Inr (w\<lparr>m_fd := (m_fd w)(s := None)\<rparr>))"

text \<open>
  What a program does with sockets: it opens a descriptor and gives it to a new object (\<open>fd = -1\<close> is an object whose
  descriptor comes later), moves an object into a new one, assigns and destroys.
\<close>

datatype socket_op = Create nat int | Move nat nat | Assign nat nat | Destroy nat

primrec do_op :: "socket_op \<Rightarrow> sockets \<Rightarrow> sockets res" where
  "do_op (Create s fd) w =
     Inr (SocketBase_new s fd (if fd = - 1 then w else w\<lparr>open_fds := fd # open_fds w\<rparr>))"
| "do_op (Move s other) w = SocketBase_move s other w"
| "do_op (Assign s other) w = SocketBase_assign s other w"
| "do_op (Destroy s) w = SocketBase_delete s w"

primrec sensible :: "socket_op \<Rightarrow> sockets \<Rightarrow> bool" where
  "sensible (Create s fd) w \<longleftrightarrow> m_fd w s = None \<and> fd \<notin> set (open_fds w)"
| "sensible (Move s other) w \<longleftrightarrow> m_fd w s = None \<and> m_fd w other \<noteq> None"
| "sensible (Assign s other) w \<longleftrightarrow> m_fd w s \<noteq> None \<and> m_fd w other \<noteq> None"
| "sensible (Destroy s) w \<longleftrightarrow> m_fd w s \<noteq> None"

text \<open>A run of sensible operations; none when one of them is not.\<close>

fun socket_ops :: "socket_op list \<Rightarrow> sockets \<Rightarrow> sockets res option" where
  "socket_ops [] w = Some (Inr w)"
| "socket_ops (op # ops) w =
     (if sensible op w then case do_op op w of Inl e \<Rightarrow> Some (Inl e) | Inr w \<Rightarrow> socket_ops ops w else None)"

text \<open>Every open descriptor has exactly one owner.\<close>

definition owned :: "sockets \<Rightarrow> bool" where
  "owned w \<longleftrightarrow> distinct (open_fds w) \<and> - 1 \<notin> set (open_fds w) \<and>
     (\<forall>fd. fd \<in> set (open_fds w) \<longleftrightarrow> fd \<noteq> - 1 \<and> (\<exists>s. m_fd w s = Some fd)) \<and>
     (\<forall>s s' fd. m_fd w s = Some fd \<longrightarrow> m_fd w s' = Some fd \<longrightarrow> fd \<noteq> - 1 \<longrightarrow> s = s')"

lemma ownedD:
  assumes "owned w"
  shows "distinct (open_fds w)" "- 1 \<notin> set (open_fds w)"
    "fd \<in> set (open_fds w) \<longleftrightarrow> fd \<noteq> - 1 \<and> (\<exists>s. m_fd w s = Some fd)"
    "m_fd w s = Some fd \<Longrightarrow> m_fd w s' = Some fd \<Longrightarrow> fd \<noteq> - 1 \<Longrightarrow> s = s'"
  using assms unfolding owned_def by blast+

lemma Reset_owned:
  assumes "owned w" and "m_fd w s = Some old"
  shows "Reset s fd w = Inr (set_fd s fd (w\<lparr>open_fds := remove1 old (open_fds w)\<rparr>))"
proof (cases "old = - 1")
  case True
  with assms ownedD(2) [OF assms(1)] show ?thesis by (simp add: Reset_def remove1_idem)
next
  case False
  with assms ownedD(3) [OF assms(1), of old] show ?thesis by (auto simp: Reset_def close_fd_def)
qed

lemma owned_step:
  assumes "owned w" and "sensible op w"
  shows "\<exists>w'. do_op op w = Inr w' \<and> owned w'"
proof (cases op)
  case (Create s fd)
  with assms(2) ownedD [OF assms(1)] show ?thesis
    by (auto simp: owned_def SocketBase_new_def set_fd_def) (metis option.distinct(1))+
next
  case (Move s other)
  with assms(2) obtain fd where "m_fd w other = Some fd" "m_fd w s = None" by auto
  with Move ownedD [OF assms(1)] show ?thesis
    by (auto simp: owned_def SocketBase_move_def set_fd_def) (metis option.distinct(1) option.inject)
next
  case (Assign s other)
  with assms(2) obtain old fd where f: "m_fd w s = Some old" "m_fd w other = Some fd" by auto
  show ?thesis
  proof (cases "s = other")
    case False
    with Assign f ownedD [OF assms(1)] Reset_owned [OF assms(1) f(1)] show ?thesis
      by (auto simp: owned_def SocketBase_assign_def set_fd_def) (metis option.inject)+
  qed (use assms(1) Assign in \<open>simp add: SocketBase_assign_def\<close>)
next
  case (Destroy s)
  with assms(2) obtain old where f: "m_fd w s = Some old" by auto
  with Destroy ownedD [OF assms(1)] Reset_owned [OF assms(1) f] show ?thesis
    by (auto simp: owned_def SocketBase_delete_def set_fd_def) (metis option.inject)
qed

lemma owned_ops: "owned w \<Longrightarrow> socket_ops ops w = Some r \<Longrightarrow> \<exists>w'. r = Inr w' \<and> owned w'"
proof (induction ops arbitrary: w)
  case (Cons op ops)
  then have "sensible op w" by (auto split: if_splits)
  from owned_step [OF Cons.prems(1) this] Cons \<open>sensible op w\<close> show ?case by auto
qed auto

section \<open>The block device\<close>

text \<open>
  What the process keeps for the device: the open descriptors, the running children, the static
  \<open>s_nbdDevToDisconnect\<close>, whether the signal handler is set, how often the device took a disconnect, and the log.
\<close>

record nbd_process =
  nbd_fds :: "int list"
  children :: "int list"
  s_nbdDevToDisconnect :: int
  handled :: bool
  disconnects :: nat
  nbd_log :: "log_entry list"

record NBD =
  m_device :: int
  m_clientSocket :: "int option"
  m_serverSocket :: "int option"
  m_childPid :: int

text \<open>What the system calls of the constructor return.\<close>

record nbd_calls =
  open_device :: int
  socketpair :: "(int \<times> int) option"
  set_size_ok :: bool
  clear_sock_ok :: bool
  fork_pid :: int
  sigsets_ok :: bool
  sigactions_ok :: bool

definition nbd_close :: "int \<Rightarrow> nbd_process \<Rightarrow> nbd_process" where
  "nbd_close fd p = p\<lparr>nbd_fds := removeAll fd (nbd_fds p)\<rparr>"

definition SocketsInit :: "nbd_calls \<Rightarrow> NBD \<Rightarrow> nbd_process \<Rightarrow> exn option \<times> NBD \<times> nbd_process" where
  "SocketsInit k n p =
     (case socketpair k of
        None \<Rightarrow> (Some (runtime_error ''socketpair failed''), n, p)
      | Some (a, b) \<Rightarrow>
          let p = p\<lparr>nbd_fds := a # b # nbd_fds p\<rparr>;
              n = n\<lparr>m_serverSocket := Some a, m_clientSocket := Some b\<rparr>
          in (if \<not> set_size_ok k then Some (runtime_error ''ioctl NBD_SET_SIZE failed'')
              else if \<not> clear_sock_ok k then Some (runtime_error ''ioctl NBD_CLEAR_SOCK failed'')
              else None, n, p))"

text \<open>The destructors of the members, last one first: they run at the end of \<open>~NBD\<close> and when the constructor throws.\<close>

definition close_members :: "NBD \<Rightarrow> nbd_process \<Rightarrow> nbd_process" where
  "close_members n p =
     nbd_close (m_device n)
       (case_option id nbd_close (m_clientSocket n) (case_option id nbd_close (m_serverSocket n) p))"

text \<open>\<open>FDWrapper::FDWrapper\<close>, the holder of the device's descriptor.\<close>

definition new_FDWrapper :: "int \<Rightarrow> exn + int" where
  [simp]: "new_FDWrapper fd = (if fd = - 1 then Inl (runtime_error ''FDWrapper failed'') else Inr fd)"

text \<open>\<open>GetTCPSocket\<close>: \<open>m_serverSocket.value()\<close>.\<close>

definition GetTCPSocket :: "NBD \<Rightarrow> int res" where
  "GetTCPSocket n = (case m_serverSocket n of None \<Rightarrow> Inl (Throw bad_optional_access) | Some fd \<Rightarrow> Inr fd)"

text \<open>The constructor in the parent; an exception comes with the process it leaves.\<close>

definition new_NBD :: "nbd_calls \<Rightarrow> nbd_process \<Rightarrow> exn \<times> nbd_process + NBD \<times> nbd_process" where
  "new_NBD k p =
     (case new_FDWrapper (open_device k) of
        Inl e \<Rightarrow> Inl (e, p)
      | Inr device \<Rightarrow>
        let p = p\<lparr>nbd_fds := device # nbd_fds p\<rparr>;
            n = \<lparr>m_device = device, m_clientSocket = None, m_serverSocket = None, m_childPid = - 1\<rparr>;
            (failed, n, p) = SocketsInit k n p
        in case failed of
          Some e \<Rightarrow> Inl (e, close_members n p)
        | None \<Rightarrow>
            if fork_pid k = - 1 then Inl (runtime_error ''fork failed'', close_members n p)
            else
              let p = p\<lparr>children := fork_pid k # children p, s_nbdDevToDisconnect := m_device n\<rparr>;
                  n = n\<lparr>m_childPid := fork_pid k\<rparr>
              in if \<not> sigsets_ok k
                 then Inl (runtime_error ''failed to prepare signal mask in server'', close_members n p)
                 else if \<not> sigactions_ok k
                 then Inl (runtime_error ''failed to set server signals'', close_members n p)
                 else Inr (n, p\<lparr>handled := True\<rparr>))"

text \<open>\<open>DisconnectNBD\<close>, the signal handler: \<open>took\<close> says whether the device takes the request.\<close>

definition DisconnectNBD :: "bool \<Rightarrow> nbd_process \<Rightarrow> nbd_process" where
  "DisconnectNBD took p =
     (if s_nbdDevToDisconnect p \<noteq> - 1
      then if \<not> (took \<and> s_nbdDevToDisconnect p \<in> set (nbd_fds p))
        then p\<lparr>nbd_log := nbd_log p @ [(SEV_WARNING, ''failed to request disconect on nbd device'')]\<rparr>
        else p\<lparr>s_nbdDevToDisconnect := - 1, disconnects := Suc (disconnects p),
               nbd_log := nbd_log p @ [(SEV_DEBUG, ''sucessfuly requested disconnect on nbd device'')]\<rparr>
      else p)"

text \<open>
  The destructor.  The child leaves \<open>NBD_DO_IT\<close> when the device was disconnected or for a reason of its own,
  \<open>exits\<close>; otherwise \<open>waitpid\<close> does not return.
\<close>

definition NBD_delete :: "bool \<Rightarrow> bool \<Rightarrow> NBD \<Rightarrow> nbd_process \<Rightarrow> nbd_process option" where
  "NBD_delete took exits n p =
     (let p = DisconnectNBD took p
      in if m_childPid n > 0
         then if 0 < disconnects p \<or> exits
           then Some (close_members n (p\<lparr>children := removeAll (m_childPid n) (children p)\<rparr>))
           else None
         else Some (close_members n p))"

text \<open>\<open>RunClient\<close> in the child: the calls in order, with the message of the first that fails.\<close>

definition RunClient :: "bool \<Rightarrow> bool \<Rightarrow> bool \<Rightarrow> bool \<Rightarrow> bool \<Rightarrow> unit res" where
  "RunClient mask_ok set_sock do_it clear_que clear_sock =
     rbind (guard mask_ok (Throw (runtime_error ''failed to block signals in client''))) (\<lambda>_.
     rbind (guard set_sock (Throw (runtime_error ''ioctl NBD_SET_SOCK failed''))) (\<lambda>_.
     rbind (guard do_it (Throw (runtime_error ''ioctl NBD_DO_IT failed''))) (\<lambda>_.
     rbind (guard clear_que (Throw (runtime_error ''ioctl NBD_CLEAR_QUE failed''))) (\<lambda>_.
     guard clear_sock (Throw (runtime_error ''ioctl client NBD_CLEAR_SOCK failed''))))))"

definition child_status :: "unit res \<Rightarrow> int" where
  "child_status r = (case r of Inr _ \<Rightarrow> 0 | Inl _ \<Rightarrow> 1)"

section \<open>The life of the device\<close>

text \<open>The kernel hands out descriptors that are not open and a process number that is positive and not in use.\<close>

definition fresh_calls :: "nbd_calls \<Rightarrow> nbd_process \<Rightarrow> bool" where
  "fresh_calls k p \<longleftrightarrow>
     (let fds = (if open_device k = - 1 then [] else [open_device k]) @
        (case socketpair k of None \<Rightarrow> [] | Some (a, b) \<Rightarrow> [a, b])
      in distinct fds \<and> - 1 \<notin> set fds \<and> set fds \<inter> set (nbd_fds p) = {}) \<and>
     (fork_pid k = - 1 \<or> 0 < fork_pid k \<and> fork_pid k \<notin> set (children p))"

definition forked :: "nbd_calls \<Rightarrow> bool" where
  "forked k \<longleftrightarrow> open_device k \<noteq> - 1 \<and> socketpair k \<noteq> None \<and> set_size_ok k \<and> clear_sock_ok k \<and> fork_pid k \<noteq> - 1"

lemma DisconnectNBD_fields [simp]:
  "nbd_fds (DisconnectNBD took p) = nbd_fds p" "children (DisconnectNBD took p) = children p"
  by (simp_all add: DisconnectNBD_def)

text \<open>After signals: at most one disconnect was taken, and then the static is cleared.\<close>

lemma signals_state:
  assumes "s_nbdDevToDisconnect p = dev" and "dev \<in> set (nbd_fds p)" and "dev \<noteq> - 1" and "disconnects p = 0"
  shows "let q = fold DisconnectNBD signals p in
    nbd_fds q = nbd_fds p \<and> children q = children p \<and> disconnects q = of_bool (True \<in> set signals) \<and>
    s_nbdDevToDisconnect q = (if True \<in> set signals then - 1 else dev)"
proof (induction signals rule: rev_induct)
  case (snoc sg signals)
  with assms show ?case by (auto simp: Let_def DisconnectNBD_def)
qed (use assms in simp)

section \<open>Properties\<close>

text \<open>
  C39. However a program creates, moves, assigns and destroys sockets, no descriptor is closed twice or used after it
  was closed, every open descriptor belongs to exactly one socket, and none is left open when all sockets are gone.
\<close>

theorem socket_descriptors_owned:
  assumes "socket_ops ops \<lparr>open_fds = [], m_fd = Map.empty\<rparr> = Some r"
  shows "\<exists>w. r = Inr w \<and> (\<forall>fd \<in> set (open_fds w). \<exists>!s. m_fd w s = Some fd) \<and>
    (m_fd w = Map.empty \<longrightarrow> open_fds w = [])"
proof -
  have "owned \<lparr>open_fds = [], m_fd = Map.empty\<rparr>" by (simp add: owned_def)
  from owned_ops [OF this assms] obtain w where w: "r = Inr w" "owned w" by blast
  then have "open_fds w = []" if "m_fd w = Map.empty" using that by (auto simp: owned_def)
  moreover have "\<exists>!s. m_fd w s = Some fd" if "fd \<in> set (open_fds w)" for fd
    using ownedD [OF w(2)] that by metis
  ultimately show ?thesis using w by blast
qed

text \<open>
  C40. A device that was opened, with any number of signals before its destructor, asks the kernel to disconnect until
  the request is taken and not again; the destructor returns when a request was taken or the child ended by itself,
  and leaves the descriptors and children of the process as they were before the device.
\<close>

theorem nbd_lifecycle:
  assumes "fresh_calls k p" and "disconnects p = 0" and "new_NBD k p = Inr (n, q)"
  shows "case NBD_delete took exits n (fold DisconnectNBD signals q) of
      Some p' \<Rightarrow> (took \<or> True \<in> set signals \<or> exits) \<and> nbd_fds p' = nbd_fds p \<and> children p' = children p \<and>
        disconnects p' = of_bool (took \<or> True \<in> set signals)
    | None \<Rightarrow> \<not> (took \<or> True \<in> set signals \<or> exits)"
proof -
  obtain a b where ab: "socketpair k = Some (a, b)"
    using assms(3) by (auto simp: new_NBD_def SocketsInit_def Let_def split: if_splits option.splits)
  from assms(1,3) ab have n: "n = \<lparr>m_device = open_device k, m_clientSocket = Some b, m_serverSocket = Some a,
      m_childPid = fork_pid k\<rparr>" "0 < fork_pid k" "open_device k \<noteq> - 1"
    and q: "nbd_fds q = a # b # open_device k # nbd_fds p" "children q = fork_pid k # children p"
      "s_nbdDevToDisconnect q = open_device k" "disconnects q = 0"
    using assms(2) by (auto simp: new_NBD_def SocketsInit_def Let_def fresh_calls_def split: if_splits)
  have fr: "a \<notin> set (nbd_fds p)" "b \<notin> set (nbd_fds p)" "open_device k \<notin> set (nbd_fds p)"
      "fork_pid k \<notin> set (children p)"
    using assms(1) ab n(2,3) by (auto simp: fresh_calls_def Let_def)
  have d: "open_device k \<in> set (nbd_fds q)" using q(1) by simp
  from signals_state [OF q(3) d n(3) q(4), of "signals @ [took]"] signals_state [OF q(3) d n(3) q(4), of signals]
  show ?thesis
    by (auto simp: NBD_delete_def Let_def n(1,2) close_members_def nbd_close_def q fr)
qed

text \<open>
  When the constructor of the device throws, every descriptor it opened is closed again; but when it throws after
  \<open>fork\<close>, the child stays behind unreaped and \<open>s_nbdDevToDisconnect\<close> keeps the number of the closed descriptor.
\<close>

theorem nbd_failed_constructor:
  assumes "fresh_calls k p" and "new_NBD k p = Inl (e, q)"
  shows "nbd_fds q = nbd_fds p \<and>
    (if forked k then children q = fork_pid k # children p \<and> s_nbdDevToDisconnect q = open_device k \<and>
       open_device k \<notin> set (nbd_fds q)
     else children q = children p \<and> s_nbdDevToDisconnect q = s_nbdDevToDisconnect p)"
proof (cases "open_device k = - 1 \<or> socketpair k = None")
  case True
  with assms show ?thesis
    by (auto simp: new_NBD_def SocketsInit_def forked_def close_members_def nbd_close_def fresh_calls_def Let_def
        split: if_splits)
next
  case False
  then obtain a b where ab: "socketpair k = Some (a, b)" and dev: "open_device k \<noteq> - 1" by auto
  have fr: "a \<notin> set (nbd_fds p)" "b \<notin> set (nbd_fds p)" "open_device k \<notin> set (nbd_fds p)"
    using assms(1) ab dev by (auto simp: fresh_calls_def Let_def)
  from assms(2) show ?thesis
    by (cases "set_size_ok k"; cases "clear_sock_ok k"; cases "fork_pid k = - 1")
      (auto simp: new_NBD_def SocketsInit_def forked_def close_members_def nbd_close_def ab dev fr Let_def
        split: if_splits)
qed

text \<open>The socket of a constructed device is there, open, and different from the device.\<close>

lemma GetTCPSocket_constructed:
  assumes "fresh_calls k p" and "new_NBD k p = Inr (n, q)"
  shows "\<exists>fd. GetTCPSocket n = Inr fd \<and> fd \<in> set (nbd_fds q) \<and> fd \<noteq> m_device n"
proof -
  obtain a b where ab: "socketpair k = Some (a, b)"
    using assms(2) by (auto simp: new_NBD_def SocketsInit_def Let_def split: if_splits option.splits)
  from assms ab show ?thesis
    by (auto simp: new_NBD_def SocketsInit_def Let_def fresh_calls_def GetTCPSocket_def split: if_splits)
qed

section \<open>Witnesses\<close>

definition ex_calls :: "bool \<Rightarrow> nbd_calls" where
  "ex_calls ok = \<lparr>open_device = 3, socketpair = Some (4, 5), set_size_ok = True, clear_sock_ok = True, fork_pid = 77,
     sigsets_ok = True, sigactions_ok = ok\<rparr>"

definition ex_process :: nbd_process where
  "ex_process = \<lparr>nbd_fds = [0, 1, 2], children = [], s_nbdDevToDisconnect = - 1, handled = False, disconnects = 0,
     nbd_log = []\<rparr>"

lemma ex_fresh: "fresh_calls (ex_calls ok) ex_process" "disconnects ex_process = 0"
  by (simp_all add: fresh_calls_def ex_calls_def ex_process_def)

theorem socket_descriptors_owned_witness:
  "\<exists>w. socket_ops [Create 0 7, Move 1 0, Create 2 8, Assign 2 1, Destroy 0, Destroy 1, Destroy 2]
      \<lparr>open_fds = [], m_fd = Map.empty\<rparr> = Some (Inr w) \<and> open_fds w = []"
proof -
  let ?ops = "[Create 0 7, Move 1 0, Create 2 8, Assign 2 1, Destroy 0, Destroy 1, Destroy 2]"
  obtain w where w: "socket_ops ?ops \<lparr>open_fds = [], m_fd = Map.empty\<rparr> = Some (Inr w)" "m_fd w = Map.empty"
    by (simp add: SocketBase_new_def SocketBase_move_def SocketBase_assign_def SocketBase_delete_def Reset_def
        close_fd_def set_fd_def)
  from socket_descriptors_owned [OF w(1)] w show ?thesis by auto
qed

theorem nbd_lifecycle_witness:
  "\<exists>n q p'. new_NBD (ex_calls True) ex_process = Inr (n, q) \<and>
    NBD_delete False False n (fold DisconnectNBD [False, True, True] q) = Some p' \<and>
    nbd_fds p' = [0, 1, 2] \<and> children p' = [] \<and> disconnects p' = 1"
proof -
  obtain n q where c: "new_NBD (ex_calls True) ex_process = Inr (n, q)"
    by (auto simp: new_NBD_def SocketsInit_def ex_calls_def Let_def)
  from nbd_lifecycle [OF ex_fresh c, where took = False and exits = False and signals = "[False, True, True]"] c show ?thesis
    by (auto simp: ex_process_def split: option.splits)
qed

theorem nbd_failed_constructor_witness:
  "\<exists>e q. new_NBD (ex_calls False) ex_process = Inl (e, q) \<and> nbd_fds q = [0, 1, 2] \<and> children q = [77] \<and>
    s_nbdDevToDisconnect q = 3"
proof -
  obtain e q where c: "new_NBD (ex_calls False) ex_process = Inl (e, q)"
    by (auto simp: new_NBD_def SocketsInit_def ex_calls_def Let_def)
  have "forked (ex_calls False)" by (simp add: forked_def ex_calls_def)
  with nbd_failed_constructor [OF ex_fresh(1) c] c show ?thesis by (simp add: ex_process_def ex_calls_def)
qed

end
