(* ===== verification/Handletons.thy ===== *)
theory Handletons
  imports Iot_Prelude
begin

text \<open>
  \<open>framework/include/handleton.hpp\<close>: the global instances (logger, thread pool, scheduler, factories) of a process.
  \<open>GetInstance<T>\<close> is a template with a static \<open>once_flag\<close>, of which every shared object that uses it may have a copy of
  its own; a flag is named by the shared object and the type, both numbers here.  The table of instances
  is one for the process.  An entry can be a null pointer: \<open>m_handletons[&typeid(T)].reset(new T)\<close> makes the entry
  before it runs the constructor, which can throw.
\<close>

section \<open>Model\<close>

datatype once = Unset | Running | Done

text \<open>Where a thread is in \<open>GetInstance\<close>: outside, at the flag, in the function \<open>call_once\<close> runs, at the table.\<close>

datatype caller = Outside | AtFlag nat nat | InBody nat nat | AtTable nat

record handletons =
  flags :: "nat \<times> nat \<Rightarrow> once"
  m_handletons :: "nat \<rightharpoonup> nat option"
  next_instance :: nat
  constructed :: "(nat \<times> nat) list"
  callers :: "caller list"
  returned :: "(nat \<times> nat option) list"
  missing :: nat

definition new_handletons :: "nat \<Rightarrow> handletons" where
  "new_handletons n = \<lparr>flags = (\<lambda>_. Unset), m_handletons = Map.empty, next_instance = 0, constructed = [],
     callers = replicate n Outside, returned = [], missing = 0\<rparr>"

text \<open>
  The function under \<open>m_mtx\<close> for type \<open>t\<close>; \<open>throws\<close> says whether the constructor of the type throws.
\<close>

definition create_once :: "bool \<Rightarrow> nat \<Rightarrow> handletons \<Rightarrow> bool \<times> handletons" where
  "create_once throws t h =
     (if m_handletons h t \<noteq> None then (False, h)
      else if throws then (True, h\<lparr>m_handletons := (m_handletons h)(t \<mapsto> None)\<rparr>)
      else (False, h\<lparr>m_handletons := (m_handletons h)(t \<mapsto> Some (next_instance h)),
              next_instance := Suc (next_instance h), constructed := constructed h @ [(t, next_instance h)]\<rparr>))"

definition at_table :: "nat \<Rightarrow> handletons \<Rightarrow> handletons" where
  "at_table t h =
     (case m_handletons h t of
        None \<Rightarrow> h\<lparr>missing := Suc (missing h)\<rparr>
      | Some p \<Rightarrow> h\<lparr>returned := returned h @ [(t, p)]\<rparr>)"

definition goto :: "nat \<Rightarrow> caller \<Rightarrow> handletons \<Rightarrow> handletons" where
  "goto i c h = h\<lparr>callers := (callers h)[i := c]\<rparr>"

definition set_flag :: "nat \<Rightarrow> nat \<Rightarrow> once \<Rightarrow> handletons \<Rightarrow> handletons" where
  "set_flag m t f h = h\<lparr>flags := (flags h)((m, t) := f)\<rparr>"

text \<open>\<open>throws\<close> says of which types the constructor may throw; the other types' constructors return.\<close>

inductive get_step :: "(nat \<Rightarrow> bool) \<Rightarrow> handletons \<Rightarrow> handletons \<Rightarrow> bool" for throws where
  call: "i < length (callers h) \<Longrightarrow> callers h ! i = Outside \<Longrightarrow> get_step throws h (goto i (AtFlag m t) h)"
| set_already: "i < length (callers h) \<Longrightarrow> callers h ! i = AtFlag m t \<Longrightarrow> flags h (m, t) = Done \<Longrightarrow>
    get_step throws h (goto i (AtTable t) h)"
| enter: "i < length (callers h) \<Longrightarrow> callers h ! i = AtFlag m t \<Longrightarrow> flags h (m, t) = Unset \<Longrightarrow>
    get_step throws h (goto i (InBody m t) (set_flag m t Running h))"
| body: "i < length (callers h) \<Longrightarrow> callers h ! i = InBody m t \<Longrightarrow> create_once b t h = (False, h') \<Longrightarrow>
    get_step throws h (goto i (AtTable t) (set_flag m t Done h'))"
| body_throws: "i < length (callers h) \<Longrightarrow> callers h ! i = InBody m t \<Longrightarrow> throws t \<Longrightarrow>
    create_once True t h = (True, h') \<Longrightarrow> get_step throws h (goto i Outside (set_flag m t Unset h'))"
| table: "i < length (callers h) \<Longrightarrow> callers h ! i = AtTable t \<Longrightarrow>
    get_step throws h (goto i Outside (at_table t h))"

inductive get_run :: "(nat \<Rightarrow> bool) \<Rightarrow> handletons \<Rightarrow> handletons \<Rightarrow> bool" for throws h where
  refl: "get_run throws h h"
| step: "get_run throws h h1 \<Longrightarrow> get_step throws h1 h2 \<Longrightarrow> get_run throws h h2"

section \<open>Invariant\<close>

definition handleton_inv :: "(nat \<Rightarrow> bool) \<Rightarrow> handletons \<Rightarrow> bool" where
  "handleton_inv throws h \<longleftrightarrow>
     missing h = 0 \<and> distinct (map fst (constructed h)) \<and>
     (\<forall>m t. flags h (m, t) = Done \<longrightarrow> m_handletons h t \<noteq> None) \<and>
     (\<forall>t. AtTable t \<in> set (callers h) \<longrightarrow> m_handletons h t \<noteq> None) \<and>
     (\<forall>t. m_handletons h t = Some None \<longrightarrow> throws t) \<and>
     (\<forall>t i. m_handletons h t = Some (Some i) \<longleftrightarrow> (t, i) \<in> set (constructed h)) \<and>
     (\<forall>(t, p) \<in> set (returned h). m_handletons h t = Some p)"

lemma handleton_inv_new: "handleton_inv throws (new_handletons n)"
  by (auto simp: handleton_inv_def new_handletons_def)

lemma in_set_update: "x \<in> set (xs[i := y]) \<Longrightarrow> x = y \<or> x \<in> set xs"
  using set_update_subset_insert by fastforce

lemma handleton_inv_goto:
  assumes "handleton_inv throws h" and "\<And>t. c = AtTable t \<Longrightarrow> m_handletons h t \<noteq> None"
  shows "handleton_inv throws (goto i c h)"
  using assms by (auto simp: handleton_inv_def goto_def dest!: in_set_update)

lemma m_handletons_set_flag [simp]: "m_handletons (set_flag m t f h) = m_handletons h"
  by (simp add: set_flag_def)

lemma handleton_inv_flag:
  assumes "handleton_inv throws h" and "f = Done \<Longrightarrow> m_handletons h t \<noteq> None"
  shows "handleton_inv throws (set_flag m t f h)"
  using assms by (auto simp: handleton_inv_def set_flag_def)

lemma handleton_inv_create:
  assumes "handleton_inv throws h" and "create_once b t h = (r, h')" and "r \<Longrightarrow> throws t"
  shows "handleton_inv throws h' \<and> m_handletons h' t \<noteq> None"
proof (cases "m_handletons h t")
  case None
  have c: "(t, i) \<notin> set (constructed h)" for i using None assms(1) unfolding handleton_inv_def by (metis option.distinct(1))
  have r: "(t, p) \<notin> set (returned h)" for p using None assms(1) by (auto simp: handleton_inv_def)
  from c have "t \<notin> fst ` set (constructed h)" by auto
  with None assms c r show ?thesis
    by (cases b) (auto simp: handleton_inv_def create_once_def split: if_splits)
qed (use assms in \<open>simp add: create_once_def\<close>)

lemma handleton_inv_table:
  assumes "handleton_inv throws h" and "m_handletons h t = Some p"
  shows "handleton_inv throws (at_table t h)"
  using assms by (auto simp: handleton_inv_def at_table_def)

lemma handleton_inv_step:
  assumes "get_step throws h h'" and "handleton_inv throws h"
  shows "handleton_inv throws h'"
  using assms
proof cases
  case (set_already i m t)
  then have "m_handletons h t \<noteq> None" using assms(2) by (simp only: handleton_inv_def) blast
  with set_already assms(2) show ?thesis by (auto intro!: handleton_inv_goto)
next
  case (body i m t b h1)
  from handleton_inv_create [OF assms(2) body(4)] body show ?thesis
    by (auto intro!: handleton_inv_goto handleton_inv_flag)
next
  case (body_throws i m t h1)
  from handleton_inv_create [OF assms(2) body_throws(5)] body_throws show ?thesis
    by (auto intro!: handleton_inv_goto handleton_inv_flag)
next
  case (table i t)
  then have "AtTable t \<in> set (callers h)" using nth_mem [of i "callers h"] by simp
  with assms(2) obtain p where "m_handletons h t = Some p" by (auto simp: handleton_inv_def)
  with table assms(2) show ?thesis by (auto intro!: handleton_inv_goto handleton_inv_table)
qed (auto intro!: handleton_inv_goto handleton_inv_flag)

lemma handleton_inv_run: "get_run throws h h' \<Longrightarrow> handleton_inv throws h \<Longrightarrow> handleton_inv throws h'"
  by (induction rule: get_run.induct) (auto intro: handleton_inv_step)

section \<open>Properties\<close>

text \<open>
  C33. However many threads and shared objects ask for it, a type whose constructor does not throw is constructed at
  most once, every \<open>GetInstance\<close> of it returns that one instance, and \<open>m_handletons.at\<close> never throws.
\<close>

theorem one_instance_per_type:
  assumes "get_run throws (new_handletons n) h" and "\<not> throws t"
  shows "missing h = 0 \<and> distinct (map fst (constructed h)) \<and>
    (\<forall>p. (t, p) \<in> set (returned h) \<longrightarrow> (\<exists>i. p = Some i \<and> (t, i) \<in> set (constructed h)))"
proof -
  have inv: "handleton_inv throws h" using handleton_inv_run [OF assms(1) handleton_inv_new] .
  have "\<exists>i. p = Some i \<and> (t, i) \<in> set (constructed h)" if "(t, p) \<in> set (returned h)" for p
  proof -
    have m: "m_handletons h t = Some p" using inv that by (auto simp: handleton_inv_def)
    with inv assms(2) obtain i where "p = Some i" by (cases p) (auto simp: handleton_inv_def)
    with inv m show ?thesis by (auto simp: handleton_inv_def)
  qed
  with inv show ?thesis by (simp add: handleton_inv_def)
qed

text \<open>
  A constructor that throws once, the logger's when its file does not open, leaves a null entry; the next
  \<open>GetInstance\<close> finds the entry, does not construct, and returns the null pointer.
\<close>

theorem null_instance_after_throw:
  "\<exists>h. get_run (\<lambda>_. True) (new_handletons 1) h \<and> constructed h = [] \<and> returned h = [(t, None)]"
proof -
  let ?h0 = "new_handletons 1" and ?R = "get_run (\<lambda>_. True) (new_handletons 1)"
  let ?h1 = "goto 0 (AtFlag 0 t) ?h0"
  let ?h2 = "goto 0 (InBody 0 t) (set_flag 0 t Running ?h1)"
  let ?n = "?h2\<lparr>m_handletons := [t \<mapsto> None]\<rparr>"
  let ?h3 = "goto 0 Outside (set_flag 0 t Unset ?n)"
  let ?h4 = "goto 0 (AtFlag 0 t) ?h3"
  let ?h5 = "goto 0 (InBody 0 t) (set_flag 0 t Running ?h4)"
  let ?h6 = "goto 0 (AtTable t) (set_flag 0 t Done ?h5)"
  let ?h7 = "goto 0 Outside (at_table t ?h6)"
  note d = goto_def set_flag_def new_handletons_def create_once_def
  have r1: "?R ?h1" by (rule get_run.step [OF get_run.refl get_step.call]) (simp_all add: d)
  have r2: "?R ?h2" by (rule get_run.step [OF r1 get_step.enter]) (simp_all add: d)
  have r3: "?R ?h3" by (rule get_run.step [OF r2 get_step.body_throws]) (simp_all add: d)
  have r4: "?R ?h4" by (rule get_run.step [OF r3 get_step.call]) (simp_all add: d)
  have r5: "?R ?h5" by (rule get_run.step [OF r4 get_step.enter]) (simp_all add: d)
  have r6: "?R ?h6" by (rule get_run.step [OF r5 get_step.body [where b = False]]) (simp_all add: d)
  have r7: "?R ?h7" by (rule get_run.step [OF r6 get_step.table]) (simp_all add: d)
  then show ?thesis by (intro exI [of _ ?h7]) (simp add: d at_table_def)
qed

section \<open>Witness\<close>

text \<open>The same type asked for from two shared objects, one after the other.\<close>

theorem one_instance_per_type_witness:
  "\<exists>h. get_run (\<lambda>_. False) (new_handletons 1) h \<and> returned h = [(7, Some 0)] \<and> constructed h = [(7, 0)] \<and>
    distinct (map fst (constructed h))"
proof -
  let ?h0 = "new_handletons 1" and ?R = "get_run (\<lambda>_. False) (new_handletons 1)"
  let ?h1 = "goto 0 (AtFlag 0 7) ?h0"
  let ?h2 = "goto 0 (InBody 0 7) (set_flag 0 7 Running ?h1)"
  let ?n = "?h2\<lparr>m_handletons := [7 \<mapsto> Some 0], next_instance := 1, constructed := [(7, 0)]\<rparr>"
  let ?h3 = "goto 0 (AtTable 7) (set_flag 0 7 Done ?n)"
  let ?h4 = "goto 0 Outside (at_table 7 ?h3)"
  note d = goto_def set_flag_def new_handletons_def create_once_def
  have r1: "?R ?h1" by (rule get_run.step [OF get_run.refl get_step.call]) (simp_all add: d)
  have r2: "?R ?h2" by (rule get_run.step [OF r1 get_step.enter]) (simp_all add: d)
  have r3: "?R ?h3" by (rule get_run.step [OF r2 get_step.body [where b = False]]) (simp_all add: d)
  have r4: "?R ?h4" by (rule get_run.step [OF r3 get_step.table]) (simp_all add: d)
  from one_instance_per_type [OF this, of 7] r4 show ?thesis
    by (intro exI [of _ ?h4]) (simp add: d at_table_def)
qed

end
