(* ===== verification/Singletons.thy ===== *)
theory Singletons
  imports Iot_Prelude
begin

text \<open>
  \<open>framework/include/singleton.hpp\<close>: one instance of a type, made on the first call of \<open>GetInstance\<close> by double-checked
  locking and deleted by a handler that \<open>atexit\<close> runs.  Threads call \<open>GetInstance\<close> at any time, also while the process
  exits.  Pointers are the numbers of the objects in the order of their construction.
\<close>

section \<open>Model\<close>

text \<open>
  Where a thread is in \<open>GetInstance\<close>: outside, waiting for the mutex after the first test, with the mutex before the
  second test, with the new object before the store, after the store before \<open>atexit\<close>, at the last read.
\<close>

datatype sg_pc = Idle | Second | Locked | Created nat | Stored | Leaving

record Singleton =
  m_singleton :: "nat option"
  m_mtx :: "nat option"
  sg_threads :: "sg_pc list"
  next_object :: nat
  handlers :: nat
  deleted :: "nat list"
  results :: "nat option list"

definition new_Singleton :: "nat \<Rightarrow> Singleton" where
  "new_Singleton n = \<lparr>m_singleton = None, m_mtx = None, sg_threads = replicate n Idle, next_object = 0, handlers = 0,
     deleted = [], results = []\<rparr>"

definition at_pc :: "nat \<Rightarrow> sg_pc \<Rightarrow> Singleton \<Rightarrow> Singleton" where
  "at_pc i pc s = s\<lparr>sg_threads := (sg_threads s)[i := pc]\<rparr>"

text \<open>The first test, without the mutex.\<close>

definition GetInstance_first :: "nat \<Rightarrow> Singleton \<Rightarrow> Singleton" where
  "GetInstance_first i s = at_pc i (if m_singleton s = None then Second else Leaving) s"

definition GetInstance_lock :: "nat \<Rightarrow> Singleton \<Rightarrow> Singleton" where
  "GetInstance_lock i s = at_pc i Locked (s\<lparr>m_mtx := Some i\<rparr>)"

text \<open>The second test and \<open>new T\<close>; \<open>throws\<close> says whether the constructor throws, which releases the mutex.\<close>

definition GetInstance_second :: "bool \<Rightarrow> nat \<Rightarrow> Singleton \<Rightarrow> Singleton" where
  "GetInstance_second throws i s =
     (if m_singleton s \<noteq> None then at_pc i Leaving (s\<lparr>m_mtx := None\<rparr>)
      else if throws then at_pc i Idle (s\<lparr>m_mtx := None\<rparr>)
      else at_pc i (Created (next_object s)) (s\<lparr>next_object := Suc (next_object s)\<rparr>))"

definition GetInstance_store :: "nat \<Rightarrow> nat \<Rightarrow> Singleton \<Rightarrow> Singleton" where
  "GetInstance_store p i s = at_pc i Stored (s\<lparr>m_singleton := Some p\<rparr>)"

definition GetInstance_atexit :: "nat \<Rightarrow> Singleton \<Rightarrow> Singleton" where
  "GetInstance_atexit i s = at_pc i Leaving (s\<lparr>handlers := Suc (handlers s), m_mtx := None\<rparr>)"

definition GetInstance_return :: "nat \<Rightarrow> Singleton \<Rightarrow> Singleton" where
  "GetInstance_return i s = at_pc i Idle (s\<lparr>results := results s @ [m_singleton s]\<rparr>)"

text \<open>\<open>DestroyInstance\<close>: \<open>delete m_singleton\<close>, a no-op on null, and then the store.\<close>

definition DestroyInstance_delete :: "Singleton \<Rightarrow> Singleton" where
  "DestroyInstance_delete s = s\<lparr>deleted := deleted s @ (case m_singleton s of None \<Rightarrow> [] | Some p \<Rightarrow> [p])\<rparr>"

definition DestroyInstance_store :: "Singleton \<Rightarrow> Singleton" where
  "DestroyInstance_store s = s\<lparr>m_singleton := None, handlers := handlers s - 1\<rparr>"

text \<open>A step of one of the threads, and a step of the exit of the process.\<close>

inductive thread_step :: "Singleton \<Rightarrow> Singleton \<Rightarrow> bool" where
  first: "i < length (sg_threads s) \<Longrightarrow> sg_threads s ! i = Idle \<Longrightarrow> thread_step s (GetInstance_first i s)"
| lock: "i < length (sg_threads s) \<Longrightarrow> sg_threads s ! i = Second \<Longrightarrow> m_mtx s = None \<Longrightarrow>
    thread_step s (GetInstance_lock i s)"
| second: "i < length (sg_threads s) \<Longrightarrow> sg_threads s ! i = Locked \<Longrightarrow> thread_step s (GetInstance_second throws i s)"
| store: "i < length (sg_threads s) \<Longrightarrow> sg_threads s ! i = Created p \<Longrightarrow> thread_step s (GetInstance_store p i s)"
| atexit: "i < length (sg_threads s) \<Longrightarrow> sg_threads s ! i = Stored \<Longrightarrow> thread_step s (GetInstance_atexit i s)"
| return: "i < length (sg_threads s) \<Longrightarrow> sg_threads s ! i = Leaving \<Longrightarrow> thread_step s (GetInstance_return i s)"

inductive sg_run :: "Singleton \<Rightarrow> Singleton \<Rightarrow> bool" for s where
  refl: "sg_run s s"
| step: "sg_run s s1 \<Longrightarrow> thread_step s1 s2 \<Longrightarrow> sg_run s s2"

section \<open>Invariant\<close>

text \<open>The places where a thread holds the mutex.\<close>

definition holds :: "sg_pc \<Rightarrow> bool" where
  "holds pc = (case pc of Idle \<Rightarrow> False | Second \<Rightarrow> False | Leaving \<Rightarrow> False | _ \<Rightarrow> True)"

text \<open>The mutex is held by one thread.\<close>

definition mutex_inv :: "Singleton \<Rightarrow> bool" where
  "mutex_inv s \<longleftrightarrow> (\<forall>i < length (sg_threads s). holds (sg_threads s ! i) \<longleftrightarrow> m_mtx s = Some i) \<and>
     (\<forall>i. m_mtx s = Some i \<longrightarrow> i < length (sg_threads s))"

text \<open>What a place says of the pointer and of the number of objects, and of the handlers.\<close>

definition pc_ok :: "Singleton \<Rightarrow> sg_pc \<Rightarrow> bool" where
  "pc_ok s pc =
     (case pc of
        Created p \<Rightarrow> m_singleton s = None \<and> p = 0 \<and> next_object s = 1
      | Stored \<Rightarrow> m_singleton s = Some 0 \<and> handlers s = 0
      | Leaving \<Rightarrow> m_singleton s = Some 0
      | Locked \<Rightarrow> (if m_singleton s = None then next_object s = 0 else handlers s = 1)
      | _ \<Rightarrow> True)"

text \<open>With the mutex free, either there is no object yet or it is complete.\<close>

definition free_ok :: "Singleton \<Rightarrow> bool" where
  "free_ok s \<longleftrightarrow> (m_mtx s = None \<longrightarrow> (if m_singleton s = None then next_object s = 0 else handlers s = 1))"

definition sg_inv :: "Singleton \<Rightarrow> bool" where
  "sg_inv s \<longleftrightarrow> mutex_inv s \<and> free_ok s \<and> (\<forall>i < length (sg_threads s). pc_ok s (sg_threads s ! i)) \<and>
     (m_singleton s = None \<longrightarrow> handlers s = 0 \<and> results s = []) \<and>
     (m_singleton s \<noteq> None \<longrightarrow> m_singleton s = Some 0 \<and> next_object s = 1) \<and>
     set (results s) \<subseteq> {Some 0} \<and> next_object s \<le> 1 \<and> handlers s \<le> 1"

lemma at_pc_fields [simp]:
  "m_singleton (at_pc i pc s) = m_singleton s" "m_mtx (at_pc i pc s) = m_mtx s" "handlers (at_pc i pc s) = handlers s"
  "next_object (at_pc i pc s) = next_object s" "results (at_pc i pc s) = results s"
  "sg_threads (at_pc i pc s) = (sg_threads s)[i := pc]" "deleted (at_pc i pc s) = deleted s"
  "pc_ok (at_pc i pc s) = pc_ok s" "free_ok (at_pc i pc s) = free_ok s"
  by (auto simp: at_pc_def pc_ok_def free_ok_def fun_eq_iff split: sg_pc.split)

lemma holds_simps [simp]:
  "\<not> holds Idle" "\<not> holds Second" "\<not> holds Leaving" "holds Locked" "holds (Created p)" "holds Stored"
  by (simp_all add: holds_def)

lemma sg_inv_new: "sg_inv (new_Singleton n)"
  by (simp add: sg_inv_def mutex_inv_def free_ok_def pc_ok_def new_Singleton_def)

lemmas sg_ops = GetInstance_first_def GetInstance_lock_def GetInstance_second_def GetInstance_store_def
  GetInstance_atexit_def GetInstance_return_def

text \<open>Entering and leaving the mutex, and moving without touching it.\<close>

lemma mutex_inv_acquire:
  "mutex_inv s \<Longrightarrow> m_mtx s = None \<Longrightarrow> i < length (sg_threads s) \<Longrightarrow> holds pc \<Longrightarrow>
    mutex_inv (at_pc i pc (s\<lparr>m_mtx := Some i\<rparr>))"
  by (simp add: mutex_inv_def nth_list_update)

lemma mutex_inv_release:
  "mutex_inv s \<Longrightarrow> i < length (sg_threads s) \<Longrightarrow> holds (sg_threads s ! i) \<Longrightarrow> \<not> holds pc \<Longrightarrow>
    mutex_inv (at_pc i pc (s\<lparr>m_mtx := None\<rparr>))"
  by (auto simp: mutex_inv_def nth_list_update)

lemma mutex_inv_move:
  "mutex_inv s \<Longrightarrow> i < length (sg_threads s) \<Longrightarrow> holds pc = holds (sg_threads s ! i) \<Longrightarrow> mutex_inv (at_pc i pc s)"
  by (auto simp: mutex_inv_def nth_list_update)

lemma mutex_inv_cong:
  "m_mtx s' = m_mtx s \<Longrightarrow> sg_threads s' = sg_threads s \<Longrightarrow> mutex_inv s' = mutex_inv s"
  by (simp add: mutex_inv_def)

text \<open>The other threads, seen from the holder of the mutex.\<close>

lemma others_free:
  assumes "mutex_inv s" and "i < length (sg_threads s)" "holds (sg_threads s ! i)"
    and "j < length (sg_threads s)" "j \<noteq> i"
  shows "\<not> holds (sg_threads s ! j)"
  using assms by (auto simp: mutex_inv_def)

lemma holder_mtx: "mutex_inv s \<Longrightarrow> i < length (sg_threads s) \<Longrightarrow> holds (sg_threads s ! i) \<Longrightarrow> m_mtx s = Some i"
  by (simp add: mutex_inv_def)

lemma pc_ok_free:
  assumes "\<not> holds pc" and "pc_ok s pc" and "m_singleton s = Some 0 \<longrightarrow> m_singleton s' = Some 0"
  shows "pc_ok s' pc"
  using assms by (cases pc) (simp_all add: pc_ok_def)

lemma sg_inv_at:
  assumes inv: "sg_inv s" and i: "i < length (sg_threads s)" and th: "sg_threads s' = sg_threads s"
    and m: "mutex_inv (at_pc i pc s')" and ok: "pc_ok s' pc" "free_ok s'"
    and oth: "\<And>j. j < length (sg_threads s) \<Longrightarrow> j \<noteq> i \<Longrightarrow> pc_ok s' (sg_threads s ! j)"
    and rest: "m_singleton s' = None \<longrightarrow> handlers s' = 0 \<and> results s' = []"
      "m_singleton s' \<noteq> None \<longrightarrow> m_singleton s' = Some 0 \<and> next_object s' = 1"
      "set (results s') \<subseteq> {Some 0}" "next_object s' \<le> 1" "handlers s' \<le> 1"
  shows "sg_inv (at_pc i pc s')"
  using assms by (simp add: sg_inv_def nth_list_update)

lemma sg_inv_parts:
  assumes "sg_inv s"
  shows "mutex_inv s" "free_ok s" "i < length (sg_threads s) \<Longrightarrow> pc_ok s (sg_threads s ! i)"
    "m_singleton s = None \<and> handlers s = 0 \<and> results s = [] \<or> m_singleton s = Some 0 \<and> next_object s = 1"
    "set (results s) \<subseteq> {Some 0}" "next_object s \<le> 1" "handlers s \<le> 1"
  using assms unfolding sg_inv_def by (simp_all, metis)

lemma pc_ok_mtx [simp]:
  "pc_ok (s\<lparr>m_mtx := x\<rparr>) = pc_ok s" "pc_ok (s\<lparr>results := r\<rparr>) = pc_ok s"
  "free_ok (s\<lparr>m_mtx := Some i\<rparr>)" "free_ok (s\<lparr>results := r\<rparr>) = free_ok s"
  by (auto simp: pc_ok_def free_ok_def fun_eq_iff split: sg_pc.split)

text \<open>What the holder of the mutex does is right for the others as long as the pointer stays.\<close>

lemma others_ok:
  assumes "sg_inv s" and "i < length (sg_threads s)" "holds (sg_threads s ! i)"
    and "m_singleton s = Some 0 \<longrightarrow> m_singleton s' = Some 0" and "j < length (sg_threads s)" "j \<noteq> i"
  shows "pc_ok s' (sg_threads s ! j)"
  using pc_ok_free [OF others_free [OF sg_inv_parts(1) [OF assms(1)] assms(2,3,5,6)] sg_inv_parts(3) [OF assms(1,5)] assms(4)] .

lemma sg_inv_first:
  assumes inv: "sg_inv s" and i: "i < length (sg_threads s)" "sg_threads s ! i = Idle"
  shows "sg_inv (GetInstance_first i s)"
  unfolding GetInstance_first_def
  by (rule sg_inv_at [OF inv i(1)])
    (use sg_inv_parts [OF inv] i in \<open>auto simp: pc_ok_def [of _ Second] pc_ok_def [of _ Leaving] intro: mutex_inv_move\<close>)

lemma sg_inv_lock:
  assumes inv: "sg_inv s" and i: "i < length (sg_threads s)" "m_mtx s = None"
  shows "sg_inv (GetInstance_lock i s)"
  unfolding GetInstance_lock_def
  by (rule sg_inv_at [OF inv i(1)])
    (use sg_inv_parts [OF inv] i in \<open>auto simp: pc_ok_def [of _ Locked] free_ok_def intro: mutex_inv_acquire\<close>)

lemma sg_inv_second:
  assumes inv: "sg_inv s" and i: "i < length (sg_threads s)" "sg_threads s ! i = Locked"
  shows "sg_inv (GetInstance_second throws i s)"
proof -
  note p = sg_inv_parts [OF inv]
  have h: "holds (sg_threads s ! i)" and ok: "pc_ok s Locked" using i p(3) [OF i(1)] by simp_all
  note oth = others_ok [OF inv i(1) h]
  have "sg_inv (at_pc i Leaving (s\<lparr>m_mtx := None\<rparr>))" if "m_singleton s \<noteq> None"
    by (rule sg_inv_at [OF inv i(1)])
      (use p oth that ok i in \<open>auto simp: pc_ok_def [of _ Leaving] pc_ok_def [of _ Locked] free_ok_def intro: mutex_inv_release\<close>)
  moreover have "sg_inv (at_pc i Idle (s\<lparr>m_mtx := None\<rparr>))"
    by (rule sg_inv_at [OF inv i(1)])
      (use p oth ok i in \<open>auto simp: pc_ok_def [of _ Idle] pc_ok_def [of _ Locked] free_ok_def intro: mutex_inv_release\<close>)
  moreover have "sg_inv (at_pc i (Created (next_object s)) (s\<lparr>next_object := Suc (next_object s)\<rparr>))" if "m_singleton s = None"
  proof (rule sg_inv_at [OF inv i(1)])
    have "mutex_inv (at_pc i (Created (next_object s)) s)" using p(1) i by (intro mutex_inv_move) simp_all
    then show "mutex_inv (at_pc i (Created (next_object s)) (s\<lparr>next_object := Suc (next_object s)\<rparr>))"
      by (simp add: mutex_inv_def)
    have "m_mtx s = Some i" by (rule holder_mtx [OF p(1) i(1) h])
    then show "free_ok (s\<lparr>next_object := Suc (next_object s)\<rparr>)" by (simp add: free_ok_def)
  qed (use p oth that ok in \<open>auto simp: pc_ok_def [of _ "Created _"] pc_ok_def [of _ Locked]\<close>)
  ultimately show ?thesis by (simp add: GetInstance_second_def)
qed

lemma sg_inv_store:
  assumes inv: "sg_inv s" and i: "i < length (sg_threads s)" "sg_threads s ! i = Created p"
  shows "sg_inv (GetInstance_store p i s)"
  unfolding GetInstance_store_def
proof (rule sg_inv_at [OF inv i(1)])
  note q = sg_inv_parts [OF inv]
  have h: "holds (sg_threads s ! i)" and ok: "m_singleton s = None" "p = 0" "next_object s = 1"
    using i q(3) [OF i(1)] by (simp_all add: pc_ok_def)
  show "mutex_inv (at_pc i Stored (s\<lparr>m_singleton := Some p\<rparr>))"
    using mutex_inv_move [OF q(1) i(1), of Stored] i(2) by (simp add: mutex_inv_def)
  have "m_mtx s = Some i" by (rule holder_mtx [OF q(1) i(1) h])
  then show "free_ok (s\<lparr>m_singleton := Some p\<rparr>)" by (simp add: free_ok_def)
  show "pc_ok (s\<lparr>m_singleton := Some p\<rparr>) (sg_threads s ! j)" if "j < length (sg_threads s)" "j \<noteq> i" for j
    using others_ok [OF inv i(1) h _ that] ok by simp
qed (use sg_inv_parts [OF inv] sg_inv_parts(3) [OF inv i(1)] i in \<open>auto simp: pc_ok_def\<close>)

lemma sg_inv_atexit:
  assumes inv: "sg_inv s" and i: "i < length (sg_threads s)" "sg_threads s ! i = Stored"
  shows "sg_inv (GetInstance_atexit i s)"
  unfolding GetInstance_atexit_def
proof (rule sg_inv_at [OF inv i(1)])
  note q = sg_inv_parts [OF inv]
  have h: "holds (sg_threads s ! i)" and ok: "m_singleton s = Some 0" "handlers s = 0"
    using i q(3) [OF i(1)] by (simp_all add: pc_ok_def)
  have "mutex_inv (at_pc i Leaving (s\<lparr>m_mtx := None\<rparr>))" using mutex_inv_release [OF q(1) i(1) h] by simp
  then show "mutex_inv (at_pc i Leaving (s\<lparr>handlers := Suc (handlers s), m_mtx := None\<rparr>))" by (simp add: mutex_inv_def)
  show "free_ok (s\<lparr>handlers := Suc (handlers s), m_mtx := None\<rparr>)" using ok by (simp add: free_ok_def)
  show "pc_ok (s\<lparr>handlers := Suc (handlers s), m_mtx := None\<rparr>) (sg_threads s ! j)"
    if "j < length (sg_threads s)" "j \<noteq> i" for j
    using others_ok [OF inv i(1) h _ that] by simp
qed (use sg_inv_parts [OF inv] sg_inv_parts(3) [OF inv i(1)] i in \<open>auto simp: pc_ok_def\<close>)

lemma sg_inv_return:
  assumes inv: "sg_inv s" and i: "i < length (sg_threads s)" "sg_threads s ! i = Leaving"
  shows "sg_inv (GetInstance_return i s)"
  unfolding GetInstance_return_def
proof (rule sg_inv_at [OF inv i(1)])
  note q = sg_inv_parts [OF inv]
  have "mutex_inv (at_pc i Idle s)" using mutex_inv_move [OF q(1) i(1)] i(2) by simp
  then show "mutex_inv (at_pc i Idle (s\<lparr>results := results s @ [m_singleton s]\<rparr>))" by (simp add: mutex_inv_def)
qed (use sg_inv_parts [OF inv] sg_inv_parts(3) [OF inv i(1)] i in \<open>auto simp: pc_ok_def [of _ Idle] pc_ok_def [of _ Leaving]\<close>)

lemma sg_inv_step: "thread_step s s' \<Longrightarrow> sg_inv s \<Longrightarrow> sg_inv s'"
  by (induction rule: thread_step.induct)
    (simp_all add: sg_inv_first sg_inv_lock sg_inv_second sg_inv_store sg_inv_atexit sg_inv_return)

lemma sg_inv_run: "sg_run s s' \<Longrightarrow> sg_inv s \<Longrightarrow> sg_inv s'"
  by (induction rule: sg_run.induct) (auto intro: sg_inv_step)

section \<open>Properties\<close>


text \<open>
  The handler deletes the object before it clears the pointer, and clears it without the mutex: a thread that
  calls \<open>GetInstance\<close> in between gets a pointer to a deleted object.
\<close>

theorem instance_used_after_delete:
  assumes "sg_run (new_Singleton n) s" and "handlers s = 1" and "i < length (sg_threads s)" and "sg_threads s ! i = Idle"
  shows "\<exists>s'. sg_run (DestroyInstance_delete s) s' \<and> results s' = results s @ [Some 0] \<and> 0 \<in> set (deleted s')"
proof -
  note p = sg_inv_parts [OF sg_inv_run [OF assms(1) sg_inv_new]]
  from p(4) assms(2) have m: "m_singleton s = Some 0" by auto
  let ?s0 = "DestroyInstance_delete s"
  let ?s1 = "GetInstance_first i ?s0"
  let ?s2 = "GetInstance_return i ?s1"
  note d = DestroyInstance_delete_def GetInstance_first_def GetInstance_return_def
  have r1: "sg_run ?s0 ?s1"
    by (rule sg_run.step [OF sg_run.refl thread_step.first]) (use assms in \<open>simp_all add: d\<close>)
  have "sg_run ?s0 ?s2"
    by (rule sg_run.step [OF r1 thread_step.return]) (use assms m in \<open>simp_all add: d\<close>)
  then show ?thesis using m by (intro exI [of _ ?s2]) (simp add: d)
qed

section \<open>Witnesses\<close>

text \<open>Two threads: the first one passes the first test, the second one makes the object, the first one finds it.\<close>

definition ex_singleton :: Singleton where
  "ex_singleton = GetInstance_return 0 (GetInstance_second False 0 (GetInstance_lock 0 (GetInstance_return 1
     (GetInstance_atexit 1 (GetInstance_store 0 1 (GetInstance_second False 1 (GetInstance_lock 1
       (GetInstance_first 1 (GetInstance_first 0 (new_Singleton 2))))))))))"

lemma ex_singleton_run: "sg_run (new_Singleton 2) ex_singleton"
proof -
  note d = sg_ops new_Singleton_def numeral_2_eq_2
  have 1: "sg_run (new_Singleton 2) (GetInstance_first 0 (new_Singleton 2))"
    by (rule sg_run.step [OF sg_run.refl thread_step.first]) (simp_all add: d)
  note 2 = sg_run.step [OF 1 thread_step.first [of 1]]
  note 3 = sg_run.step [OF 2 thread_step.lock [of 1]]
  note 4 = sg_run.step [OF 3 thread_step.second [of 1 _ False]]
  note 5 = sg_run.step [OF 4 thread_step.store [of 1 _ 0]]
  note 6 = sg_run.step [OF 5 thread_step.atexit [of 1]]
  note 7 = sg_run.step [OF 6 thread_step.return [of 1]]
  note 8 = sg_run.step [OF 7 thread_step.lock [of 0]]
  note 9 = sg_run.step [OF 8 thread_step.second [of 0 _ False]]
  show ?thesis
    unfolding ex_singleton_def by (rule sg_run.step [OF 9 thread_step.return [of 0]]) (simp_all add: d)
qed

lemma ex_singleton_state:
  "results ex_singleton = [Some 0, Some 0]" "next_object ex_singleton = 1" "handlers ex_singleton = 1"
  "sg_threads ex_singleton = [Idle, Idle]"
  by (simp_all add: ex_singleton_def sg_ops new_Singleton_def numeral_2_eq_2)


theorem instance_used_after_delete_witness:
  "\<exists>s'. sg_run (DestroyInstance_delete ex_singleton) s' \<and> results s' = [Some 0, Some 0, Some 0] \<and> 0 \<in> set (deleted s')"
  using instance_used_after_delete [OF ex_singleton_run, of 0] by (simp add: ex_singleton_state)

end
