(* ===== verification/Spec2Isabelle.thy ===== *)
theory Spec2Isabelle
  imports Drive_Refinement Bad_Requests Crossing_Reads Request_Isolation Thread_Pool Tasks Logging Scheduling
    Plugin_Commands Reactor_Threads Descriptors Handletons Singletons
begin

text \<open>
  IoT-based RAID 01 drive: a verification library.

  \<^bold>\<open>The program.\<close>  A master process offers a block device to the Linux kernel through NBD and keeps its contents on
  minion processes, reached by UDP.  Every chunk of the drive has a primary and a backup minion.  A request of the
  kernel arrives on a socket (\<open>NBDProxy\<close>), becomes a task of the framework's thread pool, is cut into segments
  (\<open>StripeSplitter\<close>) and sent to two minions per segment (\<open>MinionManager\<close>, \<open>MinionProxy\<close>).  The answers meet in the
  request's \<open>Ticket\<close>; when it is complete the \<open>ResponseManager\<close> tells the NBD proxy, which replies to the kernel.
  A minion receives a datagram (\<open>MasterProxy\<close>), reads or writes its file (\<open>FileManager\<close>) and answers.  Both
  processes stand on the framework: reactor, thread pool, logger, scheduler, plugin loader, dispatchers, factories
  and global instances.  Source names below are relative to \<open>src/\<close>.

  \<^bold>\<open>Conventions.\<close>  Theory \<open>Iot_Prelude\<close> has the machine types (\<open>size_t\<close> is a 64-bit word, arithmetic wraps), the result
  type \<open>'a res\<close>, whose left values are exceptions (\<open>Throw\<close>) and undefined behaviour (\<open>UB\<close>), and checked memory
  accesses on little-endian bytes.  \<open>Cpp_Monad\<close> adds state: what was changed before a \<open>throw\<close> stays changed.
  Definitions have the names of the sources; \<open>C_Op\<close> is operation \<open>Op\<close> of class \<open>C\<close> where a name is used twice,
  \<open>new_C\<close> a constructor and \<open>C_delete\<close> a destructor.  What system calls return is an argument of the definition that
  makes the call.

  \<^bold>\<open>Data path of the drive\<close> (\<open>concrete/\<close>).
  \<^item> \<open>Stripe_Splitter\<close> (\<open>StripeSplitter.cpp\<close>): \<open>Split\<close> lists exactly the bytes of the request in order, places them as a
    byte-wise specification says, keeps inside the minions' files, and ends.  Its contract is the locale \<open>stripe_map\<close>.
  \<^item> \<open>Uid\<close>, \<open>Messages\<close>, \<open>Factories\<close>, \<open>Udp_Channel\<close> (\<open>UID.cpp\<close>, \<open>AMessage.cpp\<close>, \<open>MessageSend.cpp\<close>,
    \<open>MessageReceive.cpp\<close>, \<open>UdpSocket.cpp\<close>, \<open>framework/include/factory.hpp\<close>): the bytes of every message class, the
    receiver's checks, and that what is sent is rebuilt (locale \<open>message_codec\<close>); that whatever is decoded is well
    typed and was encoded exactly so; where encoding reads past its block and which datagrams are refused.
  \<^item> \<open>Tickets\<close> (\<open>Ticket.cpp\<close>): responses in any order and number; a read never delivers wrong bytes, a write
    succeeds only on both mirrors, a ticket notifies once, and when a read survives a failing mirror.
  \<^item> \<open>File_Manager\<close>, \<open>Task_Args\<close>, \<open>Minion_Server\<close> (\<open>FileManager.cpp\<close>, \<open>ATaskArgs.cpp\<close> and its subclasses,
    \<open>MasterProxy.cpp\<close>, \<open>MinionCommands.cpp\<close>): the stream with its sticky error state (locale \<open>byte_store\<close>), and that
    a minion process refines a disk that answers each request once.
  \<^item> \<open>Minion_Proxy\<close>, \<open>Tcp_Client\<close>, \<open>Nbd_Proxy\<close>, \<open>Minion_Manager\<close>, \<open>Response_Manager\<close>, \<open>Master_State\<close>, \<open>Master_Server\<close>
    (the files of these names, \<open>Commands.cpp\<close>, and the parts of \<open>framework/src\<close> that run the master's
    callbacks and tasks): the master as one state with one operation per handler.
  \<^item> \<open>Master_Invariant\<close>: an invariant of all reachable states of the master, kept by every event, exceptions
    included.  \<open>Master_Runs\<close> and \<open>Raid_System\<close> compose master, network and minions: a write and a read inside one
    chunk, end to end, the read also with only one of its two minions alive, and that neighbouring chunks overwrite
    each other's mirror.  \<open>Drive_Refinement\<close>: on chunks that are not neighbours the whole drive refines a volume of
    bytes, for every sequence of requests.  \<open>Lost_Requests\<close>, \<open>Crossing_Reads\<close> and \<open>Bad_Requests\<close>: requests that
    never get a reply (a write with one mirror silent among them), a read over a chunk boundary that succeeds with wrong
    bytes, and what the range check lets through.  \<open>Duplicate_Answers\<close>: a datagram that arrives twice counts once
    (locale \<open>proxy_place\<close>, a proxy inside a larger state).  \<open>Request_Isolation\<close>: handling a datagram touches
    nothing of the other requests under way.

  \<^bold>\<open>Framework\<close> (\<open>framework/\<close>).  Code under a lock is a function, threads are an inductive step relation, and
  theorems about them are about all interleavings.
  \<^item> \<open>Dispatchers\<close> (\<open>dispatcher.hpp\<close>): back pointers and lists stay linked; when they dangle.
  \<^item> \<open>Waitable_Queues\<close> (\<open>waitable_queue.hpp\<close>): the contract of a blocking queue as locale \<open>container\<close>, met by the FIFO
    and by the priority queues of the thread pool and the scheduler; order of delivery and no lost wake-up.
  \<^item> \<open>Thread_Pool\<close> (\<open>thread_pool.cpp\<close>): the number of workers, the order of tasks, pause, resume and destruction.
  \<^item> \<open>Logging\<close> (\<open>logger.cpp\<close>): the file is what was logged in order, how the shut-down ends, the line format.
  \<^item> \<open>Scheduling\<close> (\<open>scheduler.cpp\<close>, \<open>AsyncInjection.cpp\<close>): timer and queue; no task is lost, when one can start early,
    and why a scheduled function is not called.
  \<^item> \<open>Reactors\<close> (\<open>listener.cpp\<close>, \<open>reactor.cpp\<close>): which descriptors are reported and which functions are called.
    \<open>Reactor_Threads\<close> (the thread of \<open>MinionManager.cpp\<close>): when the manager's destructor returns and when it cannot.
  \<^item> \<open>Plugins\<close> (\<open>dir_monitor.cpp\<close>, \<open>dll_loader.cpp\<close>): the kernel's event bytes, loads and unloads, open handles.
  \<^item> \<open>Descriptors\<close> (\<open>concrete/include/SocketBase.hpp\<close>, \<open>concrete/src/NBD.cpp\<close>): ownership of descriptors, and the device
    from its constructor to its destructor.
  \<^item> \<open>Handletons\<close> (\<open>handleton.hpp\<close>), \<open>Singletons\<close> (\<open>singleton.hpp\<close>): one instance per type, by \<open>call_once\<close> and by
    double-checked locking; what is left of it after a throwing constructor and during the exit of the process.
  \<^item> \<open>Tasks\<close> (\<open>tp_task.hpp\<close>): the function tasks, and that a future hands over each value once.
  \<^item> \<open>Frameworks\<close> (\<open>Framework.cpp\<close>): the object that joins reactor, factory, monitor and loader; which proxies serve
    which descriptors and what a turn gives to the thread pool.
  \<^item> \<open>Plugin_Commands\<close> (\<open>FrameworkPlugin.cpp\<close>): the example plugin loaded into a running master and removed again.

  \<^bold>\<open>Bounds and loops.\<close>  \<open>Split_loop\<close> and \<open>handle_events\<close> are total by a measure.  The socket loops of \<open>Tcp_Client\<close> recurse
  on the list of what the coming system calls return, \<open>Run_loop\<close> and \<open>MonitorRun\<close> on the list of what the coming
  \<open>select\<close> or \<open>read\<close> calls find; the last two give no value when the list ends while the loop still waits.  Thread
  steps have no bound; termination there is a measure on the state.  The counter of the scheduler is a word, with
  the side condition that memory holds fewer than \<open>2 ^ 64\<close> tasks.

  \<^bold>\<open>Not modelled.\<close>  The printers \<open>ToString\<close> of the messages, which nothing calls; \<open>SchedulerTask\<close>
  (\<open>scheduler_task.hpp\<close>), which does not compile; unit tests.  Of the system calls only what they return and what they
  do to descriptors, timers and children is modelled.  Data races on plain variables (\<open>m_running\<close> of the logger and
  the monitor, the unlocked read in \<open>GetInstance\<close> of \<open>Handleton\<close>) are undefined behaviour in C++; the model reads and
  writes such variables atomically.  \<open>Frameworks\<close> leaves out what a throwing proxy did to its own state, since the
  exception ends the process.
\<close>

end
